(* ===== verification/Prelude.thy ===== *)
theory Prelude
  imports Main "HOL-Library.Word"
begin

text \<open>
  What the components of the development share: the machine integer types of the C
  sources, the error codes the shims return, the scan loop (\<open>for (i = 0; i < N; i++)
  if (P(i)) break;\<close>) that every fixed table is searched with, the interface of a handle
  table as a locale, and the locale of a state machine whose steps keep an invariant.
\<close>

section \<open>Machine integers and error codes\<close>

type_synonym u8 = "8 word"
type_synonym u16 = "16 word"
type_synonym u32 = "32 word"
type_synonym u64 = "64 word"

datatype errno =
    EINVAL | ENOMEM | ENOSYS | ENODEV | EIO | ETIMEDOUT | EPERM | ENOSPC | EACCES | EBADF
  | ENOENT | ENOTDIR | ENAMETOOLONG | EFAULT | ERANGE

text \<open>A command of the winsys returns 0 or a negative errno.\<close>

datatype rc = Ok | Err errno

named_theorems table_simps \<open>lookup and update of the fixed tables\<close>

lemma unat_of_nat_small: "k < 2 ^ LENGTH('a) \<Longrightarrow> unat (of_nat k :: 'a :: len word) = k"
  by (simp add: unat_of_nat take_bit_nat_eq_self)

lemma of_nat_small_eq_0: "k < 2 ^ LENGTH('a) \<Longrightarrow> (of_nat k :: 'a :: len word) = 0 \<longleftrightarrow> k = 0"
  by (auto simp: word_of_nat_eq_0_iff dest: dvd_imp_le)

section \<open>Scan loops\<close>

text \<open>
  \<open>scan P i k\<close> looks at the indices \<open>i, i + 1, ...\<close>, at most \<open>k\<close> of them, and stops at
  the first one that satisfies \<open>P\<close>.
\<close>

fun scan :: "(nat \<Rightarrow> bool) \<Rightarrow> nat \<Rightarrow> nat \<Rightarrow> nat option" where
  "scan P i 0 = None"
| "scan P i (Suc k) = (if P i then Some i else scan P (Suc i) k)"

definition first_index :: "(nat \<Rightarrow> bool) \<Rightarrow> nat \<Rightarrow> nat option" where
  "first_index P n = scan P 0 n"

lemma scan_numeral [simp]:
  "scan P i (numeral k) = (if P i then Some i else scan P (Suc i) (pred_numeral k))"
  by (simp add: numeral_eq_Suc)

lemma scan_None: "scan P i k = None \<longleftrightarrow> (\<forall>j. i \<le> j \<and> j < i + k \<longrightarrow> \<not> P j)"
proof (induction k arbitrary: i)
  case 0
  then show ?case by auto
next
  case (Suc k)
  have "(\<forall>j. i \<le> j \<and> j < i + Suc k \<longrightarrow> \<not> P j)
      \<longleftrightarrow> \<not> P i \<and> (\<forall>j. Suc i \<le> j \<and> j < Suc i + k \<longrightarrow> \<not> P j)"
    by (metis Suc_le_eq add_Suc add_Suc_right le_add1 le_imp_less_Suc le_less)
  with Suc.IH [of "Suc i"] show ?case by simp
qed

lemma scan_Some:
  "scan P i k = Some m \<longleftrightarrow> i \<le> m \<and> m < i + k \<and> P m \<and> (\<forall>j. i \<le> j \<and> j < m \<longrightarrow> \<not> P j)"
proof (induction k arbitrary: i)
  case 0
  then show ?case by simp
next
  case (Suc k)
  show ?case
  proof (cases "P i")
    case True
    then show ?thesis by (auto simp: not_less_eq_eq le_less)
  next
    case False
    have "(\<forall>j. i \<le> j \<and> j < m \<longrightarrow> \<not> P j) \<longleftrightarrow> (\<forall>j. Suc i \<le> j \<and> j < m \<longrightarrow> \<not> P j)"
      using False by (metis Suc_le_eq le_less)
    moreover have "P m \<Longrightarrow> i \<le> m \<longleftrightarrow> Suc i \<le> m"
      using False by (metis Suc_le_eq le_less)
    ultimately show ?thesis using False Suc.IH [of "Suc i"] by auto
  qed
qed

lemma first_index_None [table_simps]: "first_index P n = None \<longleftrightarrow> (\<forall>j<n. \<not> P j)"
  by (simp add: first_index_def scan_None)

lemma first_index_Some [table_simps]:
  "first_index P n = Some m \<longleftrightarrow> m < n \<and> P m \<and> (\<forall>j<m. \<not> P j)"
  by (auto simp: first_index_def scan_Some)

lemma first_index_SomeD:
  assumes "first_index P n = Some m"
  shows "m < n" and "P m" and "j < m \<Longrightarrow> \<not> P j"
  using assms by (auto simp: first_index_Some)

text \<open>A table with an entry that satisfies \<open>P\<close> is never reported as having none.\<close>

lemma first_index_ex: "i < n \<Longrightarrow> P i \<Longrightarrow> \<exists>m. first_index P n = Some m"
  by (cases "first_index P n") (auto simp: first_index_None)

section \<open>Handles\<close>

text \<open>Handle 0 is "none" to libdrm, so slot \<open>i\<close> of a table has the handle \<open>i + 1\<close>.\<close>

definition handle_of :: "nat \<Rightarrow> u32" where
  "handle_of i = of_nat (i + 1)"

lemma unat_handle_of [simp]: "i + 1 < 2 ^ 32 \<Longrightarrow> unat (handle_of i) = i + 1"
  unfolding handle_of_def unat_of_nat by (simp add: take_bit_nat_eq_self)

lemma handle_of_nonzero [simp]: "i + 1 < 2 ^ 32 \<Longrightarrow> handle_of i \<noteq> 0"
  using unat_handle_of [of i] by (metis add_is_0 unat_0 zero_neq_one)

lemma unat_handle_index:
  "h \<noteq> (0 :: u32) \<Longrightarrow> handle_of (unat h - 1) = h"
  by (simp add: handle_of_def unat_gt_0 Suc_leI)

lemma handle_index_inj:
  assumes "h \<noteq> (0 :: u32)" and "k \<noteq> 0" and "unat h - 1 = unat k - 1"
  shows "h = k"
  using assms by (metis unat_handle_index)

text \<open>
  The lookup all the tables share: a handle names slot \<open>handle - 1\<close> if it is in range and
  the slot is live.
\<close>

definition live_slot :: "('e \<Rightarrow> bool) \<Rightarrow> nat \<Rightarrow> (nat \<Rightarrow> 'e) \<Rightarrow> u32 \<Rightarrow> 'e option" where
  "live_slot live cap t h =
     (if h = 0 \<or> cap < unat h then None
      else let e = t (unat h - 1) in if live e then Some e else None)"

lemma live_slot_NoneI [table_simps]:
  "i + 1 < 2 ^ 32 \<Longrightarrow> \<not> live (t i) \<Longrightarrow> live_slot live cap t (handle_of i) = None"
  by (simp add: live_slot_def)

lemma live_slot_range: "live_slot live cap t h \<noteq> None \<Longrightarrow> h \<noteq> 0 \<and> unat h \<le> cap"
  by (auto simp: live_slot_def split: if_splits)

lemma live_slot_SomeD:
  assumes "live_slot live cap t h = Some e"
  shows "h \<noteq> 0" and "unat h - 1 < cap" and "live e" and "t (unat h - 1) = e"
proof -
  show "h \<noteq> 0" and "live e" and "t (unat h - 1) = e"
    using assms by (auto simp: live_slot_def Let_def split: if_splits)
  have "0 < unat h" and "unat h \<le> cap"
    using assms by (auto simp: live_slot_def Let_def unat_gt_0 split: if_splits)
  then show "unat h - 1 < cap" by linarith
qed

lemma live_slot_update:
  assumes "h \<noteq> 0" and "unat h \<le> cap"
  shows "live_slot live cap (t(unat h - 1 := e)) =
      (live_slot live cap t)(h := if live e then Some e else None)"
proof (rule ext)
  fix k
  show "live_slot live cap (t(unat h - 1 := e)) k =
      ((live_slot live cap t)(h := if live e then Some e else None)) k"
  proof (cases "k = h")
    case True
    with assms show ?thesis by (simp add: live_slot_def)
  next
    case False
    then have "k \<noteq> 0 \<Longrightarrow> unat k - 1 \<noteq> unat h - 1"
      using assms(1) handle_index_inj by blast
    with False show ?thesis by (auto simp: live_slot_def Let_def)
  qed
qed

lemmas live_slot_update_Suc [table_simps] = live_slot_update [unfolded One_nat_def]

lemma live_slot_update_at [table_simps]:
  assumes "i < cap" and "cap < 2 ^ 32"
  shows "live_slot live cap (t(i := e)) =
      (live_slot live cap t)(handle_of i := if live e then Some e else None)"
proof -
  from assms have i: "i + 1 < 2 ^ 32" by simp
  have "handle_of i \<noteq> 0" using i by (rule handle_of_nonzero)
  moreover have "unat (handle_of i) \<le> cap" using i assms(1) by simp
  ultimately show ?thesis
    using live_slot_update [of "handle_of i" cap live t e] i by simp
qed

text \<open>
  The interface every object table of the winsys provides: a lookup, a creation that
  hands out a handle or refuses, and a destruction. \<open>invar\<close> is what the provider keeps
  true of its table.
\<close>

locale handle_table =
  fixes invar :: "'t \<Rightarrow> bool"
    and lookup :: "'t \<Rightarrow> u32 \<Rightarrow> 'e option"
    and create :: "'a \<Rightarrow> 't \<Rightarrow> (u32 \<times> 't) option"
    and destroy :: "u32 \<Rightarrow> 't \<Rightarrow> 't option"
    and cap :: nat
  assumes create_ok: "invar t \<Longrightarrow> create a t = Some (h, t') \<Longrightarrow>
      invar t' \<and> lookup t h = None \<and> (\<exists>e. lookup t' = (lookup t)(h \<mapsto> e))"
    and destroy_live: "invar t \<Longrightarrow> lookup t h \<noteq> None \<Longrightarrow>
      \<exists>t'. destroy h t = Some t' \<and> invar t' \<and> lookup t' = (lookup t)(h := None)"
    and destroy_dead: "lookup t h = None \<Longrightarrow> destroy h t = None"
    and lookup_range: "lookup t h \<noteq> None \<Longrightarrow> h \<noteq> 0 \<and> unat h \<le> cap"
begin

text \<open>No more than \<open>cap\<close> handles are live, whatever the history of the table.\<close>

lemma live_bound: "finite (dom (lookup t)) \<and> card (dom (lookup t)) \<le> cap"
proof -
  have sub: "unat ` dom (lookup t) \<subseteq> {1..cap}"
    using lookup_range by (force simp: dom_def unat_gt_0 Suc_le_eq)
  have inj: "inj_on unat (dom (lookup t))"
    by (rule inj_onI) (simp add: word_unat_eq_iff)
  have "finite (unat ` dom (lookup t))"
    using sub by (rule finite_subset) simp
  with inj have fin: "finite (dom (lookup t))"
    by (rule finite_imageD [rotated])
  have "card (dom (lookup t)) = card (unat ` dom (lookup t))"
    using inj by (simp add: card_image)
  also have "\<dots> \<le> card {1..cap}"
    using sub by (intro card_mono) auto
  finally show ?thesis using fin by simp
qed

lemma create_nonzero:
  assumes "invar t" and "create a t = Some (h, t')"
  shows "h \<noteq> 0"
  using create_ok [OF assms] lookup_range [of t' h] by auto

text \<open>A handle that was handed out is live, closes once, and closes only itself.\<close>

lemma create_destroy:
  assumes "invar t" and "create a t = Some (h, t')"
  shows "\<exists>t''. destroy h t' = Some t'' \<and> invar t'' \<and> lookup t'' = lookup t
      \<and> destroy h t'' = None"
proof -
  from create_ok [OF assms] obtain e where inv': "invar t'"
    and fresh: "lookup t h = None" and look': "lookup t' = (lookup t)(h \<mapsto> e)" by blast
  then obtain t'' where d: "destroy h t' = Some t''" "invar t''"
    and look'': "lookup t'' = (lookup t')(h := None)"
    using destroy_live [OF inv', of h] by auto
  have same: "lookup t'' = lookup t"
    using look' look'' fresh by (simp add: fun_upd_idem)
  then have "destroy h t'' = None" using fresh by (simp add: destroy_dead)
  with d same show ?thesis by blast
qed

text \<open>Two creations in a row never give the same handle.\<close>

lemma create_twice_distinct:
  assumes "invar t" and "create a t = Some (h, t1)" and "create b t1 = Some (k, t2)"
  shows "h \<noteq> k" and "lookup t2 h \<noteq> None" and "lookup t2 k \<noteq> None"
proof -
  from create_ok [OF assms(1,2)] obtain e where i1: "invar t1"
    and l1: "lookup t1 = (lookup t)(h \<mapsto> e)" by blast
  from create_ok [OF i1 assms(3)] obtain e' where k: "lookup t1 k = None"
    and l2: "lookup t2 = (lookup t1)(k \<mapsto> e')" by blast
  show "h \<noteq> k" using k l1 by auto
  then show "lookup t2 h \<noteq> None" using l1 l2 by simp
  show "lookup t2 k \<noteq> None" using l2 by simp
qed

end

section \<open>Machines whose steps keep an invariant\<close>

text \<open>
  A component is driven by a sequence of operations. \<open>step s op = None\<close> would be an
  operation that never returns; the contract is that, from a state with the invariant and
  under the operation's precondition, it returns and the invariant holds again.
\<close>

fun run_ops :: "('s \<Rightarrow> 'o \<Rightarrow> 's option) \<Rightarrow> 's \<Rightarrow> 'o list \<Rightarrow> 's option" where
  "run_ops step s [] = Some s"
| "run_ops step s (x # xs) = (case step s x of None \<Rightarrow> None | Some s' \<Rightarrow> run_ops step s' xs)"

fun ops_allowed :: "('s \<Rightarrow> 'o \<Rightarrow> 's option) \<Rightarrow> ('s \<Rightarrow> 'o \<Rightarrow> bool) \<Rightarrow> 's \<Rightarrow> 'o list \<Rightarrow> bool" where
  "ops_allowed step pre s [] = True"
| "ops_allowed step pre s (x # xs) =
     (pre s x \<and> (case step s x of None \<Rightarrow> True | Some s' \<Rightarrow> ops_allowed step pre s' xs))"

text \<open>
  The states a step relation reaches from a start state, for components whose threads interleave.
\<close>

locale transition_system =
  fixes moves :: "'s \<Rightarrow> 's \<Rightarrow> bool"
    and start :: "'s \<Rightarrow> bool"
    and inv :: "'s \<Rightarrow> bool"
  assumes start_inv: "start s \<Longrightarrow> inv s"
    and moves_inv: "moves s s' \<Longrightarrow> inv s \<Longrightarrow> inv s'"
begin

lemma reachable_inv:
  assumes "start s" and "moves\<^sup>*\<^sup>* s s'"
  shows "inv s'"
  using assms(2) by (induction rule: rtranclp_induct) (auto intro: start_inv assms(1) moves_inv)

end

locale invariant_machine =
  fixes step :: "'s \<Rightarrow> 'o \<Rightarrow> 's option"
    and pre :: "'s \<Rightarrow> 'o \<Rightarrow> bool"
    and inv :: "'s \<Rightarrow> bool"
  assumes step_inv: "inv s \<Longrightarrow> pre s x \<Longrightarrow> \<exists>s'. step s x = Some s' \<and> inv s'"
begin

lemma run_inv:
  "inv s \<Longrightarrow> ops_allowed step pre s xs \<Longrightarrow> \<exists>s'. run_ops step s xs = Some s' \<and> inv s'"
proof (induction xs arbitrary: s)
  case Nil
  then show ?case by simp
next
  case (Cons x xs)
  from Cons.prems obtain s1 where s1: "step s x = Some s1" "inv s1"
    using step_inv by fastforce
  with Cons.prems have "ops_allowed step pre s1 xs" by simp
  with s1 Cons.IH [of s1] show ?case by simp
qed

end

text \<open>A machine is a transition system whose moves are the permitted operations.\<close>

sublocale invariant_machine \<subseteq> permitted: transition_system "\<lambda>s s'. \<exists>x. pre s x \<and> step s x = Some s'" inv inv
proof unfold_locales
  fix s s'
  assume "\<exists>x. pre s x \<and> step s x = Some s'" and i: "inv s"
  then obtain x where "pre s x" "step s x = Some s'" by blast
  then show "inv s'" using step_inv [OF i] by fastforce
qed

end
