(* ===== verification/Memory.thy ===== *)
theory Memory
  imports Prelude
begin

text \<open>
  The platform's direct-memory calls, as the winsys sees them. The calls themselves
  (\<open>oops_mem_alloc_direct\<close>, \<open>oops_mem_free_direct\<close>, \<open>oops_mem_map_direct\<close>,
  \<open>oops_mem_batch_map\<close>, \<open>oops_mem_unmap\<close>) belong to oops-sdk and are parameters: a
  \<open>mem_platform\<close> answers each call as a function of the calls made before it. What the
  winsys asked for is kept as a history, newest call first, and the two readings of a
  history are defined here: which allocations are outstanding (\<open>ledger\<close>) and what every
  address of the shared CPU/GPU address space translates to (\<open>xlate\<close>).
\<close>

section \<open>Calls and their history\<close>

text \<open>Protections are sets of the four \<open>OOPS_PROT_*\<close> bits; the empty set is the zero word.\<close>

datatype perm = GPU_READ | GPU_WRITE | CPU_READ | CPU_WRITE

type_synonym prot = "perm set"

datatype mem_call =
    AllocDirect u64 u64 "int option"
  | FreeDirect int u64
  | MapDirect u64 int "u64 option"
  | BatchMap u64 int u64 prot bool
  | Unmap u64 u64

record mem_platform =
  mem_alloc_direct :: "mem_call list \<Rightarrow> u64 \<Rightarrow> u64 \<Rightarrow> int option"
  mem_map_direct :: "mem_call list \<Rightarrow> u64 \<Rightarrow> int \<Rightarrow> u64 option"
  mem_batch_map :: "mem_call list \<Rightarrow> u64 \<Rightarrow> int \<Rightarrow> u64 \<Rightarrow> prot \<Rightarrow> bool"

text \<open>The outstanding allocations: physical offset to size.\<close>

fun ledger :: "mem_call list \<Rightarrow> int \<Rightarrow> u64 option" where
  "ledger [] = Map.empty"
| "ledger (AllocDirect sz al r # cs) =
     (case r of None \<Rightarrow> ledger cs | Some p \<Rightarrow> (ledger cs)(p \<mapsto> sz))"
| "ledger (FreeDirect p sz # cs) = (ledger cs)(p := None)"
| "ledger (MapDirect sz p r # cs) = ledger cs"
| "ledger (BatchMap va p sz pr ok # cs) = ledger cs"
| "ledger (Unmap va sz # cs) = ledger cs"

text \<open>Every release names an outstanding allocation, with the size it was made with.\<close>

fun frees_ok :: "mem_call list \<Rightarrow> bool" where
  "frees_ok [] = True"
| "frees_ok (c # cs) =
     ((case c of FreeDirect p sz \<Rightarrow> ledger cs p = Some sz | _ \<Rightarrow> True) \<and> frees_ok cs)"

definition in_range :: "u64 \<Rightarrow> u64 \<Rightarrow> nat \<Rightarrow> bool" where
  "in_range va sz a \<longleftrightarrow> unat va \<le> a \<and> a < unat va + unat sz"

text \<open>
  The physical byte behind each address. A refused map changes nothing; a map replaces what
  was there; an unmap removes every translation of its range.
\<close>

fun xlate :: "mem_call list \<Rightarrow> nat \<Rightarrow> int option" where
  "xlate [] a = None"
| "xlate (AllocDirect sz al r # cs) a = xlate cs a"
| "xlate (FreeDirect p sz # cs) a = xlate cs a"
| "xlate (MapDirect sz p r # cs) a =
     (case r of None \<Rightarrow> xlate cs a
      | Some v \<Rightarrow> if in_range v sz a then Some (p + int (a - unat v)) else xlate cs a)"
| "xlate (BatchMap va p sz pr ok # cs) a =
     (if ok \<and> in_range va sz a then Some (p + int (a - unat va)) else xlate cs a)"
| "xlate (Unmap va sz # cs) a = (if in_range va sz a then None else xlate cs a)"

text \<open>
  What the winsys relies on. An allocation lies below the top of the platform's signed
  64-bit physical offsets and is disjoint from every outstanding one; a CPU mapping is placed at a non-null address range where nothing is mapped yet.
\<close>

definition platform_ok :: "mem_platform \<Rightarrow> bool" where
  "platform_ok P \<longleftrightarrow>
     (\<forall>cs sz al p. mem_alloc_direct P cs sz al = Some p \<longrightarrow>
        0 \<le> p \<and> p + uint sz < 2 ^ 63 \<and> ledger cs p = None \<and>
        (\<forall>q n. ledger cs q = Some n \<longrightarrow> p + uint sz \<le> q \<or> q + uint n \<le> p)) \<and>
     (\<forall>cs sz p v. mem_map_direct P cs sz p = Some v \<longrightarrow> v \<noteq> 0 \<and> unat v + unat sz < 2 ^ 64 \<and>
        (\<forall>a. in_range v sz a \<longrightarrow> xlate cs a = None))"

lemma platform_alloc:
  assumes "platform_ok P" and "mem_alloc_direct P cs sz al = Some p"
  shows "ledger cs p = None"
    and "ledger cs q = Some n \<Longrightarrow> p + uint sz \<le> q \<or> q + uint n \<le> p"
    and "unat sz < 2 ^ 63"
proof -
  show "ledger cs p = None" and "ledger cs q = Some n \<Longrightarrow> p + uint sz \<le> q \<or> q + uint n \<le> p"
    using assms by (auto simp: platform_ok_def)
  have "0 \<le> p" "p + uint sz < 2 ^ 63" using assms by (auto simp: platform_ok_def)
  then have "uint sz < 2 ^ 63" by linarith
  then have "nat (uint sz) < 2 ^ 63" by (subst nat_less_iff) simp_all
  then show "unat sz < 2 ^ 63" by (simp only: unat_eq_nat_uint)
qed

lemma platform_map:
  assumes "platform_ok P" and "mem_map_direct P cs sz p = Some v"
  shows "v \<noteq> 0" and "unat v + unat sz < 2 ^ 64"
    and "in_range v sz a \<Longrightarrow> xlate cs a = None"
  using assms by (auto simp: platform_ok_def)

section \<open>Segments\<close>

text \<open>
  A segment is a mapped range: its address, its length in bytes and the physical offset of
  its first byte. A family of segments describes an address space when no two of them
  overlap, none of them reaches the end of the 64-bit address space, and together they are
  exactly its translations.
\<close>

type_synonym seg = "nat \<times> nat \<times> int"

definition apart :: "seg \<Rightarrow> seg \<Rightarrow> bool" where
  "apart = (\<lambda>(v, l, p) (v', l', p'). v + l \<le> v' \<or> v' + l' \<le> v)"

fun covers :: "seg \<Rightarrow> nat \<Rightarrow> int \<Rightarrow> bool" where
  "covers (v, l, p) a b \<longleftrightarrow> v \<le> a \<and> a < v + l \<and> b = p + int (a - v)"

definition space_ok :: "mem_call list \<Rightarrow> ('x \<Rightarrow> seg option) \<Rightarrow> bool" where
  "space_ok cs F \<longleftrightarrow>
     (\<forall>x y g h. x \<noteq> y \<longrightarrow> F x = Some g \<longrightarrow> F y = Some h \<longrightarrow> apart g h) \<and>
     (\<forall>x v l p. F x = Some (v, l, p) \<longrightarrow> v + l < 2 ^ 64) \<and>
     (\<forall>a b. xlate cs a = Some b \<longleftrightarrow> (\<exists>x g. F x = Some g \<and> covers g a b))"

lemma space_okD:
  assumes "space_ok cs F"
  shows "x \<noteq> y \<Longrightarrow> F x = Some g \<Longrightarrow> F y = Some h \<Longrightarrow> apart g h"
    and "xlate cs a = Some b \<longleftrightarrow> (\<exists>x g. F x = Some g \<and> covers g a b)"
    and "F x = Some (v, l, p) \<Longrightarrow> v + l < 2 ^ 64"
  using assms unfolding space_ok_def by blast+

lemma apart_sym: "apart g h \<longleftrightarrow> apart h g"
  by (cases g; cases h) (auto simp: apart_def)

lemma apart_covers: "apart g h \<Longrightarrow> covers g a b \<Longrightarrow> covers h a c \<Longrightarrow> False"
  by (cases g; cases h) (auto simp: apart_def)

lemma space_ok_same_xlate:
  "space_ok cs F \<Longrightarrow> (\<And>a. xlate cs' a = xlate cs a) \<Longrightarrow> space_ok cs' F"
  by (simp add: space_ok_def)

lemma space_ok_empty: "space_ok [] (\<lambda>_. None)"
  by (simp add: space_ok_def)

text \<open>Removing a segment by unmapping exactly its range.\<close>

lemma space_unmap:
  assumes ok: "space_ok cs F" and seg: "F x = Some (unat v, unat n, p)"
  shows "space_ok (Unmap v n # cs) (F(x := None))"
proof -
  have "xlate (Unmap v n # cs) a = Some b \<longleftrightarrow> (\<exists>y g. (F(x := None)) y = Some g \<and> covers g a b)"
    for a b
  proof (cases "in_range v n a")
    case True
    then have "covers (unat v, unat n, p) a (p + int (a - unat v))"
      by (simp add: in_range_def)
    then have "\<not> (\<exists>y g. (F(x := None)) y = Some g \<and> covers g a b)"
      using seg space_okD(1) [OF ok] apart_covers by (metis fun_upd_def option.distinct(1))
    with True show ?thesis by simp
  next
    case False
    then have "\<not> covers (unat v, unat n, p) a b" by (auto simp: in_range_def)
    then have "(\<exists>y g. (F(x := None)) y = Some g \<and> covers g a b)
        \<longleftrightarrow> (\<exists>y g. F y = Some g \<and> covers g a b)"
      using seg by (metis fun_upd_def option.distinct(1) option.inject)
    with False show ?thesis by (simp add: space_okD(2) [OF ok])
  qed
  with ok show ?thesis unfolding space_ok_def by (auto split: if_splits)
qed

text \<open>Adding a segment that overlaps none of the others by mapping its range.\<close>

lemma space_add:
  assumes ok: "space_ok cs F" and new: "F x = None" and fits: "unat v + unat n < 2 ^ 64"
    and free: "\<And>y g. F y = Some g \<Longrightarrow> apart (unat v, unat n, p) g"
    and xl: "\<And>a. xlate cs' a = (if in_range v n a then Some (p + int (a - unat v)) else xlate cs a)"
  shows "space_ok cs' (F(x := Some (unat v, unat n, p)))"
proof -
  let ?g = "(unat v, unat n, p)"
  have "xlate cs' a = Some b \<longleftrightarrow> (\<exists>y g. (F(x := Some ?g)) y = Some g \<and> covers g a b)" for a b
  proof (cases "in_range v n a")
    case True
    then have c: "covers ?g a (p + int (a - unat v))" by (simp add: in_range_def)
    have "(\<exists>y g. (F(x := Some ?g)) y = Some g \<and> covers g a b) \<longleftrightarrow> covers ?g a b"
      using free c apart_covers by (metis fun_upd_apply option.inject)
    with True show ?thesis by (auto simp: xl in_range_def)
  next
    case False
    then have "\<not> covers ?g a b" by (auto simp: in_range_def)
    then have "(\<exists>y g. (F(x := Some ?g)) y = Some g \<and> covers g a b)
        \<longleftrightarrow> (\<exists>y g. F y = Some g \<and> covers g a b)"
      using new by (metis fun_upd_apply option.distinct(1) option.inject)
    with False show ?thesis by (simp add: xl space_okD(2) [OF ok])
  qed
  moreover have "apart g h"
    if "y \<noteq> z" "(F(x := Some ?g)) y = Some g" "(F(x := Some ?g)) z = Some h" for y z g h
    using that free space_okD(1) [OF ok] apart_sym by (metis fun_upd_apply option.inject)
  moreover have "w + l < 2 ^ 64" if "(F(x := Some ?g)) y = Some (w, l, q)" for y w l q
    using that fits space_okD(3) [OF ok, of y w l q] by (auto split: if_splits)
  ultimately show ?thesis unfolding space_ok_def by blast
qed

text \<open>Handing a segment from one holder to another changes no translation.\<close>

lemma space_move:
  assumes ok: "space_ok cs F" and "F y = None" and "x \<noteq> y"
  shows "space_ok cs (F(x := None, y := F x))"
proof -
  let ?G = "F(x := None, y := F x)"
  have fwd: "\<exists>z'. F z' = Some g \<and> (z' = (if z = y then x else z))" if "?G z = Some g" for z g
    using that assms(2,3) by (auto split: if_splits)
  have bwd: "\<exists>z. ?G z = Some g" if "F z' = Some g" for z' g
    using that assms(2,3) by (metis fun_upd_apply option.distinct(1))
  have "apart g h" if "z \<noteq> w" "?G z = Some g" "?G w = Some h" for z w g h
    using that assms(2,3) space_okD(1) [OF ok, of x w g h] space_okD(1) [OF ok, of z x g h]
      space_okD(1) [OF ok, of z w g h]
    by (auto split: if_splits)
  moreover have "xlate cs a = Some b \<longleftrightarrow> (\<exists>z g. ?G z = Some g \<and> covers g a b)" for a b
    unfolding space_okD(2) [OF ok] using fwd bwd by blast
  moreover have "v + l < 2 ^ 64" if "?G z = Some (v, l, p)" for z v l p
    using fwd [OF that] space_okD(3) [OF ok] by blast
  ultimately show ?thesis unfolding space_ok_def by blast
qed

section \<open>Ownership\<close>

text \<open>
  A family of owners accounts for the outstanding allocations when every allocation has
  exactly one owner, every segment maps the whole of one outstanding allocation, distinct
  allocations share no byte, and every release so far was of an outstanding allocation.
\<close>

definition owned_ok :: "mem_call list \<Rightarrow> ('x \<Rightarrow> seg option) \<Rightarrow> ('y \<Rightarrow> (int \<times> u64) option) \<Rightarrow> bool" where
  "owned_ok cs F W \<longleftrightarrow>
     (\<forall>p n. ledger cs p = Some n \<longleftrightarrow> (\<exists>x. W x = Some (p, n))) \<and>
     (\<forall>x y p n m. W x = Some (p, n) \<longrightarrow> W y = Some (p, m) \<longrightarrow> x = y) \<and>
     (\<forall>x v l p. F x = Some (v, l, p) \<longrightarrow> (\<exists>n. ledger cs p = Some n \<and> unat n = l)) \<and>
     (\<forall>p n. ledger cs p = Some n \<longrightarrow> n \<noteq> 0) \<and>
     (\<forall>p n q m. ledger cs p = Some n \<longrightarrow> ledger cs q = Some m \<longrightarrow> p \<noteq> q \<longrightarrow>
        p + uint n \<le> q \<or> q + uint m \<le> p) \<and>
     frees_ok cs"

lemma owned_okD:
  assumes "owned_ok cs F W"
  shows "ledger cs p = Some n \<longleftrightarrow> (\<exists>x. W x = Some (p, n))"
    and "W x = Some (p, n) \<Longrightarrow> W y = Some (p, m) \<Longrightarrow> x = y"
    and "F z = Some (v, l, p) \<Longrightarrow> \<exists>n. ledger cs p = Some n \<and> unat n = l"
    and "ledger cs p = Some n \<Longrightarrow> n \<noteq> 0"
    and "ledger cs p = Some n \<Longrightarrow> ledger cs q = Some m \<Longrightarrow> p \<noteq> q \<Longrightarrow>
      p + uint n \<le> q \<or> q + uint m \<le> p"
    and "frees_ok cs"
  using assms unfolding owned_ok_def by blast+

lemma owned_okI:
  assumes "\<And>p n. ledger cs p = Some n \<longleftrightarrow> (\<exists>x. W x = Some (p, n))"
    and "\<And>x y p n m. W x = Some (p, n) \<Longrightarrow> W y = Some (p, m) \<Longrightarrow> x = y"
    and "\<And>x v l p. F x = Some (v, l, p) \<Longrightarrow> \<exists>n. ledger cs p = Some n \<and> unat n = l"
    and "\<And>p n. ledger cs p = Some n \<Longrightarrow> n \<noteq> 0"
    and "\<And>p n q m. ledger cs p = Some n \<Longrightarrow> ledger cs q = Some m \<Longrightarrow> p \<noteq> q \<Longrightarrow>
      p + uint n \<le> q \<or> q + uint m \<le> p"
    and "frees_ok cs"
  shows "owned_ok cs F W"
  unfolding owned_ok_def using assms by blast

lemma owned_ok_empty: "owned_ok [] (\<lambda>_. None) (\<lambda>_. None)"
  by (simp add: owned_ok_def)

lemma owned_ok_same_ledger:
  assumes "owned_ok cs F W" and "ledger cs' = ledger cs" and "frees_ok cs'"
  shows "owned_ok cs' F W"
  by (rule owned_okI) (use assms(2,3) owned_okD [OF assms(1)] in \<open>metis+\<close>)

lemma owned_segments:
  assumes "owned_ok cs F W"
    and "\<And>x v l p. G x = Some (v, l, p) \<Longrightarrow> \<exists>n. ledger cs p = Some n \<and> unat n = l"
  shows "owned_ok cs G W"
  using assms unfolding owned_ok_def by blast

lemma owned_fewer_segments:
  assumes "owned_ok cs F W" and "\<And>x g. G x = Some g \<Longrightarrow> \<exists>y. F y = Some g"
  shows "owned_ok cs G W"
  using assms(1) by (rule owned_segments) (metis assms(2) owned_okD(3) [OF assms(1)])

lemma owned_segment_del: "owned_ok cs F W \<Longrightarrow> owned_ok cs (F(x := None)) W"
  by (erule owned_fewer_segments) (metis fun_upd_apply option.distinct(1))

lemma owned_segment_move: "owned_ok cs F W \<Longrightarrow> owned_ok cs (F(x := None, y := F x)) W"
  by (erule owned_fewer_segments) (metis fun_upd_apply option.distinct(1))

lemma owned_alloc:
  assumes ok: "owned_ok cs F W" and new: "W x = None" and n: "n \<noteq> 0"
    and fresh: "ledger cs p = None"
    and apart: "\<And>q m. ledger cs q = Some m \<Longrightarrow> p + uint n \<le> q \<or> q + uint m \<le> p"
  shows "owned_ok (AllocDirect n al (Some p) # cs) F (W(x \<mapsto> (p, n)))"
proof (rule owned_okI, goal_cases)
  case (1 q m)
  have "W y \<noteq> Some (p, k)" for y k
    using owned_okD(1) [OF ok, of p k] fresh by force
  then have "(\<exists>y. (W(x \<mapsto> (p, n))) y = Some (q, m)) \<longleftrightarrow>
      (if q = p then m = n else \<exists>y. W y = Some (q, m))"
    using new by (auto split: if_splits) (metis option.distinct(1))
  then show ?case using owned_okD(1) [OF ok, of q m] by auto
next
  case (2 y z q m k)
  have "W w \<noteq> Some (p, k)" for w k
    using owned_okD(1) [OF ok, of p k] fresh by force
  with 2 owned_okD(2) [OF ok] show ?case by (auto split: if_splits)
next
  case (3 y v l q)
  then show ?case using owned_okD(3) [OF ok 3] fresh by auto
next
  case (4 q m)
  then show ?case using n owned_okD(4) [OF ok] by (auto split: if_splits)
next
  case (5 q m r k)
  then show ?case
    using apart [of q m] apart [of r k] owned_okD(5) [OF ok, of q m r k]
    by (auto split: if_splits)
next
  case 6
  then show ?case using owned_okD(6) [OF ok] by simp
qed

lemma owned_free:
  assumes ok: "owned_ok cs F W" and own: "W x = Some (p, n)"
    and unmapped: "\<And>y v l. F y \<noteq> Some (v, l, p)"
  shows "owned_ok (FreeDirect p n # cs) F (W(x := None))"
proof (rule owned_okI, goal_cases)
  case (1 q m)
  have "(\<exists>y. (W(x := None)) y = Some (q, m)) \<longleftrightarrow> q \<noteq> p \<and> (\<exists>y. W y = Some (q, m))"
    using own owned_okD(2) [OF ok own] by (metis Pair_inject fun_upd_apply option.distinct(1) option.inject)
  then show ?case using owned_okD(1) [OF ok, of q m] by auto
next
  case (2 y z q m k)
  then show ?case using owned_okD(2) [OF ok] by (auto split: if_splits)
next
  case (3 y v l q)
  then show ?case using owned_okD(3) [OF ok 3] unmapped by auto
next
  case (4 q m)
  then show ?case using owned_okD(4) [OF ok] by (auto split: if_splits)
next
  case (5 q m r k)
  then show ?case using owned_okD(5) [OF ok, of q m r k] by (auto split: if_splits)
next
  case 6
  have "ledger cs p = Some n" using owned_okD(1) [OF ok] own by blast
  then show ?case using owned_okD(6) [OF ok] by simp
qed

lemma owned_move:
  assumes ok: "owned_ok cs F W" and own: "W x = Some (p, n)" and "W y = None" and "x \<noteq> y"
  shows "owned_ok cs F (W(x := None, y \<mapsto> (p, n)))"
proof (rule owned_okI, goal_cases)
  case (1 q m)
  have "(\<exists>z. (W(x := None, y \<mapsto> (p, n))) z = Some (q, m)) \<longleftrightarrow> (\<exists>z. W z = Some (q, m))"
  proof
    assume "\<exists>z. W z = Some (q, m)"
    then obtain z where z: "W z = Some (q, m)" by blast
    then have "(W(x := None, y \<mapsto> (p, n))) (if z = x then y else z) = Some (q, m)"
      using assms(2,3,4) by auto
    then show "\<exists>z. (W(x := None, y \<mapsto> (p, n))) z = Some (q, m)" by blast
  qed (use assms(2) in \<open>auto split: if_splits\<close>)
  then show ?case using owned_okD(1) [OF ok, of q m] by simp
next
  case (2 z w q m k)
  then have "W (if z = y then x else z) = Some (q, m)" "W (if w = y then x else w) = Some (q, k)"
    using own by (auto split: if_splits)
  then have "(if z = y then x else z) = (if w = y then x else w)"
    using owned_okD(2) [OF ok] by blast
  moreover have "z \<noteq> x" "w \<noteq> x" using 2 assms(4) by (auto split: if_splits)
  ultimately show ?case by (auto split: if_splits)
qed (use owned_okD [OF ok] in blast)+

text \<open>
  The consequences that matter to a GPU: an address never reaches memory that was given
  back, and two owners never hold the same byte.
\<close>

lemma no_dangling_translation:
  assumes "space_ok cs F" and "owned_ok cs F W" and "xlate cs a = Some b"
  shows "\<exists>p n. ledger cs p = Some n \<and> p \<le> b \<and> b < p + uint n"
proof -
  from assms(1,3) obtain x g where "F x = Some g" and "covers g a b"
    using space_okD(2) [OF assms(1)] by blast
  then obtain v l p where F: "F x = Some (v, l, p)" and c: "v \<le> a" "a < v + l" "b = p + int (a - v)"
    by (cases g) auto
  from owned_okD(3) [OF assms(2) F] obtain n where n: "ledger cs p = Some n" "unat n = l" by blast
  then have "a - v < unat n" using c by linarith
  then have "int (a - v) < uint n" by (metis of_nat_less_iff uint_nat)
  then have "p \<le> b \<and> b < p + uint n" using c(3) by linarith
  with n(1) show ?thesis by blast
qed

end
