(* ===== verification/Buffers.thy ===== *)
theory Buffers
  imports Memory
begin

text \<open>
  Buffer objects and the retained address ranges, \<open>src/src/winsys/buffers.c\<close>. The two
  static tables are functions of the slot index, each read below its bound only. The
  flag words the code tests bit by bit are sets of the named bits, and the operation codes
  of the kernel interface are datatypes with a constructor for every other number, because
  their numeric values are in headers outside this repository. A pointer is a 64-bit
  address and 0 is NULL. A loop that could run forever is a \<open>partial_function\<close> into
  \<open>option\<close>, so \<open>None\<close> means that the call does not return. Log lines are left out, except
  the address-collision report, which is data a later fault is explained with.
\<close>

unbundle bit_operations_syntax

section \<open>State\<close>

definition OOPS_WINSYS_PAGE :: u64 where
  "OOPS_WINSYS_PAGE = 0x4000"

definition OOPS_WINSYS_MAX_BO :: nat where
  "OOPS_WINSYS_MAX_BO = 4096"

definition OOPS_WINSYS_MAX_RETAINED :: nat where
  "OOPS_WINSYS_MAX_RETAINED = 512"

definition OOPS_WINSYS_RETAINED_BYTES :: u64 where
  "OOPS_WINSYS_RETAINED_BYTES = 0x10000000"

record oops_winsys_bo =
  bo_live :: bool
  bo_size :: u64
  bo_alignment :: u64
  bo_domain_flags :: u64
  bo_phys :: int
  bo_gpu_va :: u64
  bo_cpu_ptr :: u64
  bo_domain :: u32
  bo_gpu_prot :: prot

definition bo_zero :: oops_winsys_bo where
  "bo_zero = \<lparr>bo_live = False, bo_size = 0, bo_alignment = 0, bo_domain_flags = 0, bo_phys = 0,
     bo_gpu_va = 0, bo_cpu_ptr = 0, bo_domain = 0, bo_gpu_prot = {}\<rparr>"

record retained_range =
  rr_used :: bool
  rr_owns_phys :: bool
  rr_prot :: prot
  rr_va :: u64
  rr_size :: u64
  rr_phys :: int
  rr_seq :: u64

definition retained_zero :: retained_range where
  "retained_zero = \<lparr>rr_used = False, rr_owns_phys = False, rr_prot = {}, rr_va = 0, rr_size = 0,
     rr_phys = 0, rr_seq = 0\<rparr>"

text \<open>
  \<open>mem_calls\<close> is the history of platform calls; \<open>s_collisions\<close> the reported collisions, as
  pairs of the mapped buffer's handle and the handle of the live buffer it overlaps.
\<close>

record buffers =
  s_bo :: "nat \<Rightarrow> oops_winsys_bo"
  s_retained :: "nat \<Rightarrow> retained_range"
  s_retained_seq :: u64
  s_retained_bytes :: u64
  mem_calls :: "mem_call list"
  s_collisions :: "(u32 \<times> u32) list"

definition buffers_init :: buffers where
  "buffers_init = \<lparr>s_bo = (\<lambda>_. bo_zero), s_retained = (\<lambda>_. retained_zero), s_retained_seq = 0,
     s_retained_bytes = 0, mem_calls = [], s_collisions = []\<rparr>"

definition mem_note :: "mem_call \<Rightarrow> buffers \<Rightarrow> buffers" where
  "mem_note c s = s\<lparr>mem_calls := c # mem_calls s\<rparr>"

definition set_bo :: "nat \<Rightarrow> oops_winsys_bo \<Rightarrow> buffers \<Rightarrow> buffers" where
  "set_bo i b s = s\<lparr>s_bo := (s_bo s)(i := b)\<rparr>"

definition set_retained :: "nat \<Rightarrow> retained_range \<Rightarrow> buffers \<Rightarrow> buffers" where
  "set_retained i r s = s\<lparr>s_retained := (s_retained s)(i := r)\<rparr>"

section \<open>Queries on the buffer table\<close>

text \<open>The slot a handle names, if it is in range and live; \<open>bo_of\<close> is the entry there.\<close>

definition bo_index :: "buffers \<Rightarrow> u32 \<Rightarrow> nat option" where
  "bo_index s handle =
     (if handle = 0 \<or> OOPS_WINSYS_MAX_BO < unat handle then None
      else if bo_live (s_bo s (unat handle - 1)) then Some (unat handle - 1) else None)"

definition bo_of :: "buffers \<Rightarrow> u32 \<Rightarrow> oops_winsys_bo option" where
  "bo_of s handle = map_option (s_bo s) (bo_index s handle)"

definition oops_winsys_bo_is_live :: "buffers \<Rightarrow> u32 \<Rightarrow> bool" where
  "oops_winsys_bo_is_live s handle \<longleftrightarrow> bo_of s handle \<noteq> None"

definition oops_winsys_bo_size :: "buffers \<Rightarrow> u32 \<Rightarrow> u64" where
  "oops_winsys_bo_size s handle = (case bo_of s handle of Some bo \<Rightarrow> bo_size bo | None \<Rightarrow> 0)"

definition oops_winsys_bo_gpu_va :: "buffers \<Rightarrow> u32 \<Rightarrow> u64" where
  "oops_winsys_bo_gpu_va s handle = (case bo_of s handle of Some bo \<Rightarrow> bo_gpu_va bo | None \<Rightarrow> 0)"

definition oops_winsys_bo_bytes_live :: "buffers \<Rightarrow> u64" where
  "oops_winsys_bo_bytes_live s =
     (\<Sum>i\<leftarrow>[0..<OOPS_WINSYS_MAX_BO]. if bo_live (s_bo s i) then bo_size (s_bo s i) else 0)"

text \<open>The addresses flushed: every 64th byte of every live, CPU-mapped buffer.\<close>

definition flush_lines :: "oops_winsys_bo \<Rightarrow> u64 list" where
  "flush_lines b = map (\<lambda>k. bo_cpu_ptr b + 64 * of_nat k) [0..<(unat (bo_size b) + 63) div 64]"

definition oops_winsys_flush_cpu_writes :: "buffers \<Rightarrow> u64 list" where
  "oops_winsys_flush_cpu_writes s =
     concat (map (\<lambda>i. let bo = s_bo s i in
               if \<not> bo_live bo \<or> bo_cpu_ptr bo = 0 then [] else flush_lines bo)
       [0..<OOPS_WINSYS_MAX_BO])"

definition round_up_page :: "u64 \<Rightarrow> u64" where
  "round_up_page n = (n + OOPS_WINSYS_PAGE - 1) AND NOT (OOPS_WINSYS_PAGE - 1)"

section \<open>Retained ranges\<close>

definition retained_drop :: "nat \<Rightarrow> buffers \<Rightarrow> buffers" where
  "retained_drop i s =
     set_retained i retained_zero
       (s\<lparr>s_retained_bytes := s_retained_bytes s - rr_size (s_retained s i)\<rparr>)"

definition retained_release :: "nat \<Rightarrow> buffers \<Rightarrow> buffers" where
  "retained_release i s =
     (let r = s_retained s i;
          s1 = mem_note (Unmap (rr_va r) (rr_size r)) s;
          s2 = (if rr_owns_phys r
                then case first_index
                         (\<lambda>k. k \<noteq> i \<and> rr_used (s_retained s k) \<and> rr_phys (s_retained s k) = rr_phys r)
                         OOPS_WINSYS_MAX_RETAINED of
                       Some k \<Rightarrow> set_retained k ((s_retained s k)\<lparr>rr_owns_phys := True\<rparr>) s1
                     | None \<Rightarrow> mem_note (FreeDirect (rr_phys r) (rr_size r)) s1
                else s1)
      in retained_drop i s2)"

text \<open>The used range with the least sequence number; the first of equals.\<close>

fun oldest_upto :: "(nat \<Rightarrow> retained_range) \<Rightarrow> nat \<Rightarrow> nat option" where
  "oldest_upto t 0 = None"
| "oldest_upto t (Suc i) =
     (case oldest_upto t i of
        None \<Rightarrow> if rr_used (t i) then Some i else None
      | Some j \<Rightarrow> if rr_used (t i) \<and> rr_seq (t i) < rr_seq (t j) then Some i else Some j)"

definition retained_release_oldest :: "buffers \<Rightarrow> buffers" where
  "retained_release_oldest s =
     (case oldest_upto (s_retained s) OOPS_WINSYS_MAX_RETAINED of
        None \<Rightarrow> s | Some i \<Rightarrow> retained_release i s)"

partial_function (option) retain_make_room :: "u64 \<Rightarrow> buffers \<Rightarrow> buffers option" where
  "retain_make_room sz s =
     (if s_retained_bytes s + sz > OOPS_WINSYS_RETAINED_BYTES \<and> s_retained_bytes s > 0
      then retain_make_room sz (retained_release_oldest s) else Some s)"

partial_function (option) retain_find_slot :: "buffers \<Rightarrow> (nat \<times> buffers) option" where
  "retain_find_slot s =
     (case first_index (\<lambda>i. \<not> rr_used (s_retained s i)) OOPS_WINSYS_MAX_RETAINED of
        Some i \<Rightarrow> Some (i, s)
      | None \<Rightarrow> retain_find_slot (retained_release_oldest s))"

definition retain_store ::
    "nat \<Rightarrow> u64 \<Rightarrow> u64 \<Rightarrow> int \<Rightarrow> prot \<Rightarrow> bool \<Rightarrow> buffers \<Rightarrow> buffers" where
  "retain_store i va sz phys prot owns_phys s =
     (let seq = s_retained_seq s + 1 in
      set_retained i \<lparr>rr_used = True, rr_owns_phys = owns_phys, rr_prot = prot, rr_va = va,
          rr_size = sz, rr_phys = phys, rr_seq = seq\<rparr>
        (s\<lparr>s_retained_seq := seq, s_retained_bytes := s_retained_bytes s + sz\<rparr>))"

definition retain :: "u64 \<Rightarrow> u64 \<Rightarrow> int \<Rightarrow> prot \<Rightarrow> bool \<Rightarrow> buffers \<Rightarrow> buffers option" where
  "retain va sz phys prot owns_phys s =
     (case retain_make_room sz s of
        None \<Rightarrow> None
      | Some s1 \<Rightarrow>
          (case retain_find_slot s1 of
             None \<Rightarrow> None
           | Some (i, s2) \<Rightarrow> Some (retain_store i va sz phys prot owns_phys s2)))"

definition retained_adopt_pages :: "int \<Rightarrow> buffers \<Rightarrow> bool \<times> buffers" where
  "retained_adopt_pages phys s =
     (case first_index (\<lambda>i. rr_used (s_retained s i) \<and> rr_phys (s_retained s i) = phys)
             OOPS_WINSYS_MAX_RETAINED of
        Some i \<Rightarrow> (True, set_retained i ((s_retained s i)\<lparr>rr_owns_phys := True\<rparr>) s)
      | None \<Rightarrow> (False, s))"

definition oops_winsys_retained_bytes :: "buffers \<Rightarrow> u64" where
  "oops_winsys_retained_bytes s = s_retained_bytes s"

section \<open>Creating and closing a buffer\<close>

record gem_create_in =
  gc_bo_size :: u64
  gc_alignment :: u64
  gc_domains :: u64
  gc_domain_flags :: u64

text \<open>The result is the return code and the handle written to the output half of the union.\<close>

definition oops_winsys_gem_create ::
    "mem_platform \<Rightarrow> gem_create_in \<Rightarrow> buffers \<Rightarrow> (rc \<times> u32) \<times> buffers" where
  "oops_winsys_gem_create P arg s =
     (let sz = round_up_page (gc_bo_size arg);
          align = (if gc_alignment arg < OOPS_WINSYS_PAGE then OOPS_WINSYS_PAGE
                   else gc_alignment arg)
      in if sz = 0 then ((Err EINVAL, 0), s)
         else case first_index (\<lambda>i. \<not> bo_live (s_bo s i)) OOPS_WINSYS_MAX_BO of
             None \<Rightarrow> ((Err ENOMEM, 0), s)
           | Some i \<Rightarrow>
               let r = mem_alloc_direct P (mem_calls s) sz align;
                   s1 = mem_note (AllocDirect sz align r) s
               in case r of
                    None \<Rightarrow> ((Err ENOMEM, 0), s1)
                  | Some phys \<Rightarrow>
                      ((Ok, of_nat i + 1),
                       set_bo i ((s_bo s i)\<lparr>bo_live := True, bo_size := sz,
                           bo_alignment := align, bo_domain_flags := gc_domain_flags arg,
                           bo_phys := phys, bo_gpu_va := 0, bo_cpu_ptr := 0,
                           bo_domain := ucast (gc_domains arg)\<rparr>) s1))"

definition oops_winsys_gem_close :: "u32 \<Rightarrow> buffers \<Rightarrow> (rc \<times> buffers) option" where
  "oops_winsys_gem_close handle s =
     (case bo_index s handle of
        None \<Rightarrow> Some (Err EINVAL, s)
      | Some i \<Rightarrow>
          let bo = s_bo s i;
              s1 = (if bo_cpu_ptr bo \<noteq> 0 then mem_note (Unmap (bo_cpu_ptr bo) (bo_size bo)) s else s)
          in case (if bo_gpu_va bo \<noteq> 0
                   then retain (bo_gpu_va bo) (bo_size bo) (bo_phys bo) (bo_gpu_prot bo) True s1
                   else let (adopted, s2) = retained_adopt_pages (bo_phys bo) s1
                        in Some (if adopted then s2
                                 else mem_note (FreeDirect (bo_phys bo) (bo_size bo)) s2)) of
               None \<Rightarrow> None
             | Some s3 \<Rightarrow> Some (Ok, set_bo i bo_zero s3))"

section \<open>CPU mappings\<close>

text \<open>The reply is the cookie \<open>mmap\<close> takes; nothing is written when the handle is refused.\<close>

definition oops_winsys_gem_mmap :: "u32 \<Rightarrow> buffers \<Rightarrow> rc \<times> u64 option" where
  "oops_winsys_gem_mmap handle s =
     (case bo_of s handle of
        None \<Rightarrow> (Err EINVAL, None)
      | Some bo \<Rightarrow> (Ok, Some (ucast handle * OOPS_WINSYS_PAGE)))"

text \<open>The mapping block the three callers below share: the buffer's pages are mapped once.\<close>

definition bo_cpu_map :: "mem_platform \<Rightarrow> nat \<Rightarrow> buffers \<Rightarrow> bool \<times> buffers" where
  "bo_cpu_map P i s =
     (let bo = s_bo s i in
      if bo_cpu_ptr bo = 0
      then let r = mem_map_direct P (mem_calls s) (bo_size bo) (bo_phys bo);
               s1 = mem_note (MapDirect (bo_size bo) (bo_phys bo) r) s
           in case r of None \<Rightarrow> (False, s1)
              | Some v \<Rightarrow> (True, set_bo i (bo\<lparr>bo_cpu_ptr := v\<rparr>) s1)
      else (True, s))"

definition oops_winsys_mmap :: "mem_platform \<Rightarrow> u64 \<Rightarrow> u64 \<Rightarrow> buffers \<Rightarrow> u64 \<times> buffers" where
  "oops_winsys_mmap P len offset s =
     (let handle = ucast (offset div OOPS_WINSYS_PAGE) in
      case bo_index s handle of
        None \<Rightarrow> (0, s)
      | Some i \<Rightarrow>
          if bo_size (s_bo s i) < len then (0, s)
          else let (ok, s1) = bo_cpu_map P i s
               in if ok then (bo_cpu_ptr (s_bo s1 i), s1) else (0, s1))"

definition oops_winsys_mmap_or_failed :: "mem_platform \<Rightarrow> u64 \<Rightarrow> u64 \<Rightarrow> buffers \<Rightarrow> u64 \<times> buffers" where
  "oops_winsys_mmap_or_failed P len offset s =
     (let (p, s1) = oops_winsys_mmap P len offset s in (if p \<noteq> 0 then p else - 1, s1))"

definition oops_winsys_munmap :: "u64 \<Rightarrow> u64 \<Rightarrow> buffers \<Rightarrow> rc \<times> buffers" where
  "oops_winsys_munmap addr len s = (Ok, s)"

definition oops_winsys_bo_cpu_range ::
    "mem_platform \<Rightarrow> u32 \<Rightarrow> u64 \<Rightarrow> u64 \<Rightarrow> buffers \<Rightarrow> u64 \<times> buffers" where
  "oops_winsys_bo_cpu_range P handle offset bytes s =
     (case bo_index s handle of
        None \<Rightarrow> (0, s)
      | Some i \<Rightarrow>
          if bo_size (s_bo s i) < offset \<or> bo_size (s_bo s i) - offset < bytes then (0, s)
          else let (ok, s1) = bo_cpu_map P i s
               in if ok then (bo_cpu_ptr (s_bo s1 i) + offset, s1) else (0, s1))"

definition oops_winsys_cpu_for_va :: "u64 \<Rightarrow> u64 \<Rightarrow> buffers \<Rightarrow> u64" where
  "oops_winsys_cpu_for_va va bytes s =
     (case first_index (\<lambda>i. let bo = s_bo s i in
             \<not> (\<not> bo_live bo \<or> bo_cpu_ptr bo = 0 \<or> bo_gpu_va bo = 0) \<and>
             \<not> (va < bo_gpu_va bo \<or> bo_gpu_va bo + bo_size bo \<le> va)) OOPS_WINSYS_MAX_BO of
        None \<Rightarrow> 0
      | Some i \<Rightarrow>
          let bo = s_bo s i; off = va - bo_gpu_va bo
          in if bo_size bo < off + bytes then 0 else bo_cpu_ptr bo + off)"

definition oops_winsys_cpu_map_va :: "mem_platform \<Rightarrow> u64 \<Rightarrow> u64 \<Rightarrow> buffers \<Rightarrow> u64 \<times> buffers" where
  "oops_winsys_cpu_map_va P va bytes s =
     (case first_index (\<lambda>i. let bo = s_bo s i in
             \<not> (\<not> bo_live bo \<or> bo_gpu_va bo = 0 \<or> va < bo_gpu_va bo \<or>
                bo_gpu_va bo + bo_size bo \<le> va)) OOPS_WINSYS_MAX_BO of
        None \<Rightarrow> (oops_winsys_cpu_for_va va bytes s, s)
      | Some i \<Rightarrow>
          let (ok, s1) = bo_cpu_map P i s
          in if ok then (oops_winsys_cpu_for_va va bytes s1, s1) else (0, s1))"

section \<open>GPU mappings\<close>

datatype vm_flag = AMDGPU_VM_PAGE_READABLE | AMDGPU_VM_PAGE_WRITEABLE

datatype va_op =
    AMDGPU_VA_OP_MAP | AMDGPU_VA_OP_UNMAP | AMDGPU_VA_OP_CLEAR | AMDGPU_VA_OP_REPLACE
  | VA_OP_OTHER u32

record drm_amdgpu_gem_va =
  va_handle :: u32
  va_operation :: va_op
  va_flags :: "vm_flag set"
  va_address :: u64
  va_offset_in_bo :: u64
  va_map_size :: u64

definition va_prot :: "vm_flag set \<Rightarrow> prot" where
  "va_prot flags =
     (let p1 = (if AMDGPU_VM_PAGE_READABLE \<in> flags then {GPU_READ, CPU_READ} else {});
          p2 = (if AMDGPU_VM_PAGE_WRITEABLE \<in> flags then p1 \<union> {GPU_WRITE, CPU_WRITE} else p1)
      in if p2 = {} then {GPU_READ, CPU_READ} else p2)"

text \<open>Two ranges overlap, in the wrapping arithmetic of the code.\<close>

definition va_overlap :: "u64 \<Rightarrow> u64 \<Rightarrow> u64 \<Rightarrow> u64 \<Rightarrow> bool" where
  "va_overlap va sz va' size' \<longleftrightarrow> va < va' + size' \<and> va' < va + sz"

definition va_collisions :: "buffers \<Rightarrow> nat \<Rightarrow> u64 \<Rightarrow> u64 \<Rightarrow> nat list" where
  "va_collisions s i va sz =
     filter (\<lambda>k. let other = s_bo s k in
         \<not> (\<not> bo_live other \<or> k = i \<or> bo_gpu_va other = 0) \<and>
         va_overlap va sz (bo_gpu_va other) (bo_size other)) [0..<OOPS_WINSYS_MAX_BO]"

text \<open>
  The retained range a map can keep: the first one at exactly this address, size and
  protection that is the buffer's own or can be taken over.
\<close>

definition va_keeps :: "buffers \<Rightarrow> nat \<Rightarrow> u64 \<Rightarrow> u64 \<Rightarrow> prot \<Rightarrow> nat \<Rightarrow> bool" where
  "va_keeps s i va sz prot k =
     (let r = s_retained s k; bo = s_bo s i in
      \<not> (\<not> rr_used r \<or> rr_va r \<noteq> va \<or> rr_size r \<noteq> sz \<or> rr_prot r \<noteq> prot) \<and>
      (rr_phys r = bo_phys bo \<or> (rr_owns_phys r \<and> bo_cpu_ptr bo = 0 \<and> bo_size bo = sz)))"

definition release_overlapping :: "u64 \<Rightarrow> u64 \<Rightarrow> buffers \<Rightarrow> buffers" where
  "release_overlapping va sz s =
     fold (\<lambda>k s. let r = s_retained s k in
         if rr_used r \<and> va_overlap va sz (rr_va r) (rr_size r) then retained_release k s else s)
       [0..<OOPS_WINSYS_MAX_RETAINED] s"

definition va_map :: "mem_platform \<Rightarrow> drm_amdgpu_gem_va \<Rightarrow> nat \<Rightarrow> prot \<Rightarrow> buffers \<Rightarrow> rc \<times> buffers" where
  "va_map P arg i prot s0 =
     (let bo = s_bo s0 i;
          va = va_address arg;
          sz = (if va_map_size arg \<noteq> 0 then round_up_page (va_map_size arg) else bo_size bo)
      in if bo_size bo < sz then (Err EINVAL, s0)
         else
           let s = s0\<lparr>s_collisions := s_collisions s0 @
                        map (\<lambda>k. (va_handle arg, of_nat k + 1)) (va_collisions s0 i va sz)\<rparr>;
               placed = bo\<lparr>bo_gpu_va := va, bo_gpu_prot := prot\<rparr>
           in case first_index (va_keeps s i va sz prot) OOPS_WINSYS_MAX_RETAINED of
                Some k \<Rightarrow>
                  if rr_phys (s_retained s k) = bo_phys bo
                  then (Ok, set_bo i placed (retained_drop k s))
                  else (Ok, set_bo i (placed\<lparr>bo_phys := rr_phys (s_retained s k)\<rparr>)
                         (retained_drop k (mem_note (FreeDirect (bo_phys bo) (bo_size bo)) s)))
              | None \<Rightarrow>
                  let s1 = release_overlapping va sz s;
                      ok = mem_batch_map P (mem_calls s1) va (bo_phys bo) sz prot;
                      s2 = mem_note (BatchMap va (bo_phys bo) sz prot ok) s1
                  in if ok then (Ok, set_bo i placed s2) else (Err ENOMEM, s2))"

text \<open>An unmap keeps the range mapped and retains it.\<close>

definition va_unmap :: "nat \<Rightarrow> buffers \<Rightarrow> (rc \<times> buffers) option" where
  "va_unmap i s =
     (let bo = s_bo s i in
      if bo_gpu_va bo \<noteq> 0
      then case retain (bo_gpu_va bo) (bo_size bo) (bo_phys bo) (bo_gpu_prot bo) False s of
             None \<Rightarrow> None
           | Some s1 \<Rightarrow> Some (Ok, set_bo i (bo\<lparr>bo_gpu_va := 0\<rparr>) s1)
      else Some (Ok, s))"

definition oops_winsys_gem_va ::
    "mem_platform \<Rightarrow> drm_amdgpu_gem_va \<Rightarrow> buffers \<Rightarrow> (rc \<times> buffers) option" where
  "oops_winsys_gem_va P arg s =
     (case bo_index s (va_handle arg) of
        None \<Rightarrow> Some (Err EINVAL, s)
      | Some i \<Rightarrow>
          if va_offset_in_bo arg \<noteq> 0 then Some (Err ENOSYS, s)
          else case va_operation arg of
              AMDGPU_VA_OP_MAP \<Rightarrow> Some (va_map P arg i (va_prot (va_flags arg)) s)
            | AMDGPU_VA_OP_UNMAP \<Rightarrow> va_unmap i s
            | AMDGPU_VA_OP_CLEAR \<Rightarrow> Some (Err ENOSYS, s)
            | AMDGPU_VA_OP_REPLACE \<Rightarrow> Some (Err ENOSYS, s)
            | VA_OP_OTHER n \<Rightarrow> Some (Err EINVAL, s))"

section \<open>Idle waits and buffer operations\<close>

record gem_wait_idle_out =
  wi_status :: u32
  wi_domain :: u32

definition oops_winsys_gem_wait_idle :: "u32 \<Rightarrow> buffers \<Rightarrow> rc \<times> gem_wait_idle_out option" where
  "oops_winsys_gem_wait_idle handle s =
     (case bo_of s handle of
        None \<Rightarrow> (Err EINVAL, None)
      | Some bo \<Rightarrow> (Ok, Some \<lparr>wi_status = 0, wi_domain = bo_domain bo\<rparr>))"

datatype gem_op =
    AMDGPU_GEM_OP_GET_GEM_CREATE_INFO | AMDGPU_GEM_OP_SET_PLACEMENT | GEM_OP_OTHER u32

text \<open>\<open>value\<close> is the address the reply is written to; the reply is returned.\<close>

definition oops_winsys_gem_op ::
    "u32 \<Rightarrow> gem_op \<Rightarrow> u64 \<Rightarrow> buffers \<Rightarrow> rc \<times> gem_create_in option" where
  "oops_winsys_gem_op handle opn val s =
     (case bo_of s handle of
        None \<Rightarrow> (Err EINVAL, None)
      | Some bo \<Rightarrow>
          (case opn of
             AMDGPU_GEM_OP_GET_GEM_CREATE_INFO \<Rightarrow>
               if val = 0 then (Err EINVAL, None)
               else (Ok, Some \<lparr>gc_bo_size = bo_size bo, gc_alignment = bo_alignment bo,
                        gc_domains = ucast (bo_domain bo), gc_domain_flags = bo_domain_flags bo\<rparr>)
           | AMDGPU_GEM_OP_SET_PLACEMENT \<Rightarrow> (Err ENOSYS, None)
           | GEM_OP_OTHER n \<Rightarrow> (Err EINVAL, None)))"

end
