(* ===== verification/Contexts.thy ===== *)
theory Contexts
  imports Prelude
begin

text \<open>
  Contexts and buffer lists, \<open>src/src/winsys/context.c\<close>. The operation code of the ioctl is
  a datatype with a constructor for every other number. The reply half of the ioctl's union
  is a value of \<open>ctx_out\<close> or \<open>bo_list_out\<close>; \<open>Untouched\<close> is a call that wrote nothing there.
\<close>

section \<open>Contexts\<close>

definition OOPS_WINSYS_MAX_CTX :: nat where
  "OOPS_WINSYS_MAX_CTX = 64"

record oops_winsys_ctx =
  ctx_live :: bool
  ctx_priority :: u32
  ctx_hangs :: u32

definition ctx_zero :: oops_winsys_ctx where
  "ctx_zero = \<lparr>ctx_live = False, ctx_priority = 0, ctx_hangs = 0\<rparr>"

type_synonym contexts = "nat \<Rightarrow> oops_winsys_ctx"

definition ctx_index :: "contexts \<Rightarrow> u32 \<Rightarrow> nat option" where
  "ctx_index t i =
     (if i = 0 \<or> OOPS_WINSYS_MAX_CTX < unat i then None
      else if ctx_live (t (unat i - 1)) then Some (unat i - 1) else None)"

definition ctx_of :: "contexts \<Rightarrow> u32 \<Rightarrow> oops_winsys_ctx option" where
  "ctx_of t i = map_option t (ctx_index t i)"

definition oops_winsys_ctx_note_hang :: "u32 \<Rightarrow> contexts \<Rightarrow> contexts" where
  "oops_winsys_ctx_note_hang ctx_id t =
     (case ctx_index t ctx_id of
        None \<Rightarrow> t
      | Some i \<Rightarrow> t(i := (t i)\<lparr>ctx_hangs := ctx_hangs (t i) + 1\<rparr>))"

datatype ctx_op =
    AMDGPU_CTX_OP_ALLOC_CTX | AMDGPU_CTX_OP_FREE_CTX | AMDGPU_CTX_OP_QUERY_STATE
  | AMDGPU_CTX_OP_QUERY_STATE2 | AMDGPU_CTX_OP_GET_STABLE_PSTATE
  | AMDGPU_CTX_OP_SET_STABLE_PSTATE | CTX_OP_OTHER u32

datatype reset_status = AMDGPU_CTX_NO_RESET | AMDGPU_CTX_GUILTY_RESET

datatype ctx_out =
    Untouched
  | Zeroed
  | AllocCtx u32
  | State u32 reset_status
  | StablePstateNone

record drm_amdgpu_ctx_in =
  ci_op :: ctx_op
  ci_ctx_id :: u32
  ci_priority :: u32

definition oops_winsys_ctx :: "drm_amdgpu_ctx_in \<Rightarrow> contexts \<Rightarrow> (rc \<times> ctx_out) \<times> contexts" where
  "oops_winsys_ctx arg t =
     (case ci_op arg of
        AMDGPU_CTX_OP_ALLOC_CTX \<Rightarrow>
          (case first_index (\<lambda>i. \<not> ctx_live (t i)) OOPS_WINSYS_MAX_CTX of
             None \<Rightarrow> ((Err ENOMEM, Zeroed), t)
           | Some i \<Rightarrow>
               ((Ok, AllocCtx (of_nat i + 1)),
                t(i := (t i)\<lparr>ctx_live := True, ctx_priority := ci_priority arg, ctx_hangs := 0\<rparr>)))
      | AMDGPU_CTX_OP_FREE_CTX \<Rightarrow>
          (case ctx_index t (ci_ctx_id arg) of
             None \<Rightarrow> ((Err EINVAL, Untouched), t)
           | Some i \<Rightarrow> ((Ok, Zeroed), t(i := ctx_zero)))
      | AMDGPU_CTX_OP_GET_STABLE_PSTATE \<Rightarrow>
          (case ctx_of t (ci_ctx_id arg) of
             None \<Rightarrow> ((Err EINVAL, Untouched), t)
           | Some c \<Rightarrow> ((Ok, StablePstateNone), t))
      | AMDGPU_CTX_OP_SET_STABLE_PSTATE \<Rightarrow> ((Err EPERM, Untouched), t)
      | CTX_OP_OTHER n \<Rightarrow> ((Err EINVAL, Untouched), t)
      | _ \<Rightarrow>
          (case ctx_of t (ci_ctx_id arg) of
             None \<Rightarrow> ((Err EINVAL, Untouched), t)
           | Some c \<Rightarrow>
               ((Ok, State (ctx_hangs c)
                   (if ctx_hangs c \<noteq> 0 then AMDGPU_CTX_GUILTY_RESET else AMDGPU_CTX_NO_RESET)), t)))"

section \<open>Buffer lists\<close>

definition OOPS_WINSYS_MAX_BO_LIST :: nat where
  "OOPS_WINSYS_MAX_BO_LIST = 256"

record oops_winsys_bo_list_entry =
  bl_live :: bool
  bl_count :: u32

definition bo_list_zero :: oops_winsys_bo_list_entry where
  "bo_list_zero = \<lparr>bl_live = False, bl_count = 0\<rparr>"

type_synonym bo_lists = "nat \<Rightarrow> oops_winsys_bo_list_entry"

datatype bo_list_op = AMDGPU_BO_LIST_OP_CREATE | AMDGPU_BO_LIST_OP_DESTROY | BO_LIST_OP_OTHER u32

record drm_amdgpu_bo_list_in =
  bi_operation :: bo_list_op
  bi_list_handle :: u32
  bi_bo_number :: u32
  bi_bo_info_size :: u32
  bi_bo_info_ptr :: u64

text \<open>
  \<open>load\<close> reads the 32-bit word at an address of the caller's memory and \<open>is_live\<close> is
  \<open>oops_winsys_bo_is_live\<close> of the buffer component. Entry \<open>i\<close> starts \<open>i * stride\<close> bytes into
  the array and its first word is the buffer handle.
\<close>

definition entry_handle :: "(u64 \<Rightarrow> u32) \<Rightarrow> u64 \<Rightarrow> u32 \<Rightarrow> nat \<Rightarrow> u32" where
  "entry_handle load entries stride i = load (entries + of_nat i * ucast stride)"

definition oops_winsys_bo_list ::
    "(u64 \<Rightarrow> u32) \<Rightarrow> (u32 \<Rightarrow> bool) \<Rightarrow> drm_amdgpu_bo_list_in \<Rightarrow> bo_lists \<Rightarrow> (rc \<times> u32 option) \<times> bo_lists"
    where
  "oops_winsys_bo_list load is_live arg t =
     (case bi_operation arg of
        AMDGPU_BO_LIST_OP_CREATE \<Rightarrow>
          let entries = bi_bo_info_ptr arg; count = bi_bo_number arg; stride = bi_bo_info_size arg in
          if count \<noteq> 0 \<and> (entries = 0 \<or> stride < 4) then ((Err EINVAL, None), t)
          else if list_ex (\<lambda>i. \<not> is_live (entry_handle load entries stride i)) [0..<unat count]
          then ((Err EINVAL, None), t)
          else (case first_index (\<lambda>i. \<not> bl_live (t i)) OOPS_WINSYS_MAX_BO_LIST of
                  None \<Rightarrow> ((Err ENOMEM, None), t)
                | Some i \<Rightarrow>
                    ((Ok, Some (of_nat i + 1)),
                     t(i := (t i)\<lparr>bl_live := True, bl_count := count\<rparr>)))
      | AMDGPU_BO_LIST_OP_DESTROY \<Rightarrow>
          let h = bi_list_handle arg in
          if h = 0 \<or> OOPS_WINSYS_MAX_BO_LIST < unat h \<or> \<not> bl_live (t (unat h - 1))
          then ((Err EINVAL, None), t)
          else ((Ok, None), t(unat h - 1 := bo_list_zero))
      | BO_LIST_OP_OTHER n \<Rightarrow> ((Err EINVAL, None), t))"

section \<open>Both tables are handle tables\<close>

definition ctx_new :: "u32 \<Rightarrow> contexts \<Rightarrow> (u32 \<times> contexts) option" where
  "ctx_new prio t =
     (case oops_winsys_ctx \<lparr>ci_op = AMDGPU_CTX_OP_ALLOC_CTX, ci_ctx_id = 0, ci_priority = prio\<rparr> t of
        ((Ok, AllocCtx h), t') \<Rightarrow> Some (h, t') | _ \<Rightarrow> None)"

definition ctx_drop :: "u32 \<Rightarrow> contexts \<Rightarrow> contexts option" where
  "ctx_drop h t =
     (case oops_winsys_ctx \<lparr>ci_op = AMDGPU_CTX_OP_FREE_CTX, ci_ctx_id = h, ci_priority = 0\<rparr> t of
        ((Ok, _), t') \<Rightarrow> Some t' | _ \<Rightarrow> None)"

lemma ctx_of_live_slot: "ctx_of t = live_slot ctx_live OOPS_WINSYS_MAX_CTX t"
  by (rule ext) (simp add: ctx_of_def ctx_index_def live_slot_def Let_def)

lemma ctx_index_of: "ctx_index t h = (if ctx_of t h = None then None else Some (unat h - 1))"
  by (simp add: ctx_of_def ctx_index_def)

lemma ctx_new_eq:
  "ctx_new prio t =
     map_option (\<lambda>i. (handle_of i,
         t(i := (t i)\<lparr>ctx_live := True, ctx_priority := prio, ctx_hangs := 0\<rparr>)))
       (first_index (\<lambda>i. \<not> ctx_live (t i)) OOPS_WINSYS_MAX_CTX)"
  by (auto simp: ctx_new_def oops_winsys_ctx_def handle_of_def split: option.split)

lemma ctx_drop_eq:
  "ctx_drop h t = (if ctx_of t h = None then None else Some (t(unat h - 1 := ctx_zero)))"
  by (simp add: ctx_drop_def oops_winsys_ctx_def ctx_index_of)

interpretation ctx: handle_table "\<lambda>_. True" ctx_of ctx_new ctx_drop OOPS_WINSYS_MAX_CTX
proof (unfold_locales, goal_cases)
  case (1 t a h t')
  then obtain i where "i < OOPS_WINSYS_MAX_CTX" "\<not> ctx_live (t i)" "h = handle_of i"
    "t' = t(i := (t i)\<lparr>ctx_live := True, ctx_priority := a, ctx_hangs := 0\<rparr>)"
    by (auto simp: ctx_new_eq first_index_Some)
  then show ?case by (auto simp: ctx_of_live_slot OOPS_WINSYS_MAX_CTX_def table_simps)
next
  case (2 t h)
  then have "h \<noteq> 0" "unat h \<le> OOPS_WINSYS_MAX_CTX"
    unfolding ctx_of_live_slot using live_slot_range by metis+
  with 2 show ?case by (simp add: ctx_drop_eq ctx_of_live_slot table_simps ctx_zero_def)
next
  case (3 t h)
  then show ?case by (simp add: ctx_drop_eq)
next
  case (4 t h)
  then show ?case unfolding ctx_of_live_slot by (rule live_slot_range)
qed

definition bo_list_lookup :: "bo_lists \<Rightarrow> u32 \<Rightarrow> oops_winsys_bo_list_entry option" where
  "bo_list_lookup = live_slot bl_live OOPS_WINSYS_MAX_BO_LIST"

definition bo_list_new ::
    "(u64 \<Rightarrow> u32) \<Rightarrow> (u32 \<Rightarrow> bool) \<Rightarrow> drm_amdgpu_bo_list_in \<Rightarrow> bo_lists \<Rightarrow> (u32 \<times> bo_lists) option" where
  "bo_list_new load is_live a t =
     (case oops_winsys_bo_list load is_live (a\<lparr>bi_operation := AMDGPU_BO_LIST_OP_CREATE\<rparr>) t of
        ((Ok, Some h), t') \<Rightarrow> Some (h, t') | _ \<Rightarrow> None)"

definition bo_list_drop :: "u32 \<Rightarrow> bo_lists \<Rightarrow> bo_lists option" where
  "bo_list_drop h t =
     (case oops_winsys_bo_list (\<lambda>_. 0) (\<lambda>_. False) \<lparr>bi_operation = AMDGPU_BO_LIST_OP_DESTROY,
         bi_list_handle = h, bi_bo_number = 0, bi_bo_info_size = 0, bi_bo_info_ptr = 0\<rparr> t of
        ((Ok, _), t') \<Rightarrow> Some t' | _ \<Rightarrow> None)"

lemma bo_list_new_Some:
  assumes "bo_list_new load is_live a t = Some (h, t')"
  obtains i where "i < OOPS_WINSYS_MAX_BO_LIST" "\<not> bl_live (t i)" "h = handle_of i"
    "t' = t(i := (t i)\<lparr>bl_live := True, bl_count := bi_bo_number a\<rparr>)"
  using assms
  by (auto simp: bo_list_new_def oops_winsys_bo_list_def handle_of_def Let_def first_index_Some
      split: if_splits option.splits)

lemma bo_list_drop_eq:
  "bo_list_drop h t = (if bo_list_lookup t h = None then None else Some (t(unat h - 1 := bo_list_zero)))"
  by (auto simp: bo_list_drop_def oops_winsys_bo_list_def bo_list_lookup_def live_slot_def Let_def)

interpretation bo_list: handle_table "\<lambda>_. True" bo_list_lookup "bo_list_new load is_live"
  bo_list_drop OOPS_WINSYS_MAX_BO_LIST for load is_live
proof (unfold_locales, goal_cases)
  case (1 t a h t')
  from 1(2) obtain i where "i < OOPS_WINSYS_MAX_BO_LIST" "\<not> bl_live (t i)" "h = handle_of i"
    "t' = t(i := (t i)\<lparr>bl_live := True, bl_count := bi_bo_number a\<rparr>)" by (rule bo_list_new_Some)
  then show ?case by (auto simp: bo_list_lookup_def OOPS_WINSYS_MAX_BO_LIST_def table_simps)
next
  case (2 t h)
  then have "h \<noteq> 0" "unat h \<le> OOPS_WINSYS_MAX_BO_LIST"
    unfolding bo_list_lookup_def using live_slot_range by metis+
  with 2 show ?case by (simp add: bo_list_drop_eq bo_list_lookup_def table_simps bo_list_zero_def)
next
  case (3 t h)
  then show ?case by (simp add: bo_list_drop_eq)
next
  case (4 t h)
  then show ?case unfolding bo_list_lookup_def by (rule live_slot_range)
qed

section \<open>Hang counting\<close>

lemma note_hang_of:
  "ctx_of (oops_winsys_ctx_note_hang h t) = (case ctx_of t h of
     None \<Rightarrow> ctx_of t | Some c \<Rightarrow> (ctx_of t)(h \<mapsto> c\<lparr>ctx_hangs := ctx_hangs c + 1\<rparr>))"
proof (cases "ctx_of t h")
  case None
  then show ?thesis by (simp add: oops_winsys_ctx_note_hang_def ctx_of_def)
next
  case (Some c)
  then have s: "live_slot ctx_live OOPS_WINSYS_MAX_CTX t h = Some c" by (simp add: ctx_of_live_slot)
  note D = live_slot_SomeD [OF s]
  have "unat h \<le> OOPS_WINSYS_MAX_CTX" using live_slot_range [of ctx_live _ t h] s by auto
  moreover have "oops_winsys_ctx_note_hang h t = t(unat h - 1 := c\<lparr>ctx_hangs := ctx_hangs c + 1\<rparr>)"
    using Some D(4) by (simp add: oops_winsys_ctx_note_hang_def ctx_index_of)
  ultimately show ?thesis
    using Some D by (simp add: ctx_of_live_slot live_slot_update_Suc)
qed

lemma note_hang_iterated:
  assumes "ctx_of t h = Some c"
  shows "ctx_of ((oops_winsys_ctx_note_hang h ^^ k) t) = (ctx_of t)(h \<mapsto> c\<lparr>ctx_hangs := ctx_hangs c + of_nat k\<rparr>)"
proof (induction k)
  case 0
  then show ?case using assms by (simp add: fun_upd_idem)
next
  case (Suc k)
  then show ?case by (auto simp: note_hang_of fun_eq_iff ac_simps)
qed

lemma query_state_eq:
  assumes "ci_op arg = AMDGPU_CTX_OP_QUERY_STATE \<or> ci_op arg = AMDGPU_CTX_OP_QUERY_STATE2"
    and "ctx_of t (ci_ctx_id arg) = Some c"
  shows "oops_winsys_ctx arg t = ((Ok, State (ctx_hangs c)
    (if ctx_hangs c \<noteq> 0 then AMDGPU_CTX_GUILTY_RESET else AMDGPU_CTX_NO_RESET)), t)"
  using assms by (auto simp: oops_winsys_ctx_def)

text \<open>
  C11. The reset history a context reports is exactly the failed submissions noted against
  it: after \<open>k\<close> hangs of a freshly allocated context (fewer than 2^32, where the counter
  wraps) a state query answers \<open>k\<close> and reports a guilty reset if and only if there was
  one, and every other context answers as before.
\<close>

theorem hang_history:
  assumes "ctx_new prio t = Some (h, t')" and "k < 2 ^ 32"
    and "arg = \<lparr>ci_op = AMDGPU_CTX_OP_QUERY_STATE2, ci_ctx_id = h, ci_priority = 0\<rparr>"
  shows "fst (oops_winsys_ctx arg ((oops_winsys_ctx_note_hang h ^^ k) t')) =
      (Ok, State (of_nat k) (if k = 0 then AMDGPU_CTX_NO_RESET else AMDGPU_CTX_GUILTY_RESET)) \<and>
    (\<forall>g. g \<noteq> h \<longrightarrow> ctx_of ((oops_winsys_ctx_note_hang h ^^ k) t') g = ctx_of t g)"
proof -
  from assms(1) obtain i where i: "i < OOPS_WINSYS_MAX_CTX" "h = handle_of i"
    "t' = t(i := (t i)\<lparr>ctx_live := True, ctx_priority := prio, ctx_hangs := 0\<rparr>)"
    by (auto simp: ctx_new_eq first_index_Some)
  then have of: "ctx_of t' = (ctx_of t)(h \<mapsto> (t i)\<lparr>ctx_live := True, ctx_priority := prio, ctx_hangs := 0\<rparr>)"
    by (simp add: ctx_of_live_slot OOPS_WINSYS_MAX_CTX_def table_simps)
  have "(of_nat k :: u32) = 0 \<longleftrightarrow> k = 0"
    using assms(2) by (simp add: of_nat_small_eq_0)
  moreover have "ctx_of ((oops_winsys_ctx_note_hang h ^^ k) t') =
      (ctx_of t')(h \<mapsto> (t i)\<lparr>ctx_live := True, ctx_priority := prio, ctx_hangs := of_nat k\<rparr>)"
    using note_hang_iterated [of t' h _ k] of by simp
  ultimately show ?thesis
    using assms(3) of by (simp add: query_state_eq)
qed

theorem hang_history_witness:
  "fst (oops_winsys_ctx \<lparr>ci_op = AMDGPU_CTX_OP_QUERY_STATE2, ci_ctx_id = 1, ci_priority = 0\<rparr>
     ((oops_winsys_ctx_note_hang 1 ^^ 2) ((\<lambda>_. ctx_zero)(0 := ctx_zero\<lparr>ctx_live := True\<rparr>)))) =
   (Ok, State 2 AMDGPU_CTX_GUILTY_RESET)"
proof -
  have "ctx_new 0 (\<lambda>_. ctx_zero) = Some (1, (\<lambda>_. ctx_zero)(0 := ctx_zero\<lparr>ctx_live := True\<rparr>))"
    by (simp add: ctx_new_eq first_index_def OOPS_WINSYS_MAX_CTX_def ctx_zero_def handle_of_def)
  from hang_history [OF this, of 2] show ?thesis by simp
qed

end
