(* ===== verification/World.thy ===== *)
theory World
  imports Buffers Contexts
begin

text \<open>
  What submission and the progress marks share: the trace of what the shim does to memory
  and to the graphics driver, the platform it runs on, and the state of the static variables
  of \<open>submit.c\<close> and \<open>log.c\<close> together with the components they call.

  The trace holds, newest first, every store, every cache flush, every stream handed to the
  driver and every read of the fence word. Memory is written by the GPU and, through a
  second mapping of the same pages, by the CPU, so what a load returns is a function of the
  trace and the address, given by the platform. The driver entry points, the allocator the
  fence memory comes from and the clock are the platform's as well: an entry point that the
  weak reference did not resolve is \<open>None\<close>.
\<close>

datatype event =
    Store32 u64 u32
  | Store64 u64 u64
  | Flush "u64 list"
  | Submit u64 u32
  | Poll u32

type_synonym trace = "event list"

record platform =
  pf_mem :: mem_platform
  pf_load :: "trace \<Rightarrow> u64 \<Rightarrow> u32"
  pf_trace_level :: bool
  pf_agc_init :: "(trace \<Rightarrow> int) option"
  pf_create_queue :: "(trace \<Rightarrow> int \<times> u64) option"
  pf_submit_cb :: "(trace \<Rightarrow> u64 \<Rightarrow> u64 \<Rightarrow> u32 \<Rightarrow> int) option"
  pf_submit_dcb :: "(trace \<Rightarrow> u64 \<Rightarrow> u32 \<Rightarrow> int) option"
  pf_mem_alloc :: "trace \<Rightarrow> u64 \<Rightarrow> u64 \<Rightarrow> u64"
  pf_process_time :: "(trace \<Rightarrow> u64) option"

record oops_mark =
  mk_va :: u64
  mk_cpu :: u64
  mk_before :: u32
  mk_ref :: u32
  mk_mask :: u32
  mk_at :: u16
  mk_kind :: char
  mk_ib :: u8

record winsys =
  w_buf :: buffers
  w_ctx :: contexts
  w_marks :: "oops_mark list"
  w_nib :: u32
  w_trace :: trace
  w_queue :: u64
  w_fence :: u64
  w_fence_dcb :: u64
  w_sequence :: u64
  w_slowest_us :: u64

definition winsys_init :: winsys where
  "winsys_init = \<lparr>w_buf = buffers_init, w_ctx = (\<lambda>_. ctx_zero), w_marks = [], w_nib = 0,
     w_trace = [], w_queue = 0, w_fence = 0, w_fence_dcb = 0, w_sequence = 0, w_slowest_us = 0\<rparr>"

definition emit :: "event \<Rightarrow> winsys \<Rightarrow> winsys" where
  "emit e s = s\<lparr>w_trace := e # w_trace s\<rparr>"

lemma emit_fields [simp]:
  "w_buf (emit e s) = w_buf s" "w_ctx (emit e s) = w_ctx s" "w_marks (emit e s) = w_marks s"
  "w_nib (emit e s) = w_nib s" "w_trace (emit e s) = e # w_trace s" "w_queue (emit e s) = w_queue s"
  "w_fence (emit e s) = w_fence s" "w_fence_dcb (emit e s) = w_fence_dcb s"
  "w_sequence (emit e s) = w_sequence s" "w_slowest_us (emit e s) = w_slowest_us s"
  by (simp_all add: emit_def)

text \<open>The array of dwords at an address: \<open>dw[i]\<close>.\<close>

definition load_dw :: "platform \<Rightarrow> trace \<Rightarrow> u64 \<Rightarrow> nat \<Rightarrow> u32" where
  "load_dw env tr p i = pf_load env tr (p + 4 * of_nat i)"

end
