(* ===== verification/Marks.thy ===== *)
theory Marks
  imports World
begin

text \<open>
  The progress marks of \<open>src/src/winsys/log.c\<close>, as the target build has them: before a
  stream is submitted, every packet that writes or polls memory leaves a mark with the value
  found there, so that a submission that never retires can be told how far it got. \<open>s_marks\<close>
  is the list of the marks in use, oldest first. The log lines themselves are in \<open>Diagnostics\<close>;
  \<open>oops_winsys_report_marks\<close> is the list of values its lines print.
\<close>

definition OOPS_MARKS_MAX :: nat where
  "OOPS_MARKS_MAX = 48"

definition mark_read :: "platform \<Rightarrow> u64 \<Rightarrow> winsys \<Rightarrow> u32" where
  "mark_read env p s = pf_load env (w_trace s) p"

definition mark_add ::
    "platform \<Rightarrow> char \<Rightarrow> u32 \<Rightarrow> u64 \<Rightarrow> u32 \<Rightarrow> u32 \<Rightarrow> winsys \<Rightarrow> winsys" where
  "mark_add env kind at va ref msk s =
     (if length (w_marks s) = OOPS_MARKS_MAX then s
      else
        let (p, b) = oops_winsys_cpu_map_va (pf_mem env) va 4 (w_buf s);
            s1 = s\<lparr>w_buf := b\<rparr>;
            s2 = (if p \<noteq> 0 \<and> (kind = CHR ''E'' \<or> kind = CHR ''S'')
                  then emit (Store32 p 0x0bad0bad) s1 else s1);
            before = (if p \<noteq> 0 then mark_read env p s2 else 0)
        in s2\<lparr>w_marks := w_marks s2 @ [\<lparr>mk_va = va, mk_cpu = p, mk_before = before, mk_ref = ref,
             mk_mask = msk, mk_at = ucast at, mk_kind = kind, mk_ib = ucast (w_nib s)\<rparr>]\<rparr>)"

definition oops_winsys_clear_marks :: "winsys \<Rightarrow> winsys" where
  "oops_winsys_clear_marks s = s\<lparr>w_marks := [], w_nib := 0\<rparr>"

definition addr64 :: "u32 \<Rightarrow> u32 \<Rightarrow> u64" where
  "addr64 hi lo = push_bit 32 (ucast hi) OR ucast lo"

text \<open>One packet: its opcode, its payload length in dwords and its payload.\<close>

definition note_packet ::
    "platform \<Rightarrow> u32 \<Rightarrow> u32 \<Rightarrow> nat \<Rightarrow> (nat \<Rightarrow> u32) \<Rightarrow> winsys \<Rightarrow> winsys" where
  "note_packet env at opc cnt b s =
     (if opc = 0x49 \<and> 5 \<le> cnt \<and> drop_bit 29 (b 1) AND 7 \<noteq> 0
      then mark_add env (CHR ''R'') at (addr64 (b 3) (b 2)) (b 4) (- 1) s
      else if opc = 0x37 \<and> 3 \<le> cnt
      then let sel = drop_bit 8 (b 0) AND 0xf in
           if sel = 2 \<or> sel = 5
           then mark_add env (CHR ''W'') at (addr64 (b 2) (b 1)) (if 3 < cnt then b 3 else 0) (- 1) s
           else s
      else if opc = 0x34 \<and> 3 \<le> cnt \<and> b 0 AND 1 \<noteq> 0
      then mark_add env (CHR ''S'') at (addr64 (b 2) (b 1)) 0 (- 1) s
      else if opc = 0x46 \<and> 3 \<le> cnt
      then mark_add env (CHR ''E'') at (addr64 (b 2) (b 1 AND NOT 7)) (b 0) (- 1) s
      else if opc = 0x3c \<and> 5 \<le> cnt \<and> b 0 AND 0x30 = 0x10
      then mark_add env (CHR ''P'') at (addr64 (b 2) (b 1)) (b 3) (b 4) s
      else s)"

text \<open>
  The walk. \<open>n\<close> is a byte count divided by four, below 2^30, and a packet spans at most
  2^14 + 1 dwords, so the 32-bit indices of the code do not wrap and are natural numbers
  here.
\<close>

function note_marks_from :: "platform \<Rightarrow> u64 \<Rightarrow> nat \<Rightarrow> nat \<Rightarrow> winsys \<Rightarrow> winsys" where
  "note_marks_from env dw n i s =
     (if i < n
      then let h = load_dw env (w_trace s) dw i in
           if drop_bit 30 h \<noteq> 3 then note_marks_from env dw n (i + 1) s
           else
             let opc = drop_bit 8 h AND 0xff;
                 cnt = unat (drop_bit 16 h AND 0x3fff) + 1
             in if n < i + 1 + cnt then s
                else note_marks_from env dw n (i + 1 + cnt)
                  (note_packet env (of_nat i * 4) opc cnt
                     (\<lambda>k. load_dw env (w_trace s) dw (i + 1 + k)) s)
      else s)"
  by auto

termination note_marks_from
  by (relation "measure (\<lambda>(env, dw, n, i, s). n - i)") auto

declare note_marks_from.simps [simp del]

definition oops_winsys_note_marks :: "platform \<Rightarrow> u64 \<Rightarrow> u32 \<Rightarrow> winsys \<Rightarrow> winsys" where
  "oops_winsys_note_marks env va bytes s =
     (if \<not> pf_trace_level env then s
      else
        let dw = oops_winsys_cpu_for_va va (ucast bytes) (w_buf s);
            s1 = (if dw \<noteq> 0 then note_marks_from env dw (unat bytes div 4) 0 s else s)
        in s1\<lparr>w_nib := w_nib s1 + 1\<rparr>)"

definition oops_winsys_report_marks :: "platform \<Rightarrow> winsys \<Rightarrow> (oops_mark \<times> u32 option) list" where
  "oops_winsys_report_marks env s =
     map (\<lambda>m. (m, if mk_cpu m = 0 then None else Some (mark_read env (mk_cpu m) s))) (w_marks s)"

section \<open>What the marks leave alone\<close>

text \<open>
  Adding marks changes the buffers' CPU mappings, the marks and the trace, and nothing else
  of the state; the trace gains poison words only.
\<close>

definition poison_only :: "trace \<Rightarrow> trace \<Rightarrow> bool" where
  "poison_only tr tr' \<longleftrightarrow> (\<exists>ps. tr' = map (\<lambda>p. Store32 p 0x0bad0bad) ps @ tr)"

lemma poison_only_refl [simp]: "poison_only tr tr"
  by (auto simp: poison_only_def intro: exI [of _ "[]"])

lemma poison_only_trans: "poison_only tr tr' \<Longrightarrow> poison_only tr' tr'' \<Longrightarrow> poison_only tr tr''"
  by (auto simp: poison_only_def) (metis append_assoc map_append)

definition only_marks :: "winsys \<Rightarrow> winsys \<Rightarrow> bool" where
  "only_marks s s' \<longleftrightarrow>
     w_ctx s' = w_ctx s \<and> w_queue s' = w_queue s \<and> w_fence s' = w_fence s \<and>
     w_fence_dcb s' = w_fence_dcb s \<and> w_sequence s' = w_sequence s \<and> w_slowest_us s' = w_slowest_us s \<and>
     poison_only (w_trace s) (w_trace s') \<and>
     (length (w_marks s) \<le> OOPS_MARKS_MAX \<longrightarrow> length (w_marks s') \<le> OOPS_MARKS_MAX)"

lemma only_marks_refl [simp]: "only_marks s s"
  by (simp add: only_marks_def)

lemma only_marks_trans: "only_marks s s' \<Longrightarrow> only_marks s' s'' \<Longrightarrow> only_marks s s''"
  by (auto simp: only_marks_def intro: poison_only_trans)

lemma mark_add_only_marks: "only_marks s (mark_add env kind at va ref msk s)"
proof -
  have "poison_only tr (Store32 p 0x0bad0bad # tr)" for tr p
    by (auto simp: poison_only_def intro: exI [of _ "[p]"])
  then show ?thesis
    by (auto simp: mark_add_def only_marks_def emit_def Let_def split: prod.split)
qed

lemma note_packet_only_marks: "only_marks s (note_packet env at opc cnt b s)"
  by (auto simp: note_packet_def Let_def mark_add_only_marks)

text \<open>What every packet keeps, the walk keeps.\<close>

lemma note_marks_from_keeps:
  assumes keeps: "\<And>at opc cnt b s. I s \<Longrightarrow> I (note_packet env at opc cnt b s)"
  shows "I s \<Longrightarrow> I (note_marks_from env dw n i s)"
  using keeps
proof (induction env dw n i s rule: note_marks_from.induct)
  case (1 env dw n i s)
  let ?h = "load_dw env (w_trace s) dw i"
  let ?cnt = "unat (drop_bit 16 ?h AND 0x3fff) + 1"
  let ?s = "note_packet env (of_nat i * 4) (drop_bit 8 ?h AND 0xff) ?cnt
    (\<lambda>k. load_dw env (w_trace s) dw (i + 1 + k)) s"
  consider (stop) "\<not> i < n \<or> (drop_bit 30 ?h = 3 \<and> n < i + 1 + ?cnt)" | (skip) "i < n" "drop_bit 30 ?h \<noteq> 3"
    | (packet) "i < n" "drop_bit 30 ?h = 3" "\<not> n < i + 1 + ?cnt" by blast
  then show ?case
  proof cases
    case stop
    then have "note_marks_from env dw n i s = s"
      by (subst note_marks_from.simps) (simp add: Let_def)
    then show ?thesis using "1.prems" by simp
  next
    case skip
    then have "note_marks_from env dw n i s = note_marks_from env dw n (i + 1) s"
      by (subst note_marks_from.simps) (simp add: Let_def)
    then show ?thesis using "1.IH"(1) [OF skip(1) refl skip(2) "1.prems"] by simp
  next
    case packet
    then have "note_marks_from env dw n i s = note_marks_from env dw n (i + 1 + ?cnt) ?s"
      by (subst note_marks_from.simps) (simp add: Let_def)
    moreover have "I (note_marks_from env dw n (i + 1 + ?cnt) ?s)"
      by (rule "1.IH"(2) [OF packet(1) refl _ refl refl packet(3)])
        (use packet(2) "1.prems" in simp_all)
    ultimately show ?thesis by simp
  qed
qed

lemma note_marks_from_only_marks: "only_marks s (note_marks_from env dw n i s)"
  by (rule note_marks_from_keeps [where I = "only_marks s"])
    (auto intro: only_marks_trans note_packet_only_marks)

lemma note_marks_only_marks: "only_marks s (oops_winsys_note_marks env va bytes s)"
proof -
  have "only_marks s (s'\<lparr>w_nib := k\<rparr>)" if "only_marks s s'" for s' k
    using that by (auto simp: only_marks_def)
  then show ?thesis
    by (auto simp: oops_winsys_note_marks_def Let_def note_marks_from_only_marks)
qed

end
