(* ===== verification/Submit.thy ===== *)
theory Submit
  imports Marks
begin

text \<open>
  Command submission, \<open>src/src/winsys/submit.c\<close>. A result of \<open>None\<close> is a call that does not
  return, because it loops forever or because it calls or dereferences a null pointer. The
  caller's chunk array is a list, a null pointer in it or in a chunk is \<open>None\<close>, and the
  driver's return codes are integers.
\<close>

section \<open>Finding a chain packet\<close>

definition OOPS_WINSYS_FENCE_ARMED :: u32 where
  "OOPS_WINSYS_FENCE_ARMED = 0x11111111"

definition OOPS_WINSYS_FENCE_FIRED :: u32 where
  "OOPS_WINSYS_FENCE_FIRED = 0xbeefcafe"

definition OOPS_WINSYS_FENCE_TIMEOUT_US :: u64 where
  "OOPS_WINSYS_FENCE_TIMEOUT_US = 5000000"

definition OOPS_WINSYS_FENCE_POLLS :: nat where
  "OOPS_WINSYS_FENCE_POLLS = 500000"

definition OOPS_WINSYS_SLOW_US :: u64 where
  "OOPS_WINSYS_SLOW_US = 50000"

definition PM4_TYPE3_INDIRECT_BUFFER :: u32 where
  "PM4_TYPE3_INDIRECT_BUFFER = 0x3f"

definition PM4_IB_SIZE_MASK :: u32 where
  "PM4_IB_SIZE_MASK = 0xfffff"

definition OOPS_MAX_IB_CHAIN :: nat where
  "OOPS_MAX_IB_CHAIN = 16"

partial_function (option) find_chain_from :: "(u32 \<Rightarrow> u32) \<Rightarrow> u32 \<Rightarrow> u32 \<Rightarrow> u32 option" where
  "find_chain_from dw n i =
     (if i < n
      then if dw i = 0xffff1000 then find_chain_from dw n (i + 1)
           else if drop_bit 30 (dw i) = 2 then find_chain_from dw n (i + 1)
           else if drop_bit 30 (dw i) = 1 then Some n
           else if drop_bit 30 (dw i) = 3 \<and>
                drop_bit 8 (dw i) AND 0xff = PM4_TYPE3_INDIRECT_BUFFER \<and> i + 3 < n
           then Some i
           else find_chain_from dw n (i + ((drop_bit 16 (dw i) AND 0x3fff) + 2))
      else Some n)"

definition oops_winsys_find_chain :: "(u32 \<Rightarrow> u32) \<Rightarrow> u32 \<Rightarrow> u32 option" where
  "oops_winsys_find_chain dw n = find_chain_from dw n 0"

section \<open>Handing streams to the driver\<close>

definition submit_one :: "platform \<Rightarrow> u64 \<Rightarrow> u32 \<Rightarrow> winsys \<Rightarrow> (int \<times> winsys) option" where
  "submit_one env va bytes s =
     (let n = bytes div 4; s1 = emit (Submit va n) s in
      case pf_submit_cb env of
        Some f \<Rightarrow> Some (f (w_trace s) (w_queue s) va n, s1)
      | None \<Rightarrow>
          (case pf_submit_dcb env of
             Some g \<Rightarrow> Some (g (w_trace s) va n, s1)
           | None \<Rightarrow> None))"

definition neg_EIO :: int where
  "neg_EIO = - 5"

function submit_chain :: "platform \<Rightarrow> u64 \<Rightarrow> u32 \<Rightarrow> nat \<Rightarrow> winsys \<Rightarrow> (int \<times> winsys) option" where
  "submit_chain env va bytes depth s =
     (if OOPS_MAX_IB_CHAIN \<le> depth then Some (neg_EIO, s)
      else
        let n = bytes div 4;
            dw = (\<lambda>i. load_dw env (w_trace s) va (unat i))
        in case oops_winsys_find_chain dw n of
             None \<Rightarrow> None
           | Some i \<Rightarrow>
               if n \<le> i then submit_one env va bytes s
               else
                 let target = ucast (dw (i + 1)) OR push_bit 32 (ucast (dw (i + 2)));
                     target_dw = dw (i + 3) AND PM4_IB_SIZE_MASK
                 in case (if 0 < i then submit_one env va (i * 4) s else Some (0, s)) of
                      None \<Rightarrow> None
                    | Some (r, s1) \<Rightarrow>
                        if r \<noteq> 0 then Some (neg_EIO, s1)
                        else if target_dw = 0 then Some (0, s1)
                        else submit_chain env target (target_dw * 4) (depth + 1) s1)"
  by auto

termination submit_chain
  by (relation "measure (\<lambda>(env, va, bytes, depth, s). OOPS_MAX_IB_CHAIN - depth)") auto

declare submit_chain.simps [simp del]

section \<open>The queue and the fence stream\<close>

definition ensure_queue :: "platform \<Rightarrow> winsys \<Rightarrow> bool \<times> winsys" where
  "ensure_queue env s =
     (if w_queue s \<noteq> 0 then (True, s)
      else
        case (pf_agc_init env, pf_create_queue env) of
          (Some init, Some create) \<Rightarrow>
            if pf_submit_cb env = None \<and> pf_submit_dcb env = None then (False, s)
            else if init (w_trace s) \<noteq> 0 then (False, s)
            else
              let (r, q) = create (w_trace s) in
              if r \<noteq> 0 \<or> q = 0 then (False, s\<lparr>w_queue := 0\<rparr>)
              else
                let fence = pf_mem_alloc env (w_trace s) 64 64;
                    dcb = pf_mem_alloc env (w_trace s) 256 256;
                    s1 = s\<lparr>w_queue := q, w_fence := fence, w_fence_dcb := dcb\<rparr>
                in (\<not> (fence = 0 \<or> dcb = 0), s1)
        | _ \<Rightarrow> (False, s))"

definition build_fence_stream :: "u64 \<Rightarrow> u32 list" where
  "build_fence_stream fence_gpu =
     [0xc0012800, 0x200, ucast (drop_bit 8 fence_gpu),
      0xc0064900, 0x06603514, 0x20000000, ucast fence_gpu, ucast (drop_bit 32 fence_gpu),
      OOPS_WINSYS_FENCE_FIRED, 0, 0] @ replicate 16 0xffff1000"

text \<open>The words are stored one by one, then every line of the stream is flushed.\<close>

fun store_words :: "u64 \<Rightarrow> u32 list \<Rightarrow> winsys \<Rightarrow> winsys" where
  "store_words p [] s = s"
| "store_words p (w # ws) s = store_words (p + 4) ws (emit (Store32 p w) s)"

definition write_fence_stream :: "u64 \<Rightarrow> u64 \<Rightarrow> winsys \<Rightarrow> u32 \<times> winsys" where
  "write_fence_stream dcb fence_gpu s =
     (let ws = build_fence_stream fence_gpu;
          s1 = store_words dcb ws s
      in (of_nat (length ws),
          emit (Flush (map (\<lambda>k. dcb + 64 * of_nat k) [0..<(4 * length ws + 63) div 64])) s1))"

section \<open>The wait\<close>

fun poll_fence :: "platform \<Rightarrow> u64 \<Rightarrow> nat \<Rightarrow> u64 \<Rightarrow> winsys \<Rightarrow> (bool \<times> u64) \<times> winsys" where
  "poll_fence env start_us 0 waited_us s = ((False, waited_us), s)"
| "poll_fence env start_us (Suc k) waited_us s =
     (let waited = (case pf_process_time env of
            Some now \<Rightarrow> now (w_trace s) - start_us | None \<Rightarrow> waited_us);
          v = pf_load env (w_trace s) (w_fence s);
          s1 = emit (Poll v) s
      in if v = OOPS_WINSYS_FENCE_FIRED then ((True, waited), s1)
         else if OOPS_WINSYS_FENCE_TIMEOUT_US < waited then ((False, waited), s1)
         else poll_fence env start_us k waited s1)"

lemma poll_fence_numeral [simp]:
  "poll_fence env start_us (numeral k) waited_us s =
     (let waited = (case pf_process_time env of
            Some now \<Rightarrow> now (w_trace s) - start_us | None \<Rightarrow> waited_us);
          v = pf_load env (w_trace s) (w_fence s);
          s1 = emit (Poll v) s
      in if v = OOPS_WINSYS_FENCE_FIRED then ((True, waited), s1)
         else if OOPS_WINSYS_FENCE_TIMEOUT_US < waited then ((False, waited), s1)
         else poll_fence env start_us (pred_numeral k) waited s1)"
  by (simp add: numeral_eq_Suc)

section \<open>The submission ioctl\<close>

datatype cs_chunk =
    AMDGPU_CHUNK_ID_IB "(u64 \<times> u32) option"
  | AMDGPU_CHUNK_ID_FENCE "(u32 \<times> u64) option"
  | AMDGPU_CHUNK_ID_DEPENDENCIES
  | AMDGPU_CHUNK_ID_SYNCOBJ_IN
  | AMDGPU_CHUNK_ID_SYNCOBJ_OUT
  | AMDGPU_CHUNK_ID_BO_HANDLES
  | CHUNK_ID_OTHER u32

record drm_amdgpu_cs_in =
  cs_ctx_id :: u32
  cs_chunks :: "cs_chunk option list option"

text \<open>
  The chunk loop: how many instruction buffers were submitted and the user fence named
  last, or the code the call returns early with.
\<close>

fun cs_chunk_loop ::
    "platform \<Rightarrow> cs_chunk option list \<Rightarrow> u32 \<Rightarrow> (u32 \<times> u64) option \<Rightarrow> winsys \<Rightarrow>
      ((errno + u32 \<times> (u32 \<times> u64) option) \<times> winsys) option" where
  "cs_chunk_loop env [] submitted fence s = Some (Inr (submitted, fence), s)"
| "cs_chunk_loop env (c # cs) submitted fence s =
     (case c of
        Some (AMDGPU_CHUNK_ID_IB (Some (va_start, ib_bytes))) \<Rightarrow>
          if ib_bytes = 0 then cs_chunk_loop env cs submitted fence s
          else (case submit_chain env va_start ib_bytes 0 (oops_winsys_note_marks env va_start ib_bytes s) of
                  None \<Rightarrow> None
                | Some (r, s1) \<Rightarrow>
                    if r \<noteq> 0 then Some (Inl EIO, s1)
                    else cs_chunk_loop env cs (submitted + 1) fence s1)
      | Some (AMDGPU_CHUNK_ID_FENCE (Some f)) \<Rightarrow> cs_chunk_loop env cs submitted (Some f) s
      | _ \<Rightarrow> cs_chunk_loop env cs submitted fence s)"

text \<open>The fence stream, the wait for it, and the publication of the sequence number.\<close>

definition cs_publish :: "platform \<Rightarrow> (u32 \<times> u64) option \<Rightarrow> winsys \<Rightarrow> (rc \<times> u64 option) \<times> winsys" where
  "cs_publish env user_fence s =
     (let sequence = w_sequence s + 1;
          s1 = (case user_fence of
                  None \<Rightarrow> s
                | Some (handle, offset) \<Rightarrow>
                    let (slot, b) = oops_winsys_bo_cpu_range (pf_mem env) handle offset 8 (w_buf s);
                        s2 = s\<lparr>w_buf := b\<rparr>
                    in if slot \<noteq> 0 then emit (Store64 slot sequence) s2 else s2)
      in ((Ok, Some sequence), s1\<lparr>w_sequence := sequence\<rparr>))"

definition cs_retire ::
    "platform \<Rightarrow> u32 \<Rightarrow> (u32 \<times> u64) option \<Rightarrow> winsys \<Rightarrow> ((rc \<times> u64 option) \<times> winsys) option" where
  "cs_retire env ctx_id user_fence s =
     (if w_fence s = 0 \<or> w_fence_dcb s = 0 then None
      else
        let s1 = emit (Flush [w_fence s]) (emit (Store32 (w_fence s) OOPS_WINSYS_FENCE_ARMED) s);
            (words, s2) = write_fence_stream (w_fence_dcb s) (w_fence s) s1
        in case submit_one env (w_fence_dcb s) (words * 4) s2 of
             None \<Rightarrow> None
           | Some (r, s3) \<Rightarrow>
               if r \<noteq> 0 then Some ((Err EIO, None), s3)
               else
                 let start_us = (case pf_process_time env of Some now \<Rightarrow> now (w_trace s3) | None \<Rightarrow> 0);
                     ((fired, waited_us), s4) = poll_fence env start_us OOPS_WINSYS_FENCE_POLLS 0 s3;
                     s5 = (if fired \<and> OOPS_WINSYS_SLOW_US < waited_us \<and> w_slowest_us s4 < waited_us
                           then s4\<lparr>w_slowest_us := waited_us\<rparr> else s4)
                 in if \<not> fired
                    then Some ((Err ETIMEDOUT, None),
                           s5\<lparr>w_ctx := oops_winsys_ctx_note_hang ctx_id (w_ctx s5)\<rparr>)
                    else Some (cs_publish env user_fence s5))"

definition oops_winsys_cs ::
    "platform \<Rightarrow> drm_amdgpu_cs_in \<Rightarrow> winsys \<Rightarrow> ((rc \<times> u64 option) \<times> winsys) option" where
  "oops_winsys_cs env arg s =
     (let (ready, s0) = ensure_queue env s in
      if \<not> ready then Some ((Err ENODEV, None), s0)
      else
        case cs_chunks arg of
          None \<Rightarrow> Some ((Err EINVAL, None), s0)
        | Some chunks \<Rightarrow>
            if chunks = [] then Some ((Err EINVAL, None), s0)
            else
              let s1 = oops_winsys_clear_marks s0;
                  s2 = emit (Flush (oops_winsys_flush_cpu_writes (w_buf s1))) s1
              in case cs_chunk_loop env chunks 0 None s2 of
                   None \<Rightarrow> None
                 | Some (Inl e, s3) \<Rightarrow> Some ((Err e, None), s3)
                 | Some (Inr (submitted, user_fence), s3) \<Rightarrow>
                     if submitted = 0 then Some ((Err EINVAL, None), s3)
                     else cs_retire env (cs_ctx_id arg) user_fence s3)"

text \<open>The reply is the status word: 0 is signalled.\<close>

definition oops_winsys_wait_cs :: "u64 \<Rightarrow> winsys \<Rightarrow> rc \<times> u64 option" where
  "oops_winsys_wait_cs handle s =
     (if w_sequence s < handle then (Err EINVAL, None) else (Ok, Some 0))"

end
