(* ===== verification/Syncobjs.thy ===== *)
theory Syncobjs
  imports Prelude
begin

text \<open>
  Synchronisation objects, \<open>src/src/winsys/syncobj.c\<close>: a fixed table of 1024 slots whose
  handles are slot index + 1. The table is a function of the slot index; every access the
  code makes is below \<open>OOPS_WINSYS_MAX_SYNCOBJ\<close>. An argument that may be a null pointer is
  an option. The log lines are not modelled.
\<close>

section \<open>The table\<close>

definition OOPS_WINSYS_MAX_SYNCOBJ :: nat where
  "OOPS_WINSYS_MAX_SYNCOBJ = 1024"

record oops_winsys_syncobj =
  so_live :: bool
  so_fence_value :: u64
  so_fence_address :: u64

definition syncobj_zero :: oops_winsys_syncobj where
  "syncobj_zero = \<lparr>so_live = False, so_fence_value = 0, so_fence_address = 0\<rparr>"

type_synonym syncobjs = "nat \<Rightarrow> oops_winsys_syncobj"

record drm_syncobj_create =
  sc_handle :: u32
  sc_flags :: u32

section \<open>Operations\<close>

text \<open>
  Creation: the first slot that is not live. \<open>CREATE_SIGNALED\<close> in the flags is only logged.
\<close>

definition oops_winsys_syncobj_create ::
    "drm_syncobj_create option \<Rightarrow> syncobjs \<Rightarrow> rc \<times> drm_syncobj_create option \<times> syncobjs" where
  "oops_winsys_syncobj_create arg t =
     (case arg of
        None \<Rightarrow> (Err EINVAL, None, t)
      | Some a \<Rightarrow>
          (case first_index (\<lambda>i. \<not> so_live (t i)) OOPS_WINSYS_MAX_SYNCOBJ of
             None \<Rightarrow> (Err ENOSPC, Some a, t)
           | Some i \<Rightarrow>
               (Ok, Some (a\<lparr>sc_handle := of_nat i + 1\<rparr>),
                t(i := (t i)\<lparr>so_live := True, so_fence_value := 0, so_fence_address := 0\<rparr>))))"

definition oops_winsys_syncobj_destroy :: "u32 option \<Rightarrow> syncobjs \<Rightarrow> rc \<times> syncobjs" where
  "oops_winsys_syncobj_destroy arg t =
     (case arg of
        None \<Rightarrow> (Err EINVAL, t)
      | Some handle \<Rightarrow>
          if handle = 0 \<or> OOPS_WINSYS_MAX_SYNCOBJ < unat handle then (Err EINVAL, t)
          else if \<not> so_live (t (unat handle - 1)) then (Err EINVAL, t)
          else (Ok, t(unat handle - 1 := syncobj_zero)))"

definition oops_winsys_syncobj_is_live :: "syncobjs \<Rightarrow> u32 \<Rightarrow> bool" where
  "oops_winsys_syncobj_is_live t handle =
     (if handle = 0 \<or> OOPS_WINSYS_MAX_SYNCOBJ < unat handle then False
      else so_live (t (unat handle - 1)))"

section \<open>The table is a handle table\<close>

definition syncobj_lookup :: "syncobjs \<Rightarrow> u32 \<Rightarrow> oops_winsys_syncobj option" where
  "syncobj_lookup = live_slot so_live OOPS_WINSYS_MAX_SYNCOBJ"

lemma syncobj_lookup_is_live:
  "oops_winsys_syncobj_is_live t h \<longleftrightarrow> syncobj_lookup t h \<noteq> None"
  by (simp add: oops_winsys_syncobj_is_live_def syncobj_lookup_def live_slot_def Let_def)

definition syncobj_new :: "drm_syncobj_create \<Rightarrow> syncobjs \<Rightarrow> (u32 \<times> syncobjs) option" where
  "syncobj_new a t =
     (case oops_winsys_syncobj_create (Some a) t of
        (Ok, Some a', t') \<Rightarrow> Some (sc_handle a', t') | _ \<Rightarrow> None)"

definition syncobj_drop :: "u32 \<Rightarrow> syncobjs \<Rightarrow> syncobjs option" where
  "syncobj_drop h t =
     (case oops_winsys_syncobj_destroy (Some h) t of (Ok, t') \<Rightarrow> Some t' | _ \<Rightarrow> None)"

lemma syncobj_new_eq:
  "syncobj_new a t =
     map_option (\<lambda>i. (handle_of i,
         t(i := (t i)\<lparr>so_live := True, so_fence_value := 0, so_fence_address := 0\<rparr>)))
       (first_index (\<lambda>i. \<not> so_live (t i)) OOPS_WINSYS_MAX_SYNCOBJ)"
  by (auto simp: syncobj_new_def oops_winsys_syncobj_create_def handle_of_def
      split: option.split)

lemma syncobj_drop_eq:
  "syncobj_drop h t =
     (if syncobj_lookup t h = None then None else Some (t(unat h - 1 := syncobj_zero)))"
  by (auto simp: syncobj_drop_def oops_winsys_syncobj_destroy_def syncobj_lookup_def
      live_slot_def Let_def)

interpretation syncobj: handle_table "\<lambda>_. True" syncobj_lookup syncobj_new syncobj_drop
  OOPS_WINSYS_MAX_SYNCOBJ
proof (unfold_locales, goal_cases)
  case (1 t a h t')
  then obtain i where i: "i < OOPS_WINSYS_MAX_SYNCOBJ" "\<not> so_live (t i)" "h = handle_of i"
    and t': "t' = t(i := (t i)\<lparr>so_live := True, so_fence_value := 0, so_fence_address := 0\<rparr>)"
    by (auto simp: syncobj_new_eq first_index_Some)
  then show ?case
    by (auto simp: syncobj_lookup_def OOPS_WINSYS_MAX_SYNCOBJ_def table_simps)
next
  case (2 t h)
  then have "h \<noteq> 0" "unat h \<le> OOPS_WINSYS_MAX_SYNCOBJ"
    unfolding syncobj_lookup_def using live_slot_range by metis+
  with 2 show ?case
    by (simp add: syncobj_drop_eq syncobj_lookup_def table_simps syncobj_zero_def)
next
  case (3 t h)
  then show ?case by (simp add: syncobj_drop_eq)
next
  case (4 t h)
  then show ?case unfolding syncobj_lookup_def by (rule live_slot_range)
qed

end
