(* ===== verification/Device.thy ===== *)
theory Device
  imports Submit Syncobjs
begin

text \<open>
  The synthetic device, \<open>src/src/winsys/drm_device.c\<close> and \<open>src/src/winsys/device_info.c\<close>:
  the descriptor, the description radeonsi reads, and the ioctl that dispatches onto the
  other components. Numeric ioctl and query codes are in headers outside this repository, so
  a request is a datatype with a constructor per code and one for every other number. The
  byte layout of the kernel's structures is also outside: it is the parameter \<open>uapi\<close>, and
  a reply is the bytes written and the address they are written to. The statics that only
  choose log lines (\<open>seen\<close>, \<open>s_seq\<close> and the two descriptor notes) are in \<open>Diagnostics\<close>.
\<close>

section \<open>The device description\<close>

datatype vram_type = AMDGPU_VRAM_TYPE_GDDR6

datatype ids_flag = AMDGPU_IDS_FLAGS_FUSION

record drm_amdgpu_info_device =
  di_family :: u32
  di_external_rev :: u32
  di_gpu_counter_freq :: u64
  di_gart_page_size :: u32
  di_virtual_address_alignment :: u32
  di_virtual_address_offset :: u64
  di_virtual_address_max :: u64
  di_high_va_offset :: u64
  di_high_va_max :: u64
  di_num_shader_engines :: u32
  di_num_shader_arrays_per_engine :: u32
  di_cu_active_number :: u32
  di_cu_ao_mask :: u32
  di_cu_bitmap :: "nat \<Rightarrow> nat \<Rightarrow> u32"
  di_num_rb_pipes :: u32
  di_enabled_rb_pipes_mask :: u32
  di_num_hw_gfx_contexts :: u32
  di_vram_type :: vram_type
  di_vram_bit_width :: u32
  di_pte_fragment_size :: u32
  di_ids_flags :: "ids_flag set"

definition OOPS_FAMILY_NV :: u32 where
  "OOPS_FAMILY_NV = 0x8F"

definition OOPS_GFX1013_REV_FIRST :: u32 where
  "OOPS_GFX1013_REV_FIRST = 0x82"

text \<open>The description and the number of its field groups that are assumed.\<close>

definition oops_winsys_device_info :: "nat \<times> drm_amdgpu_info_device" where
  "oops_winsys_device_info = (5,
     \<lparr>di_family = OOPS_FAMILY_NV, di_external_rev = OOPS_GFX1013_REV_FIRST,
      di_gpu_counter_freq = 100000, di_gart_page_size = 0x4000,
      di_virtual_address_alignment = 0x4000,
      di_virtual_address_offset = 0x0000000200000000, di_virtual_address_max = 0x0000000400000000,
      di_high_va_offset = 0x0000000400000000, di_high_va_max = 0x0000002400000000,
      di_num_shader_engines = 2, di_num_shader_arrays_per_engine = 2, di_cu_active_number = 0,
      di_cu_ao_mask = 0xffff,
      di_cu_bitmap = (\<lambda>se sa. if se < 2 \<and> sa < 2 then 0xffff else 0),
      di_num_rb_pipes = 16, di_enabled_rb_pipes_mask = 0xffff, di_num_hw_gfx_contexts = 8,
      di_vram_type = AMDGPU_VRAM_TYPE_GDDR6, di_vram_bit_width = 256,
      di_pte_fragment_size = 0x200000, di_ids_flags = {AMDGPU_IDS_FLAGS_FUSION}\<rparr>)"

record drm_amdgpu_heap_info =
  hi_total_heap_size :: u64
  hi_usable_heap_size :: u64
  hi_heap_usage :: u64
  hi_max_allocation :: u64

record drm_amdgpu_memory_info =
  mi_vram :: drm_amdgpu_heap_info
  mi_cpu_accessible_vram :: drm_amdgpu_heap_info
  mi_gtt :: drm_amdgpu_heap_info

text \<open>\<open>direct_size\<close> is the kernel's direct-memory size call, \<open>None\<close> when it is not bound.\<close>

definition oops_winsys_memory_info ::
    "u64 option \<Rightarrow> buffers \<Rightarrow> rc \<times> drm_amdgpu_memory_info option" where
  "oops_winsys_memory_info direct_size b =
     (case direct_size of
        None \<Rightarrow> (Err ENOSYS, None)
      | Some sz \<Rightarrow>
          if sz = 0 then (Err ENODEV, None)
          else
            let used = oops_winsys_bo_bytes_live b;
                heap = \<lparr>hi_total_heap_size = sz,
                   hi_usable_heap_size = sz - (if used < sz then used else sz),
                   hi_heap_usage = used, hi_max_allocation = sz\<rparr>
            in (Ok, Some \<lparr>mi_vram = heap, mi_cpu_accessible_vram = heap, mi_gtt = heap\<rparr>))"

section \<open>Queries\<close>

record drm_amdgpu_info_hw_ip =
  ip_hw_ip_version_major :: u32
  ip_hw_ip_version_minor :: u32
  ip_available_rings :: u32

record uapi =
  enc_device :: "drm_amdgpu_info_device \<Rightarrow> u8 list"
  enc_memory :: "drm_amdgpu_memory_info \<Rightarrow> u8 list"
  enc_firmware :: "u8 list"
  enc_hw_ip :: "drm_amdgpu_info_hw_ip \<Rightarrow> u8 list"

datatype hw_ip = AMDGPU_HW_IP_GFX | HW_IP_OTHER u32

datatype info_code =
    AMDGPU_INFO_ACCEL_WORKING
  | AMDGPU_INFO_READ_MMR_REG u32
  | AMDGPU_INFO_DEV_INFO
  | AMDGPU_INFO_MEMORY
  | AMDGPU_INFO_FW_VERSION u32
  | AMDGPU_INFO_HW_IP_INFO hw_ip
  | AMDGPU_INFO_HW_IP_COUNT hw_ip
  | INFO_OTHER u32

record drm_amdgpu_info =
  in_return_pointer :: u64
  in_return_size :: u32
  in_query :: info_code

text \<open>The bytes of a 32-bit word in memory, least significant first.\<close>

definition u32_bytes :: "u32 \<Rightarrow> u8 list" where
  "u32_bytes w = map (\<lambda>k. ucast (drop_bit (8 * k) w)) [0..<4]"

definition oops_winsys_copy_out :: "drm_amdgpu_info \<Rightarrow> u8 list \<Rightarrow> rc \<times> (u64 \<times> u8 list) option" where
  "oops_winsys_copy_out info src =
     (let n = min (length src) (unat (in_return_size info)) in
      if in_return_pointer info = 0 \<or> n = 0 then (Err EINVAL, None)
      else (Ok, Some (in_return_pointer info, take n src)))"

definition OOPS_GB_ADDR_CONFIG :: u32 where
  "OOPS_GB_ADDR_CONFIG = 0x00000004"

definition oops_winsys_gb_addr_config :: u32 where
  "oops_winsys_gb_addr_config = OOPS_GB_ADDR_CONFIG"

definition info_query ::
    "uapi \<Rightarrow> u64 option \<Rightarrow> drm_amdgpu_info \<Rightarrow> buffers \<Rightarrow> rc \<times> (u64 \<times> u8 list) option" where
  "info_query u direct_size info b =
     (case in_query info of
        AMDGPU_INFO_ACCEL_WORKING \<Rightarrow> oops_winsys_copy_out info (u32_bytes 1)
      | AMDGPU_INFO_READ_MMR_REG off \<Rightarrow>
          if off = 0x263e
          then let gb = oops_winsys_gb_addr_config in
               if gb = 0 then (Err EACCES, None) else oops_winsys_copy_out info (u32_bytes gb)
          else (Err ENOSYS, None)
      | AMDGPU_INFO_DEV_INFO \<Rightarrow>
          oops_winsys_copy_out info (enc_device u (snd oops_winsys_device_info))
      | AMDGPU_INFO_MEMORY \<Rightarrow>
          (case oops_winsys_memory_info direct_size b of
             (Ok, Some mem) \<Rightarrow> oops_winsys_copy_out info (enc_memory u mem)
           | (r, _) \<Rightarrow> (r, None))
      | AMDGPU_INFO_FW_VERSION t \<Rightarrow> oops_winsys_copy_out info (enc_firmware u)
      | AMDGPU_INFO_HW_IP_INFO t \<Rightarrow>
          if t \<noteq> AMDGPU_HW_IP_GFX then (Err ENOSYS, None)
          else oops_winsys_copy_out info (enc_hw_ip u
                 \<lparr>ip_hw_ip_version_major = 10, ip_hw_ip_version_minor = 1, ip_available_rings = 1\<rparr>)
      | AMDGPU_INFO_HW_IP_COUNT t \<Rightarrow>
          if t \<noteq> AMDGPU_HW_IP_GFX then (Err ENOSYS, None)
          else oops_winsys_copy_out info (u32_bytes 1)
      | INFO_OTHER n \<Rightarrow> (Err ENOSYS, None))"

definition oops_winsys_info ::
    "uapi \<Rightarrow> u64 option \<Rightarrow> drm_amdgpu_info \<Rightarrow> buffers \<Rightarrow> rc \<times> (u64 \<times> u8 list) option" where
  "oops_winsys_info u direct_size info b = info_query u direct_size info b"

section \<open>The driver identity\<close>

text \<open>A null buffer is \<open>0\<close>. The result is the updated request and the strings written.\<close>

record drm_version =
  ve_version_major :: int
  ve_version_minor :: int
  ve_version_patchlevel :: int
  ve_name_len :: nat
  ve_name :: u64
  ve_date_len :: nat
  ve_date :: u64
  ve_desc_len :: nat
  ve_desc :: u64

definition version_name :: string where
  "version_name = ''amdgpu''"

definition version_date :: string where
  "version_date = ''20150101''"

definition version_desc :: string where
  "version_desc = ''oops-mesa winsys over the platform graphics driver''"

definition version_copy :: "u64 \<Rightarrow> nat \<Rightarrow> string \<Rightarrow> (u64 \<times> string) list" where
  "version_copy p room s = (if p \<noteq> 0 \<and> length s \<le> room then [(p, s)] else [])"

definition oops_winsys_version :: "drm_version \<Rightarrow> (rc \<times> drm_version) \<times> (u64 \<times> string) list" where
  "oops_winsys_version arg =
     ((Ok, arg\<lparr>ve_version_major := 3, ve_version_minor := 54, ve_version_patchlevel := 0,
        ve_name_len := length version_name, ve_date_len := length version_date,
        ve_desc_len := length version_desc\<rparr>),
      version_copy (ve_name arg) (ve_name_len arg) version_name @
      version_copy (ve_date arg) (ve_date_len arg) version_date @
      version_copy (ve_desc arg) (ve_desc_len arg) version_desc)"

record drm_client =
  cl_idx :: int
  cl_auth :: int
  cl_pid :: u64
  cl_uid :: u64
  cl_magic :: u64
  cl_iocs :: u64

definition oops_winsys_get_client :: "drm_client \<Rightarrow> rc \<times> drm_client" where
  "oops_winsys_get_client arg =
     (if cl_idx arg \<noteq> 0 then (Err EINVAL, arg)
      else (Ok, arg\<lparr>cl_auth := 0, cl_pid := 0, cl_uid := 0, cl_magic := 0, cl_iocs := 0\<rparr>))"

datatype drm_cap =
    DRM_CAP_SYNCOBJ_TIMELINE | DRM_CAP_ADDFB2_MODIFIERS | DRM_CAP_PRIME | CAP_OTHER u64

definition oops_winsys_get_cap :: "drm_cap \<Rightarrow> rc \<times> u64 option" where
  "oops_winsys_get_cap c =
     (case c of
        DRM_CAP_SYNCOBJ_TIMELINE \<Rightarrow> (Ok, Some 0)
      | DRM_CAP_ADDFB2_MODIFIERS \<Rightarrow> (Ok, Some 0)
      | DRM_CAP_PRIME \<Rightarrow> (Ok, Some 0)
      | CAP_OTHER n \<Rightarrow> (Err EINVAL, None))"

record oops_winsys_pci =
  pci_domain :: u16
  pci_bus :: u8
  pci_dev :: u8
  pci_func :: u8
  pci_vendor_id :: u16
  pci_device_id :: u16
  pci_subvendor_id :: u16
  pci_subdevice_id :: u16
  pci_revision_id :: u8

definition oops_winsys_pci_device :: oops_winsys_pci where
  "oops_winsys_pci_device = \<lparr>pci_domain = 0, pci_bus = 0, pci_dev = 0, pci_func = 0,
     pci_vendor_id = 0x1002, pci_device_id = 0, pci_subvendor_id = 0x1002, pci_subdevice_id = 0,
     pci_revision_id = 0\<rparr>"

section \<open>The descriptor\<close>

text \<open>
  \<open>opened\<close> is what \<open>open\<close> on the title's eboot returns at this call, and \<open>is_open fd\<close> is
  whether \<open>fcntl(fd, F_GETFD)\<close> recognises a descriptor.
\<close>

definition OOPS_WINSYS_FD :: int where
  "OOPS_WINSYS_FD = 0x57"

definition OOPS_WINSYS_DEVICE_PATH :: string where
  "OOPS_WINSYS_DEVICE_PATH = ''/app0/eboot.bin''"

definition STDERR_FILENO :: int where
  "STDERR_FILENO = 2"

definition oops_winsys_claim_fd :: "int \<Rightarrow> (int \<Rightarrow> bool) \<Rightarrow> int \<Rightarrow> int" where
  "oops_winsys_claim_fd opened is_open s_winsys_fd =
     (if s_winsys_fd \<noteq> OOPS_WINSYS_FD then s_winsys_fd
      else if 0 \<le> opened then opened
      else if is_open STDERR_FILENO then STDERR_FILENO
      else s_winsys_fd)"

text \<open>Both answer with the descriptor or an error; the second component is \<open>s_winsys_fd\<close>.\<close>

definition oops_winsys_open :: "bool \<Rightarrow> int \<Rightarrow> (int \<Rightarrow> bool) \<Rightarrow> int \<Rightarrow> (errno + int) \<times> int" where
  "oops_winsys_open create_queue_bound opened is_open s_winsys_fd =
     (if \<not> create_queue_bound then (Inl ENODEV, s_winsys_fd)
      else let fd = oops_winsys_claim_fd opened is_open s_winsys_fd in (Inr fd, fd))"

definition oops_winsys_render_node :: string where
  "oops_winsys_render_node = OOPS_WINSYS_DEVICE_PATH"

definition oops_winsys_open_render_node ::
    "int \<Rightarrow> (int \<Rightarrow> bool) \<Rightarrow> (int \<Rightarrow> errno + int) \<Rightarrow> int \<Rightarrow> (errno + int) \<times> int" where
  "oops_winsys_open_render_node opened is_open dupfd s_winsys_fd =
     (let held = oops_winsys_claim_fd opened is_open s_winsys_fd in
      if held = OOPS_WINSYS_FD then (Inl ENODEV, held) else (dupfd held, held))"

definition oops_winsys_close :: "(int \<Rightarrow> bool) \<Rightarrow> int \<Rightarrow> int \<Rightarrow> rc" where
  "oops_winsys_close is_open s_winsys_fd fd =
     (if fd = s_winsys_fd \<or> is_open fd then Ok else Err EBADF)"

end
