(* ===== verification/Ioctl.thy ===== *)
theory Ioctl
  imports Device
begin

text \<open>
  The ioctl entry of \<open>src/src/winsys/drm_device.c\<close>: the descriptor gate and the dispatch
  onto the components. The whole device is the state of the submission component together
  with the two tables it does not touch and the descriptor in use. \<open>None\<close> is an ioctl that
  does not return.
\<close>

record device =
  dv_winsys :: winsys
  dv_syncobj :: syncobjs
  dv_list :: bo_lists
  dv_fd :: int

definition device_init :: device where
  "device_init = \<lparr>dv_winsys = winsys_init, dv_syncobj = (\<lambda>_. syncobj_zero),
     dv_list = (\<lambda>_. bo_list_zero), dv_fd = OOPS_WINSYS_FD\<rparr>"

text \<open>What the dispatch takes from the kernel besides the driver and the memory calls.\<close>

record kernel =
  kn_uapi :: uapi
  kn_direct_size :: "u64 option"
  kn_is_open :: "int \<Rightarrow> bool"

datatype unimplemented_command =
    WAIT_FENCES | FENCE_TO_HANDLE | VM | SCHED | GEM_METADATA | GEM_USERPTR | USERQ | USERQ_SIGNAL
  | USERQ_WAIT | GEM_FLINK | GEM_OPEN | SYNCOBJ_WAIT | SYNCOBJ_RESET | SYNCOBJ_SIGNAL

datatype request =
    IOCTL_AMDGPU_INFO drm_amdgpu_info
  | IOCTL_AMDGPU_GEM_CREATE gem_create_in
  | IOCTL_AMDGPU_GEM_MMAP u32
  | IOCTL_AMDGPU_GEM_VA drm_amdgpu_gem_va
  | IOCTL_AMDGPU_CS drm_amdgpu_cs_in
  | IOCTL_AMDGPU_WAIT_CS u64
  | IOCTL_AMDGPU_CTX drm_amdgpu_ctx_in
  | IOCTL_AMDGPU_BO_LIST drm_amdgpu_bo_list_in
  | IOCTL_AMDGPU_GEM_WAIT_IDLE u32
  | IOCTL_AMDGPU_GEM_OP u32 gem_op u64
  | IOCTL_GET_CLIENT drm_client
  | IOCTL_GET_CAP drm_cap
  | IOCTL_VERSION drm_version
  | IOCTL_GEM_CLOSE u32
  | IOCTL_SYNCOBJ_CREATE "drm_syncobj_create option"
  | IOCTL_SYNCOBJ_DESTROY "u32 option"
  | IOCTL_UNIMPLEMENTED unimplemented_command
  | IOCTL_OTHER u64

datatype reply =
    NoReply
  | Bytes u64 "u8 list"
  | Created u32
  | Cookie u64
  | Sequence u64
  | Status u64
  | Ctx ctx_out
  | List u32
  | Idle gem_wait_idle_out
  | CreateInfo gem_create_in
  | Client drm_client
  | Cap u64
  | Version drm_version "(u64 \<times> string) list"
  | Syncobj drm_syncobj_create

definition reply_of :: "('a \<Rightarrow> reply) \<Rightarrow> 'a option \<Rightarrow> reply" where
  "reply_of f x = (case x of None \<Rightarrow> NoReply | Some y \<Rightarrow> f y)"

text \<open>Commands answered from the state without changing it.\<close>

definition set_buf :: "buffers \<Rightarrow> device \<Rightarrow> device" where
  "set_buf b d = d\<lparr>dv_winsys := (dv_winsys d)\<lparr>w_buf := b\<rparr>\<rparr>"

definition dv_buf :: "device \<Rightarrow> buffers" where
  "dv_buf d = w_buf (dv_winsys d)"

definition ioctl_dispatch ::
    "platform \<Rightarrow> kernel \<Rightarrow> request \<Rightarrow> device \<Rightarrow> ((rc \<times> reply) \<times> device) option" where
  "ioctl_dispatch env kn req d =
     (case req of
        IOCTL_AMDGPU_INFO info \<Rightarrow>
          let (r, w) = oops_winsys_info (kn_uapi kn) (kn_direct_size kn) info (dv_buf d)
          in Some ((r, reply_of (\<lambda>(p, bs). Bytes p bs) w), d)
      | IOCTL_AMDGPU_GEM_CREATE a \<Rightarrow>
          let ((r, h), b) = oops_winsys_gem_create (pf_mem env) a (dv_buf d)
          in Some ((r, Created h), set_buf b d)
      | IOCTL_AMDGPU_GEM_MMAP h \<Rightarrow>
          let (r, c) = oops_winsys_gem_mmap h (dv_buf d) in Some ((r, reply_of Cookie c), d)
      | IOCTL_AMDGPU_GEM_VA a \<Rightarrow>
          map_option (\<lambda>(r, b). ((r, NoReply), set_buf b d)) (oops_winsys_gem_va (pf_mem env) a (dv_buf d))
      | IOCTL_AMDGPU_CS a \<Rightarrow>
          map_option (\<lambda>((r, h), w). ((r, reply_of Sequence h), d\<lparr>dv_winsys := w\<rparr>))
            (oops_winsys_cs env a (dv_winsys d))
      | IOCTL_AMDGPU_WAIT_CS h \<Rightarrow>
          let (r, st) = oops_winsys_wait_cs h (dv_winsys d) in Some ((r, reply_of Status st), d)
      | IOCTL_AMDGPU_CTX a \<Rightarrow>
          let ((r, out), t) = oops_winsys_ctx a (w_ctx (dv_winsys d))
          in Some ((r, Ctx out), d\<lparr>dv_winsys := (dv_winsys d)\<lparr>w_ctx := t\<rparr>\<rparr>)
      | IOCTL_AMDGPU_BO_LIST a \<Rightarrow>
          let ((r, h), t) = oops_winsys_bo_list (pf_load env (w_trace (dv_winsys d)))
                (oops_winsys_bo_is_live (dv_buf d)) a (dv_list d)
          in Some ((r, reply_of List h), d\<lparr>dv_list := t\<rparr>)
      | IOCTL_AMDGPU_GEM_WAIT_IDLE h \<Rightarrow>
          let (r, out) = oops_winsys_gem_wait_idle h (dv_buf d) in Some ((r, reply_of Idle out), d)
      | IOCTL_AMDGPU_GEM_OP h opn v \<Rightarrow>
          let (r, out) = oops_winsys_gem_op h opn v (dv_buf d) in Some ((r, reply_of CreateInfo out), d)
      | IOCTL_GET_CLIENT a \<Rightarrow>
          let (r, out) = oops_winsys_get_client a in Some ((r, Client out), d)
      | IOCTL_GET_CAP c \<Rightarrow>
          let (r, v) = oops_winsys_get_cap c in Some ((r, reply_of Cap v), d)
      | IOCTL_VERSION a \<Rightarrow>
          let ((r, out), ws) = oops_winsys_version a in Some ((r, Version out ws), d)
      | IOCTL_GEM_CLOSE h \<Rightarrow>
          map_option (\<lambda>(r, b). ((r, NoReply), set_buf b d)) (oops_winsys_gem_close h (dv_buf d))
      | IOCTL_SYNCOBJ_CREATE a \<Rightarrow>
          let (r, out, t) = oops_winsys_syncobj_create a (dv_syncobj d)
          in Some ((r, reply_of Syncobj out), d\<lparr>dv_syncobj := t\<rparr>)
      | IOCTL_SYNCOBJ_DESTROY a \<Rightarrow>
          let (r, t) = oops_winsys_syncobj_destroy a (dv_syncobj d)
          in Some ((r, NoReply), d\<lparr>dv_syncobj := t\<rparr>)
      | IOCTL_UNIMPLEMENTED c \<Rightarrow> Some ((Err ENOSYS, NoReply), d)
      | IOCTL_OTHER n \<Rightarrow> Some ((Err EINVAL, NoReply), d))"

definition oops_winsys_ioctl ::
    "platform \<Rightarrow> kernel \<Rightarrow> int \<Rightarrow> request \<Rightarrow> device \<Rightarrow> ((rc \<times> reply) \<times> device) option" where
  "oops_winsys_ioctl env kn fd req d =
     (if fd \<noteq> dv_fd d \<and> \<not> kn_is_open kn fd then Some ((Err EBADF, NoReply), d)
      else ioctl_dispatch env kn req d)"

end
