(* ===== verification/Submit_Chain.thy ===== *)
theory Submit_Chain
  imports Submit
begin

text \<open>
  What the chain walk finds. The packets of a stream are defined from its headers alone, and
  \<open>oops_winsys_find_chain\<close> is shown to return the first chain packet among them.
\<close>

section \<open>Packets\<close>

definition packet_len :: "u32 \<Rightarrow> nat" where
  "packet_len h =
     (if h = 0xffff1000 \<or> drop_bit 30 h = 2 then 1 else unat (drop_bit 16 h AND 0x3fff) + 2)"

text \<open>Where the \<open>k\<close>-th packet starts, and the starts a reader of \<open>n\<close> dwords gets to.\<close>

fun packet_pos :: "(nat \<Rightarrow> u32) \<Rightarrow> nat \<Rightarrow> nat" where
  "packet_pos dw 0 = 0"
| "packet_pos dw (Suc k) = packet_pos dw k + packet_len (dw (packet_pos dw k))"

definition packet_at :: "(nat \<Rightarrow> u32) \<Rightarrow> nat \<Rightarrow> nat \<Rightarrow> bool" where
  "packet_at dw n i \<longleftrightarrow> i < n \<and>
     (\<exists>k. i = packet_pos dw k \<and> (\<forall>m<k. drop_bit 30 (dw (packet_pos dw m)) \<noteq> 1))"

definition chain_at :: "(nat \<Rightarrow> u32) \<Rightarrow> nat \<Rightarrow> nat \<Rightarrow> bool" where
  "chain_at dw n i \<longleftrightarrow>
     drop_bit 30 (dw i) = 3 \<and> drop_bit 8 (dw i) AND 0xff = PM4_TYPE3_INDIRECT_BUFFER \<and> i + 3 < n"

lemma packet_len_pos: "0 < packet_len h"
  by (simp add: packet_len_def)

lemma unat_count_le: "x \<le> (0x3fff :: u32) \<Longrightarrow> unat x \<le> 0x3fff"
  by (simp add: word_le_nat_alt)

lemma packet_len_le: "packet_len h \<le> 0x4001"
proof -
  define c where "c = unat (drop_bit 16 h AND 0x3fff)"
  have "c \<le> 0x3fff" unfolding c_def by (rule unat_count_le) (rule word_and_le1)
  moreover have "packet_len h = (if h = 0xffff1000 \<or> drop_bit 30 h = 2 then 1 else c + 2)"
    unfolding packet_len_def c_def by (rule refl)
  ultimately show ?thesis by simp
qed

lemma packet_pos_mono: "k < l \<Longrightarrow> packet_pos dw k < packet_pos dw l"
  by (rule lift_Suc_mono_less [where f = "packet_pos dw"]) (simp_all add: packet_len_pos)

lemma packet_pos_inj: "packet_pos dw k < packet_pos dw l \<Longrightarrow> k < l"
  by (metis less_not_sym linorder_neqE_nat packet_pos_mono order_less_irrefl)

lemma packet_pos_eq: "packet_pos dw k = packet_pos dw l \<longleftrightarrow> k = l"
  using packet_pos_mono [of k l dw] packet_pos_mono [of l k dw]
  by (cases k l rule: linorder_cases) auto

lemma packet_pos_unbounded: "k \<le> packet_pos dw k"
proof (induction k)
  case (Suc k)
  have "packet_pos dw k < packet_pos dw (Suc k)" by (rule packet_pos_mono) simp
  with Suc show ?case by linarith
qed simp

section \<open>The walk\<close>

lemma unat_add_small:
  fixes i j :: u32
  assumes "unat i + unat j < 2 ^ 32"
  shows "unat (i + j) = unat i + unat j"
  using assms by (simp add: unat_word_ariths)

text \<open>One step of the walk, at the start of a packet that is neither a chain nor invalid.\<close>

lemma find_chain_step:
  assumes n: "unat n \<le> 2 ^ 30" and i: "i < n"
    and no: "drop_bit 30 (dw i) \<noteq> 1" "\<not> chain_at (dw \<circ> of_nat) (unat n) (unat i)"
  shows "find_chain_from dw n i = find_chain_from dw n (i + of_nat (packet_len (dw i)))"
    and "unat (i + of_nat (packet_len (dw i))) = unat i + packet_len (dw i)"
proof -
  let ?h = "dw i"
  have small: "unat i < 2 ^ 30" using n i by (simp add: word_less_nat_alt)
  have l: "unat (of_nat (packet_len ?h) :: u32) = packet_len ?h"
    using packet_len_le [of ?h] by (intro unat_of_nat_small) simp
  show "unat (i + of_nat (packet_len ?h)) = unat i + packet_len ?h"
    using small packet_len_le [of ?h] l by (subst unat_add_small) simp_all
  have i3: "unat (i + 3) = unat i + 3" using small by (subst unat_add_small) simp_all
  have "(i + 3 < n) = (unat i + 3 < unat n)" by (simp add: word_less_nat_alt i3)
  with no(2) have nc: "\<not> (drop_bit 30 ?h = 3 \<and>
      drop_bit 8 ?h AND 0xff = PM4_TYPE3_INDIRECT_BUFFER \<and> i + 3 < n)"
    by (auto simp: chain_at_def)
  show "find_chain_from dw n i = find_chain_from dw n (i + of_nat (packet_len ?h))"
  proof (cases "?h = 0xffff1000 \<or> drop_bit 30 ?h = 2")
    case True
    then show ?thesis
      using i by (subst find_chain_from.simps) (auto simp: packet_len_def)
  next
    case False
    then have "of_nat (packet_len ?h) = (drop_bit 16 ?h AND 0x3fff) + 2"
      by (simp add: packet_len_def)
    with False i no(1) nc show ?thesis
      by (subst find_chain_from.simps) auto
  qed
qed

lemma find_chain_from_spec:
  assumes n: "unat n \<le> 2 ^ 30" and dw': "dw' = dw \<circ> of_nat"
    and "unat i = packet_pos dw' k" and "\<forall>m<k. drop_bit 30 (dw' (packet_pos dw' m)) \<noteq> 1"
    and "\<forall>m<k. \<not> chain_at dw' (unat n) (packet_pos dw' m)"
  shows "\<exists>r. find_chain_from dw n i = Some r \<and>
    (if r < n then packet_at dw' (unat n) (unat r) \<and> chain_at dw' (unat n) (unat r) \<and>
         (\<forall>j<unat r. packet_at dw' (unat n) j \<longrightarrow> \<not> chain_at dw' (unat n) j)
     else r = n \<and> (\<forall>j. packet_at dw' (unat n) j \<longrightarrow> \<not> chain_at dw' (unat n) j))"
  using assms(3-5)
proof (induction "unat n - unat i" arbitrary: i k rule: less_induct)
  case less
  have dwi: "dw' (unat i) = dw i" by (simp add: dw')
  have before: "\<not> chain_at dw' (unat n) j" if "packet_at dw' (unat n) j" "j < unat i" for j
    using that less.prems packet_pos_inj by (auto simp: packet_at_def)
  show ?case
  proof (cases "i < n \<and> drop_bit 30 (dw i) \<noteq> 1 \<and> \<not> chain_at dw' (unat n) (unat i)")
    case True
    then have step: "find_chain_from dw n i = find_chain_from dw n (i + of_nat (packet_len (dw i)))"
      "unat (i + of_nat (packet_len (dw i))) = unat i + packet_len (dw i)"
      using find_chain_step [OF n, of i dw] by (simp_all add: dw')
    let ?i = "i + of_nat (packet_len (dw i))"
    have "unat n - unat ?i < unat n - unat i"
    proof -
      have "unat i < unat n" using True by (simp add: word_less_nat_alt)
      then show ?thesis using packet_len_pos [of "dw i"] step(2) by linarith
    qed
    moreover have "unat ?i = packet_pos dw' (Suc k)"
      using step(2) less.prems(1) dwi by simp
    moreover have "\<forall>m<Suc k. drop_bit 30 (dw' (packet_pos dw' m)) \<noteq> 1"
      "\<forall>m<Suc k. \<not> chain_at dw' (unat n) (packet_pos dw' m)"
      using less.prems True dwi by (auto simp: less_Suc_eq)
    ultimately show ?thesis unfolding step(1) by (rule less.hyps)
  next
    case False
    have at: "i < n \<Longrightarrow> packet_at dw' (unat n) (unat i)"
      using less.prems by (auto simp: packet_at_def word_less_nat_alt)
    have past: "\<not> packet_at dw' (unat n) j"
      if "\<not> i < n \<or> drop_bit 30 (dw i) = 1" "unat i < j" for j
    proof
      assume "packet_at dw' (unat n) j"
      then obtain l where l: "j < unat n" "j = packet_pos dw' l"
        "\<forall>m<l. drop_bit 30 (dw' (packet_pos dw' m)) \<noteq> 1" by (auto simp: packet_at_def)
      then have "k < l" using that(2) less.prems(1) packet_pos_inj by metis
      then have "drop_bit 30 (dw i) \<noteq> 1" using l(3) less.prems(1) dwi by metis
      with that l(1) show False by (simp add: word_less_nat_alt)
    qed
    consider (stop) "\<not> i < n \<or> drop_bit 30 (dw i) = 1" | (found) "i < n" "drop_bit 30 (dw i) \<noteq> 1"
      "chain_at dw' (unat n) (unat i)" using False by blast
    then show ?thesis
    proof cases
      case stop
      have "dw i \<noteq> 0xffff1000" if "drop_bit 30 (dw i) = 1" using that by auto
      then have "find_chain_from dw n i = Some n"
        using stop by (subst find_chain_from.simps) auto
      moreover have "\<not> chain_at dw' (unat n) j" if "packet_at dw' (unat n) j" for j
      proof (cases j "unat i" rule: linorder_cases)
        case equal
        then show ?thesis using stop that dwi by (auto simp: packet_at_def chain_at_def word_less_nat_alt)
      qed (use before past stop that in auto)
      ultimately show ?thesis by simp
    next
      case found
      have "unat i < 2 ^ 30" using n found(1) by (simp add: word_less_nat_alt)
      then have "unat (i + 3) = unat i + 3" by (subst unat_add_small) simp_all
      moreover have "dw i \<noteq> 0xffff1000"
        using found(3) dwi by (auto simp: chain_at_def PM4_TYPE3_INDIRECT_BUFFER_def)
      ultimately have "find_chain_from dw n i = Some i"
        using found dwi by (subst find_chain_from.simps) (auto simp: chain_at_def word_less_nat_alt)
      with at found before show ?thesis by auto
    qed
  qed
qed

section \<open>Only headers are looked at\<close>

lemma packet_atI:
  assumes "packet_at dw n (packet_pos dw k)" and "m \<le> k"
  shows "packet_at dw n (packet_pos dw m)" and "m < k \<Longrightarrow> drop_bit 30 (dw (packet_pos dw m)) \<noteq> 1"
proof -
  obtain l where l: "packet_pos dw k < n" "packet_pos dw k = packet_pos dw l"
    "\<forall>m<l. drop_bit 30 (dw (packet_pos dw m)) \<noteq> 1" using assms(1) by (auto simp: packet_at_def)
  then have "l = k" by (simp add: packet_pos_eq)
  then have ok: "drop_bit 30 (dw (packet_pos dw j)) \<noteq> 1" if "j < k" for j using l(3) that by blast
  have "packet_pos dw m \<le> packet_pos dw k"
    using assms(2) packet_pos_mono [of m k dw] by (cases "m = k") auto
  then have "packet_pos dw m < n" using l(1) by linarith
  then show "packet_at dw n (packet_pos dw m)"
    unfolding packet_at_def using ok assms(2) by (intro conjI exI [of _ m]) auto
  show "m < k \<Longrightarrow> drop_bit 30 (dw (packet_pos dw m)) \<noteq> 1" using ok by blast
qed

lemma packet_at_forward:
  assumes agree: "\<And>j. packet_at dw n j \<Longrightarrow> dw' j = dw j" and "packet_at dw n j"
  shows "packet_at dw' n j"
proof -
  obtain k where k: "j = packet_pos dw k" using assms(2) by (auto simp: packet_at_def)
  have pos: "packet_pos dw' m = packet_pos dw m" if "m \<le> k" for m
    using that
  proof (induction m)
    case (Suc m)
    then have "dw' (packet_pos dw m) = dw (packet_pos dw m)"
      using agree packet_atI(1) [of dw n k m] assms(2) k by simp
    with Suc show ?case by simp
  qed simp
  have "drop_bit 30 (dw' (packet_pos dw' m)) \<noteq> 1" if "m < k" for m
    using that pos [of m] agree packet_atI [of dw n k m] assms(2) k by simp
  moreover have "j < n" using assms(2) by (simp add: packet_at_def)
  ultimately show ?thesis
    unfolding packet_at_def using pos [of k] k by (intro conjI exI [of _ k]) auto
qed

lemma packet_at_backward:
  assumes agree: "\<And>j. packet_at dw n j \<Longrightarrow> dw' j = dw j" and "packet_at dw' n j"
  shows "packet_at dw n j"
proof -
  obtain k where k: "j = packet_pos dw' k" using assms(2) by (auto simp: packet_at_def)
  have "packet_pos dw m = packet_pos dw' m \<and> packet_at dw n (packet_pos dw m)" if "m \<le> k" for m
    using that
  proof (induction m)
    case 0
    have "0 < n" using assms(2) by (simp add: packet_at_def)
    then show ?case by (auto simp: packet_at_def intro: exI [of _ 0])
  next
    case (Suc m)
    then have IH: "packet_pos dw m = packet_pos dw' m" "packet_at dw n (packet_pos dw m)"
      by (meson Suc_leD)+
    then have eq: "packet_pos dw (Suc m) = packet_pos dw' (Suc m)" using agree by simp
    have k': "packet_at dw' n (packet_pos dw' k)" using assms(2) k by simp
    have "packet_at dw' n (packet_pos dw' (Suc m))" "drop_bit 30 (dw' (packet_pos dw' m)) \<noteq> 1"
      using packet_atI(1) [OF k' Suc.prems] packet_atI(2) [OF k', of m] Suc.prems by simp_all
    then have "packet_pos dw (Suc m) < n" "drop_bit 30 (dw (packet_pos dw m)) \<noteq> 1"
    proof -
      show "drop_bit 30 (dw (packet_pos dw m)) \<noteq> 1"
        using \<open>drop_bit 30 (dw' (packet_pos dw' m)) \<noteq> 1\<close> IH(1) agree [OF IH(2)] by simp
      show "packet_pos dw (Suc m) < n"
        using \<open>packet_at dw' n (packet_pos dw' (Suc m))\<close> unfolding eq packet_at_def by blast
    qed
    moreover have "\<forall>l<m. drop_bit 30 (dw (packet_pos dw l)) \<noteq> 1"
      using packet_atI(2) [of dw n m] IH(2) by auto
    ultimately show ?case
      using eq unfolding packet_at_def by (metis less_Suc_eq)
  qed
  then show ?thesis using k by (metis order_refl)
qed

lemma packet_at_cong:
  assumes "\<And>j. packet_at dw n j \<Longrightarrow> dw' j = dw j"
  shows "packet_at dw' n j \<longleftrightarrow> packet_at dw n j"
  using packet_at_forward [of dw n dw' j] packet_at_backward [of dw n dw' j] assms by blast

lemma find_chain_first_pre:
  assumes "unat n \<le> 2 ^ 30"
  shows "\<exists>r. oops_winsys_find_chain dw n = Some r \<and>
    (if r < n
     then packet_at (dw \<circ> of_nat) (unat n) (unat r) \<and> chain_at (dw \<circ> of_nat) (unat n) (unat r) \<and>
       (\<forall>j<unat r. packet_at (dw \<circ> of_nat) (unat n) j \<longrightarrow> \<not> chain_at (dw \<circ> of_nat) (unat n) j)
     else r = n \<and>
       (\<forall>j. packet_at (dw \<circ> of_nat) (unat n) j \<longrightarrow> \<not> chain_at (dw \<circ> of_nat) (unat n) j))"
  using find_chain_from_spec [OF assms refl, of 0 dw 0] by (simp add: oops_winsys_find_chain_def)

text \<open>
  C6. The chain walk ends on every stream that a 32-bit byte count can describe and returns
  the first packet that is a chain, or the length when no packet is: a dword is taken for a
  chain only where a packet starts, never in a payload.
\<close>

theorem find_chain_first:
  assumes "unat n \<le> 2 ^ 30"
  shows "\<exists>r. oops_winsys_find_chain dw n = Some r \<and>
    (if r < n
     then packet_at (dw \<circ> of_nat) (unat n) (unat r) \<and> chain_at (dw \<circ> of_nat) (unat n) (unat r) \<and>
       (\<forall>j<unat r. packet_at (dw \<circ> of_nat) (unat n) j \<longrightarrow> \<not> chain_at (dw \<circ> of_nat) (unat n) j)
     else r = n \<and>
       (\<forall>j. packet_at (dw \<circ> of_nat) (unat n) j \<longrightarrow> \<not> chain_at (dw \<circ> of_nat) (unat n) j))"
  using assms by (rule find_chain_first_pre)

theorem find_chain_first_witness:
  "unat (6 :: u32) \<le> 2 ^ 30 \<and> (\<exists>r. oops_winsys_find_chain
     (\<lambda>i. if i = 0 then 0xc0001000 else if i = 2 then 0xc0023f00 else 0xc0003f00) 6 = Some r \<and> r = 2)"
proof -
  let ?dw = "\<lambda>i :: u32. if i = 0 then 0xc0001000 else if i = 2 then 0xc0023f00 else 0xc0003f00 :: u32"
  have "oops_winsys_find_chain ?dw 6 = Some 2"
    unfolding oops_winsys_find_chain_def
    by (subst find_chain_from.simps, simp add: PM4_TYPE3_INDIRECT_BUFFER_def,
        subst find_chain_from.simps, simp add: PM4_TYPE3_INDIRECT_BUFFER_def)
  moreover have "unat (6 :: u32) \<le> 2 ^ 30" by simp
  moreover note find_chain_first [OF this, of ?dw]
  ultimately show ?thesis by blast
qed

text \<open>
  Payload words do not matter: two streams with the same header words, whatever their
  payloads hold, chain at the same place.
\<close>

theorem find_chain_headers_only:
  assumes n: "unat n \<le> 2 ^ 30"
    and agree: "\<And>j. packet_at (dw \<circ> of_nat) (unat n) j \<Longrightarrow> dw' (of_nat j) = dw (of_nat j)"
  shows "oops_winsys_find_chain dw' n = oops_winsys_find_chain dw n"
proof -
  let ?p = "packet_at (dw \<circ> of_nat) (unat n)"
  let ?c = "\<lambda>dw j. chain_at (dw \<circ> of_nat) (unat n) j"
  have at: "packet_at (dw' \<circ> of_nat) (unat n) j \<longleftrightarrow> ?p j" for j
    by (rule packet_at_cong) (use agree in auto)
  have ch: "?p j \<Longrightarrow> ?c dw' j \<longleftrightarrow> ?c dw j" for j
    using agree [of j] by (simp add: chain_at_def)
  obtain r r' where r: "oops_winsys_find_chain dw n = Some r" "oops_winsys_find_chain dw' n = Some r'"
    and s: "if r < n then ?p (unat r) \<and> ?c dw (unat r) \<and> (\<forall>j<unat r. ?p j \<longrightarrow> \<not> ?c dw j)
       else r = n \<and> (\<forall>j. ?p j \<longrightarrow> \<not> ?c dw j)"
      "if r' < n then ?p (unat r') \<and> ?c dw' (unat r') \<and> (\<forall>j<unat r'. ?p j \<longrightarrow> \<not> ?c dw' j)
       else r' = n \<and> (\<forall>j. ?p j \<longrightarrow> \<not> ?c dw' j)"
    using find_chain_first_pre [OF n, of dw] find_chain_first_pre [OF n, of dw'] unfolding at by blast
  have "r = r'"
  proof (cases "r < n"; cases "r' < n")
    assume "r < n" "r' < n"
    then have "\<not> unat r < unat r'" "\<not> unat r' < unat r" using s ch by auto
    then show "r = r'" by (simp add: word_unat_eq_iff)
  qed (use s ch in auto)
  with r show ?thesis by simp
qed

theorem find_chain_headers_only_witness:
  "oops_winsys_find_chain (\<lambda>i. if i = 0 then 0xc0001000 else 0xc0003f00) 2 =
   oops_winsys_find_chain (\<lambda>i. if i = 0 then 0xc0001000 else 7) 2"
proof (rule find_chain_headers_only)
  fix j
  let ?dw = "(\<lambda>i :: u32. if i = 0 then 0xc0001000 else 7 :: u32) \<circ> of_nat"
  assume "packet_at ?dw (unat (2 :: u32)) j"
  then obtain k where k: "j < 2" "j = packet_pos ?dw k" by (auto simp: packet_at_def)
  have "packet_pos ?dw 1 = 2" by (simp add: packet_len_def)
  then have "\<not> 1 \<le> k" using k packet_pos_mono [of 1 k ?dw] by (cases "k = 1") auto
  then have "k = 0" by simp
  with k(2) show "(if (of_nat j :: u32) = 0 then 0xc0001000 else 0xc0003f00) =
      (if (of_nat j :: u32) = 0 then 0xc0001000 else 7 :: u32)" by simp
qed simp

end
