(* ===== verification/Submit_Samples.thy ===== *)
theory Submit_Samples
  imports Submit_Chain
begin

text \<open>
  A concrete platform the properties of submission are applied to: a driver that accepts
  everything, fence memory at fixed addresses, a fence word that reads as fired, no clock,
  and memory that is otherwise full of one-dword filler packets.
\<close>

definition sample_platform :: platform where
  "sample_platform = \<lparr>
     pf_mem = \<lparr>mem_alloc_direct = (\<lambda>_ _ _. None), mem_map_direct = (\<lambda>_ _ _. None),
       mem_batch_map = (\<lambda>_ _ _ _ _. False)\<rparr>,
     pf_load = (\<lambda>tr a. if a = 0x1000 then 0xbeefcafe else 0x80000000),
     pf_trace_level = False,
     pf_agc_init = Some (\<lambda>_. 0),
     pf_create_queue = Some (\<lambda>_. (0, 1)),
     pf_submit_cb = Some (\<lambda>_ _ _ _. 0),
     pf_submit_dcb = None,
     pf_mem_alloc = (\<lambda>_ n _. if n = 64 then 0x1000 else 0x2000),
     pf_process_time = None\<rparr>"

definition sample_arg :: drm_amdgpu_cs_in where
  "sample_arg = \<lparr>cs_ctx_id = 1, cs_chunks = Some [Some (AMDGPU_CHUNK_ID_IB (Some (0x400000, 4)))]\<rparr>"

text \<open>The same platform, out of memory for the fence.\<close>

definition starved_platform :: platform where
  "starved_platform = sample_platform\<lparr>pf_mem_alloc := (\<lambda>_ _ _. 0)\<rparr>"

text \<open>The same platform with a fence word that never fires and a clock that a poll moves by ten seconds.\<close>

definition hung_platform :: platform where
  "hung_platform = sample_platform\<lparr>pf_load := (\<lambda>_ _. 0x80000000),
     pf_process_time := Some (\<lambda>tr. of_nat (length tr) * 10000000)\<rparr>"

lemma sample_submit_chain:
  assumes "env = sample_platform \<or> env = starved_platform \<or> env = hung_platform"
  shows "submit_chain env 0x400000 4 0 s = Some (0, emit (Submit 0x400000 1) s)"
proof -
  have "oops_winsys_find_chain (\<lambda>i. load_dw env (w_trace s) 0x400000 (unat i)) 1 = Some 1"
    unfolding oops_winsys_find_chain_def
    by (subst find_chain_from.simps, subst find_chain_from.simps)
      (use assms in \<open>auto simp: load_dw_def sample_platform_def starved_platform_def hung_platform_def\<close>)
  then show ?thesis
    using assms by (subst submit_chain.simps)
      (auto simp: OOPS_MAX_IB_CHAIN_def submit_one_def sample_platform_def starved_platform_def hung_platform_def Let_def)
qed

lemma sample_chunk_loop:
  assumes "env = sample_platform \<or> env = starved_platform \<or> env = hung_platform"
  shows "cs_chunk_loop env [Some (AMDGPU_CHUNK_ID_IB (Some (0x400000, 4)))] 0 None s =
    Some (Inr (1, None), emit (Submit 0x400000 1) s)"
proof -
  have "oops_winsys_note_marks env va b s = s" for va b
    using assms by (auto simp: oops_winsys_note_marks_def sample_platform_def starved_platform_def hung_platform_def)
  then show ?thesis using sample_submit_chain [OF assms] by simp
qed

lemma sample_ensure_queue:
  "ensure_queue sample_platform winsys_init =
     (True, winsys_init\<lparr>w_queue := 1, w_fence := 0x1000, w_fence_dcb := 0x2000\<rparr>)"
  by (simp add: ensure_queue_def sample_platform_def winsys_init_def Let_def)

lemma sample_retire:
  assumes "w_fence s = 0x1000" and "w_fence_dcb s = 0x2000"
  shows "\<exists>s'. cs_retire sample_platform cid None s = Some ((Ok, Some (w_sequence s + 1)), s')"
proof -
  have keep: "w_fence (store_words p ws s) = w_fence s \<and> w_sequence (store_words p ws s) = w_sequence s"
    for p ws and s :: winsys by (induction p ws s rule: store_words.induct) simp_all
  show ?thesis
    using assms
    by (simp add: cs_retire_def write_fence_stream_def submit_one_def cs_publish_def Let_def
        sample_platform_def OOPS_WINSYS_FENCE_POLLS_def OOPS_WINSYS_FENCE_FIRED_def keep)
qed

lemma sample_cs: "\<exists>s'. oops_winsys_cs sample_platform sample_arg winsys_init = Some ((Ok, Some 1), s')"
proof -
  let ?s0 = "winsys_init\<lparr>w_queue := 1, w_fence := 0x1000, w_fence_dcb := 0x2000\<rparr>"
  let ?s1 = "oops_winsys_clear_marks ?s0"
  let ?s3 = "emit (Submit 0x400000 1) (emit (Flush (oops_winsys_flush_cpu_writes (w_buf ?s1))) ?s1)"
  have "oops_winsys_cs sample_platform sample_arg winsys_init = cs_retire sample_platform 1 None ?s3"
    using sample_chunk_loop [of sample_platform]
    by (simp add: oops_winsys_cs_def sample_ensure_queue sample_arg_def Let_def)
  moreover have "w_fence ?s3 = 0x1000" "w_fence_dcb ?s3 = 0x2000" "w_sequence ?s3 = 0"
    by (simp_all add: oops_winsys_clear_marks_def winsys_init_def)
  ultimately show ?thesis using sample_retire [of ?s3 1] by simp
qed

lemma hung_retire:
  assumes "w_fence s = 0x1000" and "w_fence_dcb s = 0x2000"
  shows "\<exists>s'. cs_retire hung_platform cid None s = Some ((Err ETIMEDOUT, None), s')"
proof -
  have keep: "w_fence (store_words p ws s) = w_fence s" for p ws and s :: winsys
    by (induction p ws s rule: store_words.induct) simp_all
  show ?thesis
    using assms
    by (simp add: cs_retire_def write_fence_stream_def submit_one_def Let_def
        hung_platform_def sample_platform_def OOPS_WINSYS_FENCE_POLLS_def OOPS_WINSYS_FENCE_FIRED_def
        OOPS_WINSYS_FENCE_TIMEOUT_US_def keep)
qed

text \<open>A device whose first context is allocated.\<close>

definition one_context :: winsys where
  "one_context = winsys_init\<lparr>w_ctx := (\<lambda>_. ctx_zero)(0 := ctx_zero\<lparr>ctx_live := True\<rparr>)\<rparr>"

lemma hung_cs: "\<exists>s'. oops_winsys_cs hung_platform sample_arg one_context = Some ((Err ETIMEDOUT, None), s')"
proof -
  let ?s0 = "one_context\<lparr>w_queue := 1, w_fence := 0x1000, w_fence_dcb := 0x2000\<rparr>"
  let ?s1 = "oops_winsys_clear_marks ?s0"
  let ?s3 = "emit (Submit 0x400000 1) (emit (Flush (oops_winsys_flush_cpu_writes (w_buf ?s1))) ?s1)"
  have "ensure_queue hung_platform one_context = (True, ?s0)"
    by (simp add: ensure_queue_def hung_platform_def sample_platform_def one_context_def winsys_init_def Let_def)
  then have "oops_winsys_cs hung_platform sample_arg one_context = cs_retire hung_platform 1 None ?s3"
    using sample_chunk_loop [of hung_platform] by (simp add: oops_winsys_cs_def sample_arg_def Let_def)
  moreover have "w_fence ?s3 = 0x1000" "w_fence_dcb ?s3 = 0x2000"
    by (simp_all add: oops_winsys_clear_marks_def)
  ultimately show ?thesis using hung_retire [of ?s3 1] by simp
qed

lemma starved_first:
  "oops_winsys_cs starved_platform sample_arg winsys_init = Some ((Err ENODEV, None), winsys_init\<lparr>w_queue := 1\<rparr>)"
  by (simp add: oops_winsys_cs_def ensure_queue_def starved_platform_def sample_platform_def
      winsys_init_def Let_def)

lemma starved_second:
  "oops_winsys_cs starved_platform sample_arg (winsys_init\<lparr>w_queue := 1\<rparr>) = None"
proof -
  have "ensure_queue starved_platform (winsys_init\<lparr>w_queue := 1\<rparr>) = (True, winsys_init\<lparr>w_queue := 1\<rparr>)"
    by (simp add: ensure_queue_def)
  moreover have "cs_retire starved_platform 1 None (emit e (emit e' (oops_winsys_clear_marks (winsys_init\<lparr>w_queue := 1\<rparr>)))) = None"
    for e e' by (simp add: cs_retire_def oops_winsys_clear_marks_def winsys_init_def)
  ultimately show ?thesis
    using sample_chunk_loop [of starved_platform] by (simp add: oops_winsys_cs_def sample_arg_def Let_def)
qed

end
