(* ===== verification/Submit_Props.thy ===== *)
theory Submit_Props
  imports Submit_Samples
begin

text \<open>
  What a submission does, over the trace: every stream handed to the driver is free of chain
  packets, the sequence number is published only after the fence was read as fired, and a
  submission that fails publishes nothing.
\<close>

section \<open>Streams\<close>

definition submit_bound :: "platform \<Rightarrow> bool" where
  "submit_bound env \<longleftrightarrow> pf_submit_cb env \<noteq> None \<or> pf_submit_dcb env \<noteq> None"

definition chain_free :: "platform \<Rightarrow> trace \<Rightarrow> u64 \<Rightarrow> u32 \<Rightarrow> bool" where
  "chain_free env tr va n \<longleftrightarrow>
     (\<forall>j. packet_at (load_dw env tr va) (unat n) j \<longrightarrow> \<not> chain_at (load_dw env tr va) (unat n) j)"

lemma submit_one_bound:
  assumes "submit_bound env"
  shows "\<exists>r. submit_one env va bytes s = Some (r, emit (Submit va (bytes div 4)) s)"
  using assms by (auto simp: submit_bound_def submit_one_def Let_def split: option.split)

lemma packet_at_shorter: "packet_at dw m j \<Longrightarrow> m \<le> n \<Longrightarrow> packet_at dw n j"
  by (auto simp: packet_at_def)

lemma chain_at_shorter: "chain_at dw m j \<Longrightarrow> m \<le> n \<Longrightarrow> chain_at dw n j"
  by (auto simp: chain_at_def)

lemma words_of_bytes: "unat (i :: u32) < 2 ^ 30 \<Longrightarrow> i * 4 div 4 = i"
proof -
  assume "unat i < 2 ^ 30"
  then have "unat (i * 4) = unat i * 4" by (simp add: unat_word_ariths)
  then show "i * 4 div 4 = i" by (simp add: word_unat_eq_iff unat_div)
qed

lemma dwords_small: "unat ((bytes :: u32) div 4) \<le> 2 ^ 30"
proof -
  have "unat bytes < 2 ^ 32" using unsigned_less [where ?'a = nat, of bytes] by simp
  then show ?thesis by (simp add: unat_div)
qed

text \<open>The walk over a stream in memory: the part before the first chain packet has none.\<close>

lemma find_chain_stream:
  assumes "unat n \<le> 2 ^ 30"
  obtains i where "oops_winsys_find_chain (\<lambda>i. load_dw env tr va (unat i)) n = Some i" "i \<le> n"
    "chain_free env tr va i"
proof -
  let ?dw = "\<lambda>i :: u32. load_dw env tr va (unat i)"
  let ?m = "load_dw env tr va"
  have eq: "(?dw \<circ> of_nat) j = ?m j" if "j < unat n" for j
    using that assms by (simp add: unat_of_nat_small)
  have at: "packet_at ?m (unat n) j \<longleftrightarrow> packet_at (?dw \<circ> of_nat) (unat n) j" for j
    by (rule packet_at_cong) (use eq in \<open>auto simp: packet_at_def\<close>)
  have ch: "packet_at ?m (unat n) j \<Longrightarrow> chain_at ?m (unat n) j \<longleftrightarrow> chain_at (?dw \<circ> of_nat) (unat n) j" for j
    using eq [of j] by (auto simp: packet_at_def chain_at_def)
  obtain r where r: "oops_winsys_find_chain ?dw n = Some r" and
    s: "if r < n
     then packet_at (?dw \<circ> of_nat) (unat n) (unat r) \<and> chain_at (?dw \<circ> of_nat) (unat n) (unat r) \<and>
       (\<forall>j<unat r. packet_at (?dw \<circ> of_nat) (unat n) j \<longrightarrow> \<not> chain_at (?dw \<circ> of_nat) (unat n) j)
     else r = n \<and>
       (\<forall>j. packet_at (?dw \<circ> of_nat) (unat n) j \<longrightarrow> \<not> chain_at (?dw \<circ> of_nat) (unat n) j)"
    using find_chain_first_pre [OF assms, of ?dw] by blast
  have le: "r \<le> n" using s by (auto split: if_splits)
  then have len: "unat r \<le> unat n" by (simp add: word_le_nat_alt)
  have "\<not> chain_at ?m (unat r) j" if j: "packet_at ?m (unat r) j" for j
  proof
    assume "chain_at ?m (unat r) j"
    then have "chain_at (?dw \<circ> of_nat) (unat n) j" "packet_at (?dw \<circ> of_nat) (unat n) j" "j < unat r"
      using j len ch [of j] at [of j] packet_at_shorter [OF j] chain_at_shorter [of ?m _ j]
      by (auto simp: packet_at_def)
    then show False using s by (auto split: if_splits)
  qed
  with r le show thesis by (intro that [of r]) (auto simp: chain_free_def)
qed

text \<open>
  The events \<open>es\<close>, on top of the trace \<open>base\<close>, are streams handed to the driver, none of
  which held a chain packet at that moment.
\<close>

fun streams_ok :: "platform \<Rightarrow> trace \<Rightarrow> trace \<Rightarrow> bool" where
  "streams_ok env [] base = True"
| "streams_ok env (e # es) base =
     ((case e of Submit v n \<Rightarrow> chain_free env (es @ base) v n | _ \<Rightarrow> False) \<and> streams_ok env es base)"

lemma streams_ok_append:
  "streams_ok env (es @ pre) base \<longleftrightarrow> streams_ok env es (pre @ base) \<and> streams_ok env pre base"
  by (induction es) (auto split: event.splits)

lemma submit_prefix:
  assumes "submit_bound env" and "unat i < 2 ^ 30" and "chain_free env (w_trace s) va i"
  obtains r pre where "(if 0 < i then submit_one env va (i * 4) s else Some (0, s)) =
      Some (r, s\<lparr>w_trace := pre @ w_trace s\<rparr>)" "length pre \<le> 1" "streams_ok env pre (w_trace s)"
proof (cases "0 < i")
  case True
  obtain r where "submit_one env va (i * 4) s = Some (r, emit (Submit va i) s)"
    using submit_one_bound [OF assms(1), of va "i * 4" s] words_of_bytes [OF assms(2)] by auto
  with True assms(3) show thesis by (intro that [of r "[Submit va i]"]) (auto simp: emit_def)
qed (auto intro: that [of 0 "[]"])

lemma submit_chain_streams:
  assumes "submit_bound env"
  shows "\<exists>r es. submit_chain env va bytes depth s = Some (r, s\<lparr>w_trace := es @ w_trace s\<rparr>) \<and>
    length es \<le> OOPS_MAX_IB_CHAIN - depth \<and> streams_ok env es (w_trace s)"
  using assms
proof (induction env va bytes depth s rule: submit_chain.induct)
  case (1 env va bytes depth s)
  let ?n = "bytes div 4"
  let ?dw = "\<lambda>i. load_dw env (w_trace s) va (unat i)"
  show ?case
  proof (cases "OOPS_MAX_IB_CHAIN \<le> depth")
    case True
    then show ?thesis by (subst submit_chain.simps) (auto intro: exI [of _ "[]"])
  next
    case deep: False
    obtain i where i: "oops_winsys_find_chain ?dw ?n = Some i" "i \<le> ?n"
      "chain_free env (w_trace s) va i"
      using find_chain_stream [OF dwords_small] by blast
    show ?thesis
    proof (cases "?n \<le> i")
      case True
      with i(2) have "i = ?n" by simp
      obtain r where "submit_one env va bytes s = Some (r, emit (Submit va ?n) s)"
        using submit_one_bound [OF "1.prems"] by blast
      then have "submit_chain env va bytes depth s = Some (r, emit (Submit va ?n) s)"
        using deep i(1) True by (subst submit_chain.simps) (simp add: Let_def)
      then show ?thesis
        using i(3) \<open>i = ?n\<close> deep by (intro exI [of _ r] exI [of _ "[Submit va ?n]"]) (auto simp: emit_def)
    next
      case inner: False
      have small: "unat i < 2 ^ 30"
        using inner dwords_small [of bytes] by (simp add: word_le_nat_alt)
      obtain r pre where s1: "(if 0 < i then submit_one env va (i * 4) s else Some (0, s)) =
          Some (r, s\<lparr>w_trace := pre @ w_trace s\<rparr>)" (is "_ = Some (r, ?s1)")
        and pre: "length pre \<le> 1" "streams_ok env pre (w_trace s)"
        using submit_prefix [OF "1.prems" small i(3)] by blast
      let ?t = "ucast (?dw (i + 1)) OR push_bit 32 (ucast (?dw (i + 2)))"
      let ?m = "?dw (i + 3) AND PM4_IB_SIZE_MASK"
      have step: "submit_chain env va bytes depth s =
          (if r \<noteq> 0 then Some (neg_EIO, ?s1) else if ?m = 0 then Some (0, ?s1)
           else submit_chain env ?t (?m * 4) (depth + 1) ?s1)"
        using deep i(1) inner s1 by (subst submit_chain.simps) (simp add: Let_def)
      show ?thesis
      proof (cases "r \<noteq> 0 \<or> ?m = 0")
        case True
        then have "submit_chain env va bytes depth s = Some (if r \<noteq> 0 then neg_EIO else 0, ?s1)"
          using step by auto
        then show ?thesis using pre deep
          by (intro exI [of _ "if r \<noteq> 0 then neg_EIO else 0"] exI [of _ pre]) auto
      next
        case False
        then obtain r' es where "submit_chain env ?t (?m * 4) (depth + 1) ?s1 =
            Some (r', s\<lparr>w_trace := es @ pre @ w_trace s\<rparr>)"
          "length es \<le> OOPS_MAX_IB_CHAIN - (depth + 1)" "streams_ok env es (pre @ w_trace s)"
          using "1.IH" [OF deep refl refl i(1) inner refl refl s1 refl] "1.prems" by auto
        then show ?thesis
          using step False pre deep
          by (intro exI [of _ r'] exI [of _ "es @ pre"]) (auto simp: streams_ok_append)
      qed
    qed
  qed
qed

text \<open>
  C5. Following a chain ends: at most sixteen streams reach the driver whatever the links
  say, and no stream handed over contains a chain packet at the moment it is handed over, so
  the command processor never follows one. Nothing but the trace changes.
\<close>

theorem submit_chain_bounded:
  assumes "submit_bound env"
  shows "\<exists>r es. submit_chain env va bytes 0 s = Some (r, s\<lparr>w_trace := es @ w_trace s\<rparr>) \<and>
    length es \<le> 16 \<and> streams_ok env es (w_trace s)"
  using submit_chain_streams [OF assms, of va bytes 0 s] by (simp add: OOPS_MAX_IB_CHAIN_def)

theorem submit_chain_bounded_witness:
  "\<exists>r es. submit_chain sample_platform 0x400000 4 0 winsys_init =
     Some (r, winsys_init\<lparr>w_trace := es @ w_trace winsys_init\<rparr>) \<and> length es \<le> 16 \<and>
     streams_ok sample_platform es (w_trace winsys_init)"
  by (rule submit_chain_bounded) (simp add: submit_bound_def sample_platform_def)

section \<open>What the steps of a submission leave alone\<close>

text \<open>
  \<open>quiet s s'\<close>: between the two states no 64-bit store was made and no fence was read, and
  of the static variables of \<open>submit.c\<close> and the contexts nothing changed.
\<close>

definition quiet_event :: "event \<Rightarrow> bool" where
  "quiet_event e = (case e of Store64 _ _ \<Rightarrow> False | Poll _ \<Rightarrow> False | _ \<Rightarrow> True)"

definition quiet :: "winsys \<Rightarrow> winsys \<Rightarrow> bool" where
  "quiet s s' \<longleftrightarrow>
     w_ctx s' = w_ctx s \<and> w_queue s' = w_queue s \<and> w_fence s' = w_fence s \<and>
     w_fence_dcb s' = w_fence_dcb s \<and> w_sequence s' = w_sequence s \<and> w_slowest_us s' = w_slowest_us s \<and>
     (\<exists>es. w_trace s' = es @ w_trace s \<and> list_all quiet_event es)"

lemma quiet_refl [simp]: "quiet s s"
  by (simp add: quiet_def)

lemma quiet_trans [trans]: "quiet s s' \<Longrightarrow> quiet s' s'' \<Longrightarrow> quiet s s''"
  by (auto simp: quiet_def)

lemma quiet_emit: "quiet_event e \<Longrightarrow> quiet s (emit e s)"
  by (auto simp: quiet_def intro: exI [of _ "[e]"])

lemma quiet_clear_marks: "quiet s (oops_winsys_clear_marks s)"
  by (simp add: quiet_def oops_winsys_clear_marks_def)

lemma quiet_only_marks: "only_marks s s' \<Longrightarrow> quiet s s'"
proof -
  assume a: "only_marks s s'"
  then obtain ps where "w_trace s' = map (\<lambda>p. Store32 p 0x0bad0bad) ps @ w_trace s"
    by (auto simp: only_marks_def poison_only_def)
  moreover have "list_all quiet_event (map (\<lambda>p. Store32 p 0x0bad0bad) ps)"
    by (simp add: list_all_iff quiet_event_def)
  ultimately show "quiet s s'" using a unfolding quiet_def only_marks_def by blast
qed

lemma quiet_submit_one: "submit_one env va bytes s = Some (r, s') \<Longrightarrow> quiet s s'"
  by (auto simp: submit_one_def Let_def quiet_event_def intro!: quiet_emit split: option.splits)

lemma streams_quiet: "streams_ok env es base \<Longrightarrow> list_all quiet_event es"
  by (induction es) (auto simp: quiet_event_def split: event.splits)

lemma quiet_submit_chain:
  assumes "submit_bound env" and "submit_chain env va bytes depth s = Some (r, s')"
  shows "quiet s s'"
  using submit_chain_streams [OF assms(1), of va bytes depth s] assms(2)
  by (auto simp: quiet_def dest: streams_quiet)

text \<open>A chunk is an instruction buffer to submit, or it leaves the state alone.\<close>

lemma cs_chunk_cases:
  obtains (ib) va b where "c = Some (AMDGPU_CHUNK_ID_IB (Some (va, b)))" "b \<noteq> 0"
      "cs_chunk_loop env (c # cs) k f s =
        (case submit_chain env va b 0 (oops_winsys_note_marks env va b s) of
           None \<Rightarrow> None
         | Some (r, s1) \<Rightarrow> if r \<noteq> 0 then Some (Inl EIO, s1) else cs_chunk_loop env cs (k + 1) f s1)"
  | (other) f' where "cs_chunk_loop env (c # cs) k f s = cs_chunk_loop env cs k f' s"
proof (cases c)
  case (Some ch)
  show thesis
  proof (cases ch)
    case (AMDGPU_CHUNK_ID_IB x)
    show thesis
    proof (cases "\<exists>va b. x = Some (va, b) \<and> b \<noteq> 0")
      case True
      then show thesis using Some AMDGPU_CHUNK_ID_IB ib by auto
    next
      case False
      then show thesis using Some AMDGPU_CHUNK_ID_IB by (intro other [of f]) (cases x, auto)
    qed
  next
    case (AMDGPU_CHUNK_ID_FENCE x)
    then show thesis using Some that by (cases x) auto
  qed (use Some that in auto)
qed (use that in auto)

lemma chunk_loop_total:
  assumes "submit_bound env"
  shows "\<exists>x s'. cs_chunk_loop env cs k f s = Some (x, s') \<and> quiet s s' \<and> (\<forall>e. x = Inl e \<longrightarrow> e = EIO)"
proof (induction cs arbitrary: k f s)
  case Nil
  then show ?case by simp
next
  case (Cons c cs)
  show ?case
  proof (cases rule: cs_chunk_cases [of c env cs k f s])
    case (ib va b)
    let ?m = "oops_winsys_note_marks env va b s"
    obtain r s1 where s1: "submit_chain env va b 0 ?m = Some (r, s1)"
      using submit_chain_streams [OF assms, of va b 0 ?m] by blast
    have "quiet s ?m" by (rule quiet_only_marks) (rule note_marks_only_marks)
    then have q: "quiet s s1" using quiet_submit_chain [OF assms s1] by (rule quiet_trans)
    show ?thesis
    proof (cases "r = 0")
      case True
      with Cons.IH [of "k + 1" f s1] obtain x s' where "cs_chunk_loop env cs (k + 1) f s1 = Some (x, s')"
        "quiet s1 s'" "\<forall>e. x = Inl e \<longrightarrow> e = EIO" by blast
      then show ?thesis using True ib(3) s1 quiet_trans [OF q] by simp
    qed (use ib(3) s1 q in simp)
  next
    case (other f')
    then show ?thesis using Cons.IH [of k f' s] by simp
  qed
qed

lemma quiet_store_words: "quiet s (store_words p ws s)"
proof (induction p ws s rule: store_words.induct)
  case (2 p w ws s)
  have "quiet s (emit (Store32 p w) s)" by (rule quiet_emit) (simp add: quiet_event_def)
  then show ?case using 2 quiet_trans by simp
qed simp

lemma quiet_write_fence_stream: "quiet s (snd (write_fence_stream dcb fence s))"
proof -
  have "quiet (store_words dcb ws s) (emit (Flush ls) (store_words dcb ws s))" for ws ls
    by (rule quiet_emit) (simp add: quiet_event_def)
  then show ?thesis
    by (auto simp: write_fence_stream_def Let_def intro: quiet_trans [OF quiet_store_words])
qed

text \<open>The wait only reads the fence word, at most as often as its bound.\<close>

lemma poll_fence_trace:
  "poll_fence env st k w s = ((fired, wt), s') \<Longrightarrow>
    \<exists>vs. s' = s\<lparr>w_trace := map Poll vs @ w_trace s\<rparr> \<and> length vs \<le> k \<and>
      (if fired then \<exists>us. vs = OOPS_WINSYS_FENCE_FIRED # us \<and> OOPS_WINSYS_FENCE_FIRED \<notin> set us
       else OOPS_WINSYS_FENCE_FIRED \<notin> set vs)"
proof (induction env st k w s rule: poll_fence.induct)
  case (1 env st w s)
  then show ?case by simp
next
  case (2 env st k w s)
  let ?w = "case pf_process_time env of Some now \<Rightarrow> now (w_trace s) - st | None \<Rightarrow> w"
  let ?v = "pf_load env (w_trace s) (w_fence s)"
  let ?s = "emit (Poll ?v) s"
  have one: "?s = s\<lparr>w_trace := map Poll [?v] @ w_trace s\<rparr>" by (simp add: emit_def)
  consider (fired) "?v = OOPS_WINSYS_FENCE_FIRED" "fired" "s' = ?s"
    | (late) "?v \<noteq> OOPS_WINSYS_FENCE_FIRED" "\<not> fired" "s' = ?s"
    | (again) "?v \<noteq> OOPS_WINSYS_FENCE_FIRED" "\<not> OOPS_WINSYS_FENCE_TIMEOUT_US < ?w"
        "poll_fence env st k ?w ?s = ((fired, wt), s')"
    using "2.prems" by (auto simp: Let_def split: if_splits)
  then show ?case
  proof cases
    case fired
    then show ?thesis using one by (intro exI [of _ "[?v]"]) simp
  next
    case late
    then show ?thesis using one by (intro exI [of _ "[?v]"]) auto
  next
    case again
    then obtain vs where vs: "s' = ?s\<lparr>w_trace := map Poll vs @ w_trace ?s\<rparr>" "length vs \<le> k"
      "if fired then \<exists>us. vs = OOPS_WINSYS_FENCE_FIRED # us \<and> OOPS_WINSYS_FENCE_FIRED \<notin> set us
       else OOPS_WINSYS_FENCE_FIRED \<notin> set vs"
      using "2.IH" [OF refl refl refl again(1,2) again(3)] by blast
    then show ?thesis
      using again(1) by (intro exI [of _ "vs @ [?v]"]) (auto simp: emit_def split: if_splits)
  qed
qed

section \<open>The submission ioctl\<close>

text \<open>
  The queue is usable: it exists only together with its fence memory. \<open>ensure_queue\<close> gives
  this as long as the fence allocations are not refused.
\<close>

definition queue_ok :: "platform \<Rightarrow> winsys \<Rightarrow> bool" where
  "queue_ok env s \<longleftrightarrow> (w_queue s \<noteq> 0 \<longrightarrow> submit_bound env \<and> w_fence s \<noteq> 0 \<and> w_fence_dcb s \<noteq> 0)"

lemma ensure_queue_same:
  assumes "ensure_queue env s = (b, s0)"
  shows "w_ctx s0 = w_ctx s \<and> w_sequence s0 = w_sequence s \<and> w_trace s0 = w_trace s \<and>
    w_buf s0 = w_buf s \<and> w_slowest_us s0 = w_slowest_us s"
  using assms by (auto simp: ensure_queue_def Let_def split: if_splits option.splits prod.splits)

lemma ensure_queue_ready:
  assumes "ensure_queue env s = (True, s0)" and "queue_ok env s"
  shows "w_queue s0 \<noteq> 0 \<and> queue_ok env s0"
  using assms
  by (auto simp: ensure_queue_def queue_ok_def submit_bound_def Let_def
      split: if_splits option.splits prod.splits)

text \<open>What the retirement part does, on each of its three outcomes.\<close>

lemma cs_publish_trace:
  assumes "cs_publish env uf s = ((r, h), s')"
  shows "r = Ok \<and> h = Some (w_sequence s + 1) \<and> w_sequence s' = w_sequence s + 1 \<and> w_ctx s' = w_ctx s \<and>
    w_queue s' = w_queue s \<and> w_fence s' = w_fence s \<and> w_fence_dcb s' = w_fence_dcb s \<and>
    (w_trace s' = w_trace s \<or>
      (\<exists>slot handle off. uf = Some (handle, off) \<and> slot \<noteq> 0 \<and>
         fst (oops_winsys_bo_cpu_range (pf_mem env) handle off 8 (w_buf s)) = slot \<and>
         w_trace s' = Store64 slot (w_sequence s + 1) # w_trace s))"
  using assms
  by (auto simp: cs_publish_def Let_def split: option.splits prod.splits if_splits)

definition unpublished :: "event \<Rightarrow> bool" where
  "unpublished e \<longleftrightarrow> e \<noteq> Poll OOPS_WINSYS_FENCE_FIRED \<and> (\<forall>a v. e \<noteq> Store64 a v)"

lemma quiet_unpublished: "list_all quiet_event es \<Longrightarrow> list_all unpublished es"
  by (auto simp: list_all_iff quiet_event_def unpublished_def)

lemma polls_unpublished:
  "OOPS_WINSYS_FENCE_FIRED \<notin> set vs \<Longrightarrow> list_all unpublished (map Poll vs)"
  by (auto simp: list_all_iff unpublished_def)

text \<open>Same static variables, apart from the slowest submission, and events \<open>es\<close> on the trace.\<close>

definition adds_events :: "winsys \<Rightarrow> trace \<Rightarrow> winsys \<Rightarrow> bool" where
  "adds_events s es s' \<longleftrightarrow>
     w_ctx s' = w_ctx s \<and> w_queue s' = w_queue s \<and> w_fence s' = w_fence s \<and>
     w_fence_dcb s' = w_fence_dcb s \<and> w_sequence s' = w_sequence s \<and> w_trace s' = es @ w_trace s"

lemma quiet_adds_events: "quiet s s' \<Longrightarrow> \<exists>es. adds_events s es s' \<and> list_all unpublished es"
  by (auto simp: quiet_def adds_events_def intro: quiet_unpublished)

lemma adds_events_trans: "adds_events s es s' \<Longrightarrow> adds_events s' fs s'' \<Longrightarrow> adds_events s (fs @ es) s''"
  by (simp add: adds_events_def)

text \<open>Arming the fence and handing over its stream.\<close>

lemma fence_stream_submitted:
  assumes "submit_bound env" and "w_fence s \<noteq> 0" and "w_fence_dcb s \<noteq> 0"
  obtains r :: int and s3 where "quiet s s3"
    "cs_retire env cid uf s = (if r \<noteq> 0 then Some ((Err EIO, None), s3) else
       let start_us = (case pf_process_time env of Some now \<Rightarrow> now (w_trace s3) | None \<Rightarrow> 0);
           ((fired, waited_us), s4) = poll_fence env start_us OOPS_WINSYS_FENCE_POLLS 0 s3;
           s5 = (if fired \<and> OOPS_WINSYS_SLOW_US < waited_us \<and> w_slowest_us s4 < waited_us
                 then s4\<lparr>w_slowest_us := waited_us\<rparr> else s4)
       in if \<not> fired
          then Some ((Err ETIMEDOUT, None), s5\<lparr>w_ctx := oops_winsys_ctx_note_hang cid (w_ctx s5)\<rparr>)
          else Some (cs_publish env uf s5))"
proof -
  let ?s1 = "emit (Flush [w_fence s]) (emit (Store32 (w_fence s) OOPS_WINSYS_FENCE_ARMED) s)"
  obtain ws s2 where s2: "write_fence_stream (w_fence_dcb s) (w_fence s) ?s1 = (ws, s2)" by fastforce
  obtain r where r: "submit_one env (w_fence_dcb s) (ws * 4) s2 =
      Some (r, emit (Submit (w_fence_dcb s) (ws * 4 div 4)) s2)"
    using submit_one_bound [OF assms(1)] by blast
  have "quiet s (emit (Store32 (w_fence s) OOPS_WINSYS_FENCE_ARMED) s)"
    by (rule quiet_emit) (simp add: quiet_event_def)
  also have "quiet \<dots> ?s1" by (rule quiet_emit) (simp add: quiet_event_def)
  also have "quiet ?s1 s2" using quiet_write_fence_stream [of ?s1] s2 by (metis snd_conv)
  also have "quiet s2 (emit (Submit (w_fence_dcb s) (ws * 4 div 4)) s2)"
    by (rule quiet_emit) (simp add: quiet_event_def)
  finally show thesis
    by (rule that [of _ r]) (use assms s2 r in \<open>simp add: cs_retire_def Let_def\<close>)
qed

lemma cs_retire_outcome:
  assumes "submit_bound env" and "w_fence s \<noteq> 0" and "w_fence_dcb s \<noteq> 0"
  obtains (refused) es s' where "cs_retire env cid uf s = Some ((Err EIO, None), s')"
      "adds_events s es s'" "list_all unpublished es"
  | (lost) es s4 where "adds_events s es s4" "list_all unpublished es"
      "cs_retire env cid uf s =
        Some ((Err ETIMEDOUT, None), s4\<lparr>w_ctx := oops_winsys_ctx_note_hang cid (w_ctx s4)\<rparr>)"
  | (retired) es s5 where "adds_events s (Poll OOPS_WINSYS_FENCE_FIRED # es) s5"
      "list_all unpublished es" "cs_retire env cid uf s = Some (cs_publish env uf s5)"
proof -
  obtain r :: int and s3 where q: "quiet s s3" and ret: "cs_retire env cid uf s = (if r \<noteq> 0 then Some ((Err EIO, None), s3) else
       let start_us = (case pf_process_time env of Some now \<Rightarrow> now (w_trace s3) | None \<Rightarrow> 0);
           ((fired, waited_us), s4) = poll_fence env start_us OOPS_WINSYS_FENCE_POLLS 0 s3;
           s5 = (if fired \<and> OOPS_WINSYS_SLOW_US < waited_us \<and> w_slowest_us s4 < waited_us
                 then s4\<lparr>w_slowest_us := waited_us\<rparr> else s4)
       in if \<not> fired
          then Some ((Err ETIMEDOUT, None), s5\<lparr>w_ctx := oops_winsys_ctx_note_hang cid (w_ctx s5)\<rparr>)
          else Some (cs_publish env uf s5))"
    by (rule fence_stream_submitted [OF assms])
  obtain es3 where e3: "adds_events s es3 s3" "list_all unpublished es3"
    using quiet_adds_events [OF q] by blast
  show thesis
  proof (cases "r = 0")
    case False
    with ret e3 refused show thesis by simp
  next
    case True
    let ?st = "case pf_process_time env of Some now \<Rightarrow> now (w_trace s3) | None \<Rightarrow> 0"
    obtain fired wt s4 where p: "poll_fence env ?st OOPS_WINSYS_FENCE_POLLS 0 s3 = ((fired, wt), s4)"
      by (metis prod.exhaust)
    let ?s5 = "if fired \<and> OOPS_WINSYS_SLOW_US < wt \<and> w_slowest_us s4 < wt
      then s4\<lparr>w_slowest_us := wt\<rparr> else s4"
    obtain vs where vs: "s4 = s3\<lparr>w_trace := map Poll vs @ w_trace s3\<rparr>"
      "if fired then \<exists>us. vs = OOPS_WINSYS_FENCE_FIRED # us \<and> OOPS_WINSYS_FENCE_FIRED \<notin> set us
       else OOPS_WINSYS_FENCE_FIRED \<notin> set vs"
      using poll_fence_trace [OF p] by blast
    have ae: "adds_events s (map Poll vs @ es3) ?s5"
      by (rule adds_events_trans [OF e3(1)]) (simp add: vs(1) adds_events_def)
    show thesis
    proof (cases fired)
      case False
      with ret True p have "cs_retire env cid uf s =
          Some ((Err ETIMEDOUT, None), s4\<lparr>w_ctx := oops_winsys_ctx_note_hang cid (w_ctx s4)\<rparr>)" by simp
      then show thesis
        using lost [of "map Poll vs @ es3" s4] ae False vs(2) e3(2) polls_unpublished [of vs] by simp
    next
      case fire: True
      then obtain us where us: "vs = OOPS_WINSYS_FENCE_FIRED # us" "OOPS_WINSYS_FENCE_FIRED \<notin> set us"
        using vs(2) by auto
      have "cs_retire env cid uf s = Some (cs_publish env uf ?s5)" using ret True p fire by simp
      then show thesis
        using retired [of "map Poll us @ es3" ?s5] ae us e3(2) polls_unpublished [of us] by simp
    qed
  qed
qed

text \<open>The chunk part, up to the retirement.\<close>

lemma cs_outcome:
  assumes ok: "queue_ok env s"
  obtains (no_queue) s' where "oops_winsys_cs env arg s = Some ((Err ENODEV, None), s')"
      "ensure_queue env s = (False, s')"
  | (early) e es s0 s' where "ensure_queue env s = (True, s0)" "e = EINVAL \<or> e = EIO"
      "oops_winsys_cs env arg s = Some ((Err e, None), s')" "adds_events s0 es s'" "list_all unpublished es"
  | (retire) uf es s0 s3 where "ensure_queue env s = (True, s0)" "adds_events s0 es s3"
      "list_all unpublished es" "oops_winsys_cs env arg s = cs_retire env (cs_ctx_id arg) uf s3"
proof -
  obtain b s0 where e: "ensure_queue env s = (b, s0)" by fastforce
  show thesis
  proof (cases b)
    case False
    with e no_queue show thesis by (simp add: oops_winsys_cs_def)
  next
    case True
    then have b: "submit_bound env" using ensure_queue_ready [OF _ ok] e by (auto simp: queue_ok_def)
    have same: "adds_events s0 [] s0" by (simp add: adds_events_def)
    show thesis
    proof (cases "cs_chunks arg = None \<or> cs_chunks arg = Some []")
      case none: True
      with e True same early [of s0 EINVAL s0 "[]"] show thesis by (auto simp: oops_winsys_cs_def)
    next
      case False
      then obtain chunks where c: "cs_chunks arg = Some chunks" "chunks \<noteq> []" by auto
      let ?s1 = "oops_winsys_clear_marks s0"
      let ?s2 = "emit (Flush (oops_winsys_flush_cpu_writes (w_buf ?s1))) ?s1"
      obtain x s3 where x: "cs_chunk_loop env chunks 0 None ?s2 = Some (x, s3)" "quiet ?s2 s3"
        "\<forall>e. x = Inl e \<longrightarrow> e = EIO" using chunk_loop_total [OF b] by blast
      have "quiet s0 ?s2"
        by (rule quiet_trans [OF quiet_clear_marks quiet_emit]) (simp add: quiet_event_def)
      then obtain es where es: "adds_events s0 es s3" "list_all unpublished es"
        using quiet_adds_events quiet_trans [OF _ x(2)] by blast
      have cs: "oops_winsys_cs env arg s = (case x of Inl e \<Rightarrow> Some ((Err e, None), s3)
          | Inr (submitted, uf) \<Rightarrow> if submitted = 0 then Some ((Err EINVAL, None), s3)
              else cs_retire env (cs_ctx_id arg) uf s3)"
        using e True c x(1) by (simp add: oops_winsys_cs_def Let_def split: sum.split)
      show thesis
      proof (cases x)
        case (Inl err)
        then show thesis using cs e True es x(3) early [of s0 err s3 es] by simp
      next
        case (Inr y)
        obtain n uf where y: "y = (n, uf)" by fastforce
        show thesis
        proof (cases "n = 0")
          case True
          then show thesis using cs Inr y e \<open>b\<close> es early [of s0 EINVAL s3 es] by simp
        next
          case False
          then show thesis using cs Inr y e \<open>b\<close> es retire [of s0 es s3 uf] by simp
        qed
      qed
    qed
  qed
qed

text \<open>A submission as a whole: it fails and publishes nothing, or it retires.\<close>

lemma cs_result:
  assumes ok: "queue_ok env s"
  obtains (failed) e es s' where "oops_winsys_cs env arg s = Some ((Err e, None), s')"
      "w_sequence s' = w_sequence s" "w_trace s' = es @ w_trace s" "list_all unpublished es"
      "w_ctx s' = (if e = ETIMEDOUT then oops_winsys_ctx_note_hang (cs_ctx_id arg) (w_ctx s) else w_ctx s)"
      "e \<noteq> ENODEV \<longrightarrow> queue_ok env s'"
      "e = ENODEV \<longrightarrow> ensure_queue env s = (False, s')"
  | (retired) pub es s' where "oops_winsys_cs env arg s = Some ((Ok, Some (w_sequence s + 1)), s')"
      "w_sequence s' = w_sequence s + 1" "w_ctx s' = w_ctx s"
      "w_trace s' = pub @ Poll OOPS_WINSYS_FENCE_FIRED # es @ w_trace s" "list_all unpublished es"
      "pub = [] \<or> (\<exists>slot. pub = [Store64 slot (w_sequence s + 1)])" "queue_ok env s'"
  using ok
proof (cases rule: cs_outcome [where arg = arg])
  case (no_queue s')
  then show thesis
    using ensure_queue_same [OF no_queue(2)] by (intro failed [of ENODEV s' "[]"]) auto
next
  case (early e es s0 s')
  then show thesis
    using ensure_queue_same [OF early(1)] ensure_queue_ready [OF early(1) ok]
    by (intro failed [of e s' es]) (auto simp: adds_events_def queue_ok_def)
next
  case (retire uf es s0 s3)
  note same = ensure_queue_same [OF retire(1)] and q = ensure_queue_ready [OF retire(1) ok]
  have f: "submit_bound env" "w_fence s3 \<noteq> 0" "w_fence_dcb s3 \<noteq> 0"
    using q retire(2) by (auto simp: queue_ok_def adds_events_def)
  from f show thesis
  proof (cases rule: cs_retire_outcome [where cid = "cs_ctx_id arg" and uf = uf])
    case (refused fs s')
    then show thesis
      using same q retire by (intro failed [of EIO s' "fs @ es"]) (auto simp: adds_events_def queue_ok_def)
  next
    case (lost fs s4)
    then show thesis
      using same q retire
      by (intro failed [of ETIMEDOUT "s4\<lparr>w_ctx := oops_winsys_ctx_note_hang (cs_ctx_id arg) (w_ctx s4)\<rparr>" "fs @ es"])
        (auto simp: adds_events_def queue_ok_def)
  next
    case (retired fs s5)
    obtain r h s' where p: "cs_publish env uf s5 = ((r, h), s')" by (metis prod.exhaust)
    note P = cs_publish_trace [OF p]
    have "pub = [] \<or> (\<exists>slot. pub = [Store64 slot (w_sequence s + 1)])"
      if "w_trace s' = pub @ w_trace s5" for pub
      using that P retired(1) retire(2) same by (auto simp: adds_events_def append_eq_Cons_conv)
    moreover obtain pub where "w_trace s' = pub @ w_trace s5" using P by (metis append.left_neutral append_Cons)
    ultimately show thesis
      using P p retired retire same q
      by (intro that(2) [of s' pub "fs @ es"]) (auto simp: adds_events_def queue_ok_def)
  qed
qed

text \<open>
  C4. A sequence number is published only for work that has retired: when a submission
  succeeds, the number it returns is the next one, and in the trace everything that
  publishes it (the store to the user fence, if there is one) comes after a read of the
  fence word that found it fired, with no 64-bit store before that read.
\<close>

theorem cs_publishes_after_fire:
  assumes "queue_ok env s" and "oops_winsys_cs env arg s = Some ((Ok, h), s')"
  shows "h = Some (w_sequence s + 1) \<and> w_sequence s' = w_sequence s + 1 \<and> w_ctx s' = w_ctx s \<and>
    (\<exists>pub es. w_trace s' = pub @ Poll OOPS_WINSYS_FENCE_FIRED # es @ w_trace s \<and> list_all unpublished es \<and>
       (pub = [] \<or> (\<exists>slot. pub = [Store64 slot (w_sequence s + 1)])))"
  using assms(1)
proof (cases rule: cs_result [where arg = arg])
  case (retired pub es t)
  then have "t = s'" "h = Some (w_sequence s + 1)" using assms(2) by simp_all
  with retired show ?thesis by blast
qed (use assms(2) in simp)

lemma sample_queue_ok: "queue_ok env winsys_init"
  by (simp add: queue_ok_def winsys_init_def)

theorem cs_publishes_after_fire_witness:
  "\<exists>s'. oops_winsys_cs sample_platform sample_arg winsys_init = Some ((Ok, Some 1), s') \<and>
    w_sequence s' = 1 \<and>
    (\<exists>pub es. w_trace s' = pub @ Poll OOPS_WINSYS_FENCE_FIRED # es @ [] \<and> list_all unpublished es)"
proof -
  obtain s' where s': "oops_winsys_cs sample_platform sample_arg winsys_init = Some ((Ok, Some 1), s')"
    using sample_cs by blast
  with cs_publishes_after_fire [OF sample_queue_ok s'] show ?thesis
    by (auto simp: winsys_init_def)
qed

text \<open>
  C7. A submission that fails publishes nothing: the sequence number stays, nothing is
  stored to a user fence and no fence was read as fired; the context is told about it
  exactly when the failure is a submission that did not retire in time.
\<close>

theorem cs_failure_publishes_nothing:
  assumes "queue_ok env s" and "oops_winsys_cs env arg s = Some ((Err e, h), s')"
  shows "h = None \<and> w_sequence s' = w_sequence s \<and>
    (\<exists>es. w_trace s' = es @ w_trace s \<and> list_all unpublished es) \<and>
    w_ctx s' = (if e = ETIMEDOUT then oops_winsys_ctx_note_hang (cs_ctx_id arg) (w_ctx s) else w_ctx s)"
  using assms(1)
proof (cases rule: cs_result [where arg = arg])
  case (failed e' es t)
  then have "t = s'" "h = None" "e' = e" using assms(2) by simp_all
  with failed show ?thesis by blast
qed (use assms(2) in simp)

theorem cs_failure_publishes_nothing_witness:
  "\<exists>s'. oops_winsys_cs sample_platform \<lparr>cs_ctx_id = 1, cs_chunks = None\<rparr> winsys_init = Some ((Err EINVAL, None), s') \<and>
    w_sequence s' = w_sequence winsys_init"
proof -
  let ?s = "winsys_init\<lparr>w_queue := 1, w_fence := 0x1000, w_fence_dcb := 0x2000\<rparr>"
  have s': "oops_winsys_cs sample_platform \<lparr>cs_ctx_id = 1, cs_chunks = None\<rparr> winsys_init =
      Some ((Err EINVAL, None), ?s)"
    by (simp add: oops_winsys_cs_def sample_ensure_queue)
  with cs_failure_publishes_nothing [OF sample_queue_ok s'] show ?thesis by blast
qed

section \<open>Sequences of submissions\<close>

text \<open>The allocator gives the fence memory whenever it is asked.\<close>

definition fence_memory :: "platform \<Rightarrow> bool" where
  "fence_memory env \<longleftrightarrow> (\<forall>tr. pf_mem_alloc env tr 64 64 \<noteq> 0 \<and> pf_mem_alloc env tr 256 256 \<noteq> 0)"

lemma ensure_queue_refused:
  assumes "ensure_queue env s = (False, s')" and "fence_memory env"
  shows "queue_ok env s'"
  using assms
  by (auto simp: ensure_queue_def queue_ok_def fence_memory_def Let_def
      split: if_splits option.splits prod.splits)

definition cs_step :: "platform \<Rightarrow> winsys \<Rightarrow> drm_amdgpu_cs_in \<Rightarrow> winsys option" where
  "cs_step env s arg = map_option snd (oops_winsys_cs env arg s)"

lemma cs_step_total:
  assumes "fence_memory env" and "queue_ok env s"
  shows "\<exists>s'. cs_step env s arg = Some s' \<and> queue_ok env s' \<and>
    (w_sequence s' = w_sequence s \<or> w_sequence s' = w_sequence s + 1)"
  using assms(2)
proof (cases rule: cs_result [where arg = arg])
  case (failed e es s')
  have "queue_ok env s'"
    using failed(6,7) ensure_queue_refused [OF _ assms(1)] by (cases "e = ENODEV") auto
  with failed show ?thesis by (simp add: cs_step_def)
next
  case (retired pub es s')
  then show ?thesis by (simp add: cs_step_def)
qed

interpretation submission: invariant_machine "cs_step env" "\<lambda>_ _. True"
  "\<lambda>s. fence_memory env \<and> queue_ok env s" for env
  by unfold_locales (use cs_step_total in blast)

lemma ops_allowed_True: "ops_allowed step (\<lambda>_ _. True) s xs"
  by (induction xs arbitrary: s) (auto split: option.split)


lemma sample_fence_memory: "fence_memory sample_platform"
  by (simp add: fence_memory_def sample_platform_def)


lemma run_sequence:
  assumes "fence_memory env"
  shows "queue_ok env s \<Longrightarrow> run_ops (cs_step env) s args = Some s' \<Longrightarrow>
    \<exists>m\<le>length args. w_sequence s' = w_sequence s + of_nat m"
proof (induction args arbitrary: s)
  case Nil
  then show ?case by simp
next
  case (Cons a args)
  obtain s1 where s1: "cs_step env s a = Some s1" "queue_ok env s1"
    "w_sequence s1 = w_sequence s \<or> w_sequence s1 = w_sequence s + 1"
    using cs_step_total [OF assms Cons.prems(1), of a] by blast
  then obtain m where m: "m \<le> length args" "w_sequence s' = w_sequence s1 + of_nat m"
    using Cons.IH [OF s1(2)] Cons.prems(2) by auto
  show ?case
  proof (cases "w_sequence s1 = w_sequence s")
    case True
    with m show ?thesis by (intro exI [of _ m]) simp
  next
    case False
    with m s1(3) show ?thesis by (intro exI [of _ "Suc m"]) simp
  qed
qed

text \<open>
  C9. A handle stays good: what a submission returned is answered as signalled by every
  later \<open>WAIT_CS\<close>, after any further submissions that do not exhaust the 64-bit numbers.
\<close>

theorem handle_stays_signalled:
  assumes "fence_memory env" and "queue_ok env s"
    and "oops_winsys_cs env arg s = Some ((Ok, Some h), s1)"
    and "run_ops (cs_step env) s1 args = Some s2" and "unat h + length args < 2 ^ 64"
  shows "oops_winsys_wait_cs h s2 = (Ok, Some 0)"
proof -
  have "w_sequence s1 = h \<and> queue_ok env s1"
    using assms(2) by (cases rule: cs_result [where arg = arg]) (use assms(3) in auto)
  then have q: "queue_ok env s1" and "w_sequence s1 = h" by simp_all
  then obtain m where m: "m \<le> length args" "w_sequence s2 = h + of_nat m"
    using run_sequence [OF assms(1) q assms(4)] by blast
  have "unat (of_nat m :: u64) = m" using m(1) assms(5) by (intro unat_of_nat_small) simp
  then have "unat (w_sequence s2) = unat h + m"
    using m assms(5) by (simp add: unat_word_ariths)
  then show ?thesis by (simp add: oops_winsys_wait_cs_def word_less_nat_alt)
qed

theorem handle_stays_signalled_witness:
  "\<exists>s1 s2. oops_winsys_cs sample_platform sample_arg winsys_init = Some ((Ok, Some 1), s1) \<and>
    run_ops (cs_step sample_platform) s1 [sample_arg] = Some s2 \<and>
    oops_winsys_wait_cs 1 s2 = (Ok, Some 0)"
proof -
  obtain s1 where s1: "oops_winsys_cs sample_platform sample_arg winsys_init = Some ((Ok, Some 1), s1)"
    using sample_cs by blast
  then have "cs_step sample_platform winsys_init sample_arg = Some s1" by (simp add: cs_step_def)
  then have "queue_ok sample_platform s1"
    using cs_step_total [OF sample_fence_memory sample_queue_ok, of sample_arg] by simp
  then obtain s2 where s2: "run_ops (cs_step sample_platform) s1 [sample_arg] = Some s2"
    using cs_step_total [OF sample_fence_memory, of s1 sample_arg] by auto
  show ?thesis
    using handle_stays_signalled [OF sample_fence_memory sample_queue_ok s1 s2] s1 s2 by simp
qed


end
