(* ===== verification/Buffers_Inv.thy ===== *)
theory Buffers_Inv
  imports Buffers
begin

text \<open>
  The invariant of the buffer component and its preservation by every operation: every
  direct-memory allocation has exactly one owner (a live buffer or a retained range whose
  buffer has closed), the mapped segments of buffers and retained ranges are disjoint and
  are exactly what the address space translates, every one of them maps an allocation that
  is still outstanding, and the retained byte count is the sum over the table.
\<close>

section \<open>The invariant\<close>

datatype src = Gpu nat | Cpu nat | Ret nat

datatype owner = Bo nat | Range nat

fun seg_of :: "buffers \<Rightarrow> src \<Rightarrow> seg option" where
  "seg_of s (Gpu i) =
     (if i < OOPS_WINSYS_MAX_BO \<and> bo_live (s_bo s i) \<and> bo_gpu_va (s_bo s i) \<noteq> 0
      then Some (unat (bo_gpu_va (s_bo s i)), unat (bo_size (s_bo s i)), bo_phys (s_bo s i))
      else None)"
| "seg_of s (Cpu i) =
     (if i < OOPS_WINSYS_MAX_BO \<and> bo_live (s_bo s i) \<and> bo_cpu_ptr (s_bo s i) \<noteq> 0
      then Some (unat (bo_cpu_ptr (s_bo s i)), unat (bo_size (s_bo s i)), bo_phys (s_bo s i))
      else None)"
| "seg_of s (Ret j) =
     (if j < OOPS_WINSYS_MAX_RETAINED \<and> rr_used (s_retained s j)
      then Some (unat (rr_va (s_retained s j)), unat (rr_size (s_retained s j)),
                 rr_phys (s_retained s j))
      else None)"

fun owner_of :: "buffers \<Rightarrow> owner \<Rightarrow> (int \<times> u64) option" where
  "owner_of s (Bo i) =
     (if i < OOPS_WINSYS_MAX_BO \<and> bo_live (s_bo s i)
      then Some (bo_phys (s_bo s i), bo_size (s_bo s i)) else None)"
| "owner_of s (Range j) =
     (if j < OOPS_WINSYS_MAX_RETAINED \<and> rr_used (s_retained s j) \<and> rr_owns_phys (s_retained s j)
      then Some (rr_phys (s_retained s j), rr_size (s_retained s j)) else None)"

definition retained_sum :: "(nat \<Rightarrow> retained_range) \<Rightarrow> u64" where
  "retained_sum t = (\<Sum>j<OOPS_WINSYS_MAX_RETAINED. if rr_used (t j) then rr_size (t j) else 0)"

definition winv :: "buffers \<Rightarrow> bool" where
  "winv s \<longleftrightarrow> space_ok (mem_calls s) (seg_of s) \<and>
     owned_ok (mem_calls s) (seg_of s) (owner_of s) \<and>
     s_retained_bytes s = retained_sum (s_retained s)"

lemma winvD:
  assumes "winv s"
  shows "space_ok (mem_calls s) (seg_of s)"
    and "owned_ok (mem_calls s) (seg_of s) (owner_of s)"
    and "s_retained_bytes s = retained_sum (s_retained s)"
  using assms by (auto simp: winv_def)

lemma seg_of_init: "seg_of buffers_init = (\<lambda>_. None)"
proof (rule ext)
  show "seg_of buffers_init x = None" for x
    by (cases x) (simp_all add: buffers_init_def bo_zero_def retained_zero_def)
qed

lemma owner_of_init: "owner_of buffers_init = (\<lambda>_. None)"
proof (rule ext)
  show "owner_of buffers_init x = None" for x
    by (cases x) (simp_all add: buffers_init_def bo_zero_def retained_zero_def)
qed

lemma winv_init: "winv buffers_init"
proof -
  have "mem_calls buffers_init = []" by (simp add: buffers_init_def)
  moreover have "s_retained_bytes buffers_init = retained_sum (s_retained buffers_init)"
    by (simp add: buffers_init_def retained_sum_def retained_zero_def)
  ultimately show ?thesis
    unfolding winv_def seg_of_init owner_of_init
    by (simp add: space_ok_empty owned_ok_empty)
qed

section \<open>Updates of the tables\<close>

named_theorems buf_simps \<open>how the views of the state follow the table updates\<close>

lemma mem_note_fields [buf_simps, simp]:
  "s_bo (mem_note c s) = s_bo s" "s_retained (mem_note c s) = s_retained s"
  "mem_calls (mem_note c s) = c # mem_calls s"
  "s_retained_bytes (mem_note c s) = s_retained_bytes s"
  "s_retained_seq (mem_note c s) = s_retained_seq s"
  "s_collisions (mem_note c s) = s_collisions s"
  by (simp_all add: mem_note_def)

lemma set_bo_fields [buf_simps, simp]:
  "s_bo (set_bo i b s) = (s_bo s)(i := b)" "s_retained (set_bo i b s) = s_retained s"
  "mem_calls (set_bo i b s) = mem_calls s"
  "s_retained_bytes (set_bo i b s) = s_retained_bytes s"
  "s_retained_seq (set_bo i b s) = s_retained_seq s"
  "s_collisions (set_bo i b s) = s_collisions s"
  by (simp_all add: set_bo_def)

lemma set_retained_fields [buf_simps, simp]:
  "s_bo (set_retained j r s) = s_bo s" "s_retained (set_retained j r s) = (s_retained s)(j := r)"
  "mem_calls (set_retained j r s) = mem_calls s"
  "s_retained_bytes (set_retained j r s) = s_retained_bytes s"
  "s_retained_seq (set_retained j r s) = s_retained_seq s"
  "s_collisions (set_retained j r s) = s_collisions s"
  by (simp_all add: set_retained_def)

text \<open>The views depend on the two tables only.\<close>

lemma seg_of_cong:
  "s_bo t = s_bo s \<Longrightarrow> s_retained t = s_retained s \<Longrightarrow> seg_of t = seg_of s"
proof (rule ext)
  show "seg_of t x = seg_of s x" if "s_bo t = s_bo s" "s_retained t = s_retained s" for x
    using that by (cases x) simp_all
qed

lemma owner_of_cong:
  "s_bo t = s_bo s \<Longrightarrow> s_retained t = s_retained s \<Longrightarrow> owner_of t = owner_of s"
proof (rule ext)
  show "owner_of t x = owner_of s x" if "s_bo t = s_bo s" "s_retained t = s_retained s" for x
    using that by (cases x) simp_all
qed

lemma views_mem_note [buf_simps]:
  "seg_of (mem_note c s) = seg_of s" "owner_of (mem_note c s) = owner_of s"
  by (rule seg_of_cong owner_of_cong; simp)+

lemma seg_of_set_bo [buf_simps]:
  assumes "i < OOPS_WINSYS_MAX_BO"
  shows "seg_of (set_bo i b s) = (seg_of s)
     (Gpu i := if bo_live b \<and> bo_gpu_va b \<noteq> 0
        then Some (unat (bo_gpu_va b), unat (bo_size b), bo_phys b) else None,
      Cpu i := if bo_live b \<and> bo_cpu_ptr b \<noteq> 0
        then Some (unat (bo_cpu_ptr b), unat (bo_size b), bo_phys b) else None)"
proof (rule ext)
  show "seg_of (set_bo i b s) x = ((seg_of s)
     (Gpu i := if bo_live b \<and> bo_gpu_va b \<noteq> 0
        then Some (unat (bo_gpu_va b), unat (bo_size b), bo_phys b) else None,
      Cpu i := if bo_live b \<and> bo_cpu_ptr b \<noteq> 0
        then Some (unat (bo_cpu_ptr b), unat (bo_size b), bo_phys b) else None)) x" for x
    using assms by (cases x) simp_all
qed

lemma owner_of_set_bo [buf_simps]:
  assumes "i < OOPS_WINSYS_MAX_BO"
  shows "owner_of (set_bo i b s) = (owner_of s)
     (Bo i := if bo_live b then Some (bo_phys b, bo_size b) else None)"
proof (rule ext)
  show "owner_of (set_bo i b s) x = ((owner_of s)
     (Bo i := if bo_live b then Some (bo_phys b, bo_size b) else None)) x" for x
    using assms by (cases x) simp_all
qed

lemma seg_of_set_retained [buf_simps]:
  assumes "j < OOPS_WINSYS_MAX_RETAINED"
  shows "seg_of (set_retained j r s) = (seg_of s)
     (Ret j := if rr_used r then Some (unat (rr_va r), unat (rr_size r), rr_phys r) else None)"
proof (rule ext)
  show "seg_of (set_retained j r s) x = ((seg_of s)
     (Ret j := if rr_used r then Some (unat (rr_va r), unat (rr_size r), rr_phys r) else None)) x"
    for x using assms by (cases x) simp_all
qed

lemma owner_of_set_retained [buf_simps]:
  assumes "j < OOPS_WINSYS_MAX_RETAINED"
  shows "owner_of (set_retained j r s) = (owner_of s)
     (Range j := if rr_used r \<and> rr_owns_phys r then Some (rr_phys r, rr_size r) else None)"
proof (rule ext)
  show "owner_of (set_retained j r s) x = ((owner_of s)
     (Range j := if rr_used r \<and> rr_owns_phys r then Some (rr_phys r, rr_size r) else None)) x"
    for x using assms by (cases x) simp_all
qed

lemma retained_sum_update [buf_simps]:
  assumes "j < OOPS_WINSYS_MAX_RETAINED"
  shows "retained_sum (t(j := r)) = retained_sum t
     - (if rr_used (t j) then rr_size (t j) else 0) + (if rr_used r then rr_size r else 0)"
proof -
  let ?f = "\<lambda>t j. if rr_used (t j) then rr_size (t j) else (0 :: u64)"
  have "(\<Sum>k\<in>{..<OOPS_WINSYS_MAX_RETAINED} - {j}. ?f (t(j := r)) k)
      = (\<Sum>k\<in>{..<OOPS_WINSYS_MAX_RETAINED} - {j}. ?f t k)"
    by (rule sum.cong) auto
  then show ?thesis
    unfolding retained_sum_def
    using assms sum.remove [of "{..<OOPS_WINSYS_MAX_RETAINED}" j "?f t"]
      sum.remove [of "{..<OOPS_WINSYS_MAX_RETAINED}" j "?f (t(j := r))"]
    by simp
qed

section \<open>Releasing a retained range\<close>

lemma seg_bo_owner:
  assumes "seg_of s x = Some (v, l, p)" and "x = Gpu i \<or> x = Cpu i"
  shows "\<exists>n. owner_of s (Bo i) = Some (p, n)"
  using assms by (auto simp: Let_def split: if_splits)

lemma retained_drop_fields [simp]:
  "s_bo (retained_drop j s) = s_bo s"
  "s_retained (retained_drop j s) = (s_retained s)(j := retained_zero)"
  "mem_calls (retained_drop j s) = mem_calls s"
  "s_retained_seq (retained_drop j s) = s_retained_seq s"
  "s_collisions (retained_drop j s) = s_collisions s"
  "s_retained_bytes (retained_drop j s) = s_retained_bytes s - rr_size (s_retained s j)"
  by (simp_all add: retained_drop_def)

lemma views_retained_drop [buf_simps]:
  assumes "j < OOPS_WINSYS_MAX_RETAINED"
  shows "seg_of (retained_drop j s) = (seg_of s)(Ret j := None)"
    and "owner_of (retained_drop j s) = (owner_of s)(Range j := None)"
proof -
  let ?b = "s\<lparr>s_retained_bytes := s_retained_bytes s - rr_size (s_retained s j)\<rparr>"
  have "seg_of ?b = seg_of s" "owner_of ?b = owner_of s"
    by (rule seg_of_cong owner_of_cong; simp)+
  then show "seg_of (retained_drop j s) = (seg_of s)(Ret j := None)"
    and "owner_of (retained_drop j s) = (owner_of s)(Range j := None)"
    using assms by (simp_all add: retained_drop_def buf_simps retained_zero_def)
qed

lemma views_give_pages:
  assumes "k < OOPS_WINSYS_MAX_RETAINED" and "rr_used (s_retained t k)" and "r = s_retained t k"
  shows "seg_of (set_retained k (r\<lparr>rr_owns_phys := True\<rparr>) t) = seg_of t"
    and "owner_of (set_retained k (r\<lparr>rr_owns_phys := True\<rparr>) t) =
      (owner_of t)(Range k \<mapsto> (rr_phys r, rr_size r))"
  using assms by (auto simp: buf_simps intro!: fun_upd_idem)

text \<open>The ways a release can go: the pages stay with another owner, are handed on, or are freed.\<close>

lemma retained_release_cases:
  obtains (kept) "\<not> rr_owns_phys (s_retained s j)"
      "retained_release j s =
        retained_drop j (mem_note (Unmap (rr_va (s_retained s j)) (rr_size (s_retained s j))) s)"
  | (handed) k where "rr_owns_phys (s_retained s j)" "k < OOPS_WINSYS_MAX_RETAINED" "k \<noteq> j"
      "rr_used (s_retained s k)" "rr_phys (s_retained s k) = rr_phys (s_retained s j)"
      "retained_release j s = retained_drop j
        (set_retained k ((s_retained s k)\<lparr>rr_owns_phys := True\<rparr>)
          (mem_note (Unmap (rr_va (s_retained s j)) (rr_size (s_retained s j))) s))"
  | (freed) "rr_owns_phys (s_retained s j)"
      "\<And>k. k < OOPS_WINSYS_MAX_RETAINED \<Longrightarrow> k \<noteq> j \<Longrightarrow> rr_used (s_retained s k) \<Longrightarrow>
        rr_phys (s_retained s k) \<noteq> rr_phys (s_retained s j)"
      "retained_release j s = retained_drop j
        (mem_note (FreeDirect (rr_phys (s_retained s j)) (rr_size (s_retained s j)))
          (mem_note (Unmap (rr_va (s_retained s j)) (rr_size (s_retained s j))) s))"
proof (cases "rr_owns_phys (s_retained s j)")
  case False
  then show thesis by (intro kept) (auto simp: retained_release_def Let_def)
next
  case True
  show thesis
  proof (cases "first_index (\<lambda>k. k \<noteq> j \<and> rr_used (s_retained s k) \<and>
      rr_phys (s_retained s k) = rr_phys (s_retained s j)) OOPS_WINSYS_MAX_RETAINED")
    case None
    with True show thesis
      using first_index_None [THEN iffD1, OF None]
      by (intro freed) (auto simp: retained_release_def Let_def)
  next
    case (Some k)
    with True first_index_SomeD [OF Some] show thesis
      by (intro handed [of k]) (auto simp: retained_release_def Let_def)
  qed
qed

lemma retained_release_space:
  assumes inv: "winv s" and j: "j < OOPS_WINSYS_MAX_RETAINED" "rr_used (s_retained s j)"
  shows "seg_of (retained_release j s) = (seg_of s)(Ret j := None)"
    and "space_ok (mem_calls (retained_release j s)) (seg_of (retained_release j s))"
proof -
  let ?r = "s_retained s j"
  have "seg_of s (Ret j) = Some (unat (rr_va ?r), unat (rr_size ?r), rr_phys ?r)"
    using j by simp
  then have un: "space_ok (Unmap (rr_va ?r) (rr_size ?r) # mem_calls s) ((seg_of s)(Ret j := None))"
    using winvD(1) [OF inv] by (intro space_unmap)
  show seg: "seg_of (retained_release j s) = (seg_of s)(Ret j := None)"
  proof (cases rule: retained_release_cases [where s = s and j = j])
    case (handed k)
    with j show ?thesis by (simp add: views_retained_drop views_give_pages views_mem_note)
  qed (use j in \<open>simp_all add: buf_simps\<close>)
  show "space_ok (mem_calls (retained_release j s)) (seg_of (retained_release j s))"
    unfolding seg by (cases rule: retained_release_cases [where s = s and j = j])
      (use un in \<open>auto intro: space_ok_same_xlate\<close>)
qed

lemma retained_release_owned:
  assumes inv: "winv s" and j: "j < OOPS_WINSYS_MAX_RETAINED" "rr_used (s_retained s j)"
  shows "owned_ok (mem_calls (retained_release j s)) (seg_of (retained_release j s))
    (owner_of (retained_release j s))"
proof -
  let ?r = "s_retained s j"
  let ?cs = "Unmap (rr_va ?r) (rr_size ?r) # mem_calls s"
  let ?F = "(seg_of s)(Ret j := None)"
  note ok = winvD(2) [OF inv]
  have ok1: "owned_ok ?cs (seg_of s) (owner_of s)"
    using ok by (rule owned_ok_same_ledger) (auto simp: owned_okD(6) [OF ok])
  have ok2: "owned_ok ?cs ?F (owner_of s)"
    using ok1 by (rule owned_segment_del)
  note F = retained_release_space(1) [OF inv j]
  show ?thesis
  proof (cases rule: retained_release_cases [where s = s and j = j])
    case kept
    then have "(owner_of s)(Range j := None) = owner_of s" by (intro fun_upd_idem) simp
    with kept(2) ok2 j(1) show ?thesis unfolding F by (simp add: buf_simps)
  next
    case (handed k)
    have own: "owner_of s (Range j) = Some (rr_phys ?r, rr_size ?r)" using handed j by simp
    have "owner_of s (Range k) = None"
      using owned_okD(2) [OF ok own, of "Range k"] handed by (auto simp: Let_def)
    moreover have "rr_size (s_retained s k) = rr_size ?r"
      using owned_okD(3) [OF ok, of "Ret j"] owned_okD(3) [OF ok, of "Ret k"] handed j
      by (auto simp: word_unat_eq_iff)
    ultimately have "owned_ok ?cs ?F ((owner_of s)(Range j := None, Range k \<mapsto> (rr_phys ?r, rr_size ?r)))"
      using owned_move [OF ok2 own, of "Range k"] handed(3) by simp
    with handed j show ?thesis
      unfolding F by (simp add: buf_simps fun_upd_twist \<open>rr_size (s_retained s k) = rr_size ?r\<close>)
  next
    case freed
    have own: "owner_of s (Range j) = Some (rr_phys ?r, rr_size ?r)" using freed(1) j by simp
    have "?F y \<noteq> Some (v, l, rr_phys ?r)" for y v l
    proof (cases y)
      case (Ret k)
      then show ?thesis using freed(2) [of k] by (auto simp: Let_def)
    next
      case (Gpu i)
      then show ?thesis using seg_bo_owner [of s y v l "rr_phys ?r" i] owned_okD(2) [OF ok own, of "Bo i"] by auto
    next
      case (Cpu i)
      then show ?thesis using seg_bo_owner [of s y v l "rr_phys ?r" i] owned_okD(2) [OF ok own, of "Bo i"] by auto
    qed
    then have "owned_ok (FreeDirect (rr_phys ?r) (rr_size ?r) # ?cs) ?F ((owner_of s)(Range j := None))"
      by (rule owned_free [OF ok2 own])
    with freed(3) j(1) show ?thesis unfolding F by (simp add: buf_simps)
  qed
qed

lemma retained_release_table:
  assumes "j < OOPS_WINSYS_MAX_RETAINED"
  shows "s_bo (retained_release j s) = s_bo s"
    and "\<not> rr_used (s_retained (retained_release j s) j)"
    and "k \<noteq> j \<Longrightarrow> rr_used (s_retained (retained_release j s) k) = rr_used (s_retained s k)"
    and "k \<noteq> j \<Longrightarrow> rr_va (s_retained (retained_release j s) k) = rr_va (s_retained s k)"
    and "k \<noteq> j \<Longrightarrow> rr_size (s_retained (retained_release j s) k) = rr_size (s_retained s k)"
    and "k \<noteq> j \<Longrightarrow> rr_phys (s_retained (retained_release j s) k) = rr_phys (s_retained s k)"
    and "k \<noteq> j \<Longrightarrow> rr_seq (s_retained (retained_release j s) k) = rr_seq (s_retained s k)"
  by (cases rule: retained_release_cases [where s = s and j = j]; simp add: retained_zero_def)+

lemma retained_release_winv:
  assumes inv: "winv s" and j: "j < OOPS_WINSYS_MAX_RETAINED" "rr_used (s_retained s j)"
  shows "winv (retained_release j s)"
proof -
  have "s_retained_bytes (retained_release j s) = retained_sum (s_retained (retained_release j s))"
    by (cases rule: retained_release_cases [where s = s and j = j])
      (use j winvD(3) [OF inv] in \<open>simp_all add: buf_simps retained_zero_def\<close>)
  with retained_release_space(2) [OF inv j] retained_release_owned [OF inv j] show ?thesis
    by (simp add: winv_def)
qed

section \<open>Evicting the oldest ranges\<close>

lemma oldest_upto_None: "oldest_upto t n = None \<longleftrightarrow> (\<forall>i<n. \<not> rr_used (t i))"
  by (induction n) (auto simp: less_Suc_eq split: option.splits)

lemma oldest_upto_Some:
  "oldest_upto t n = Some j \<Longrightarrow> j < n \<and> rr_used (t j) \<and>
     (\<forall>i<n. rr_used (t i) \<longrightarrow> rr_seq (t j) \<le> rr_seq (t i))"
proof (induction n arbitrary: j)
  case 0
  then show ?case by simp
next
  case (Suc n)
  show ?case
  proof (cases "oldest_upto t n")
    case None
    with Suc.prems oldest_upto_None [of t n] show ?thesis
      by (auto simp: less_Suc_eq split: if_splits)
  next
    case (Some k)
    with Suc.prems Suc.IH [OF Some] show ?thesis
      by (auto simp: less_Suc_eq not_less split: if_splits)
  qed
qed

definition used_ranges :: "buffers \<Rightarrow> nat set" where
  "used_ranges s = {j. j < OOPS_WINSYS_MAX_RETAINED \<and> rr_used (s_retained s j)}"

lemma finite_used_ranges [simp]: "finite (used_ranges s)"
  by (simp add: used_ranges_def)

lemma used_ranges_release:
  assumes "j < OOPS_WINSYS_MAX_RETAINED"
  shows "used_ranges (retained_release j s) = used_ranges s - {j}"
proof (rule set_eqI)
  show "k \<in> used_ranges (retained_release j s) \<longleftrightarrow> k \<in> used_ranges s - {j}" for k
    using retained_release_table(2,3) [OF assms]
    by (cases "k = j") (auto simp: used_ranges_def)
qed

text \<open>\<open>fewer_ranges s' s\<close>: of the ranges of \<open>s\<close>, some are left in \<open>s'\<close>, with their sizes.\<close>

definition fewer_ranges :: "buffers \<Rightarrow> buffers \<Rightarrow> bool" where
  "fewer_ranges s' s \<longleftrightarrow> used_ranges s' \<subseteq> used_ranges s \<and>
     (\<forall>k\<in>used_ranges s'. rr_size (s_retained s' k) = rr_size (s_retained s k))"

lemma fewer_ranges_refl [simp]: "fewer_ranges s s"
  by (simp add: fewer_ranges_def)

lemma fewer_ranges_trans: "fewer_ranges s'' s' \<Longrightarrow> fewer_ranges s' s \<Longrightarrow> fewer_ranges s'' s"
  by (auto simp: fewer_ranges_def)

lemma fewer_ranges_release:
  "j < OOPS_WINSYS_MAX_RETAINED \<Longrightarrow> fewer_ranges (retained_release j s) s"
  by (auto simp: fewer_ranges_def used_ranges_release retained_release_table(5))

lemma retained_sum_unused: "used_ranges s = {} \<Longrightarrow> retained_sum (s_retained s) = 0"
  by (auto simp: used_ranges_def retained_sum_def intro!: sum.neutral)

lemma release_oldest:
  assumes inv: "winv s" and ne: "used_ranges s \<noteq> {}"
  obtains j where "j \<in> used_ranges s" "retained_release_oldest s = retained_release j s"
    "\<And>i. i \<in> used_ranges s \<Longrightarrow> rr_seq (s_retained s j) \<le> rr_seq (s_retained s i)"
    "winv (retained_release_oldest s)" "s_bo (retained_release_oldest s) = s_bo s"
    "used_ranges (retained_release_oldest s) = used_ranges s - {j}"
proof -
  from ne have "oldest_upto (s_retained s) OOPS_WINSYS_MAX_RETAINED \<noteq> None"
    by (auto simp: oldest_upto_None used_ranges_def)
  then obtain j where j: "oldest_upto (s_retained s) OOPS_WINSYS_MAX_RETAINED = Some j" by blast
  note J = oldest_upto_Some [OF j]
  then have eq: "retained_release_oldest s = retained_release j s"
    using j by (simp add: retained_release_oldest_def)
  show thesis
    by (rule that [of j])
      (use J eq inv in \<open>auto simp: used_ranges_def retained_release_winv
        retained_release_table(1) used_ranges_release [unfolded used_ranges_def]\<close>)
qed

text \<open>Nothing that works on the retained ranges looks at the buffer table.\<close>

lemma retained_release_bo:
  "retained_release j (s\<lparr>s_bo := B\<rparr>) = (retained_release j s)\<lparr>s_bo := B\<rparr>"
  by (simp add: retained_release_def retained_drop_def set_retained_def mem_note_def Let_def
      split: option.split)

lemma retained_release_oldest_bo:
  "retained_release_oldest (s\<lparr>s_bo := B\<rparr>) = (retained_release_oldest s)\<lparr>s_bo := B\<rparr>"
  by (simp add: retained_release_oldest_def retained_release_bo split: option.split)

text \<open>
  Both loops of \<open>retain\<close> end. The statement carries an arbitrary buffer table \<open>B\<close> along,
  because \<open>GEM_CLOSE\<close> calls \<open>retain\<close> between unmapping the buffer and clearing its slot.
\<close>

lemma retain_make_room_total:
  assumes "winv s"
  shows "\<exists>s'. winv s' \<and> s_bo s' = s_bo s \<and> fewer_ranges s' s \<and>
     (\<forall>B. retain_make_room n (s\<lparr>s_bo := B\<rparr>) = Some (s'\<lparr>s_bo := B\<rparr>)) \<and>
     (s_retained_bytes s' + n \<le> OOPS_WINSYS_RETAINED_BYTES \<or> s_retained_bytes s' = 0)"
  using assms
proof (induction "card (used_ranges s)" arbitrary: s rule: less_induct)
  case less
  let ?g = "s_retained_bytes s + n > OOPS_WINSYS_RETAINED_BYTES \<and> s_retained_bytes s > 0"
  show ?case
  proof (cases ?g)
    case False
    then have "retain_make_room n (s\<lparr>s_bo := B\<rparr>) = Some (s\<lparr>s_bo := B\<rparr>)" for B
      by (subst retain_make_room.simps) auto
    with False less.prems show ?thesis
      by (intro exI [of _ s]) (auto simp: not_less word_neq_0_conv)
  next
    case True
    then have "used_ranges s \<noteq> {}"
      using winvD(3) [OF less.prems] retained_sum_unused by fastforce
    then obtain j where j: "j \<in> used_ranges s"
      and eq: "retained_release_oldest s = retained_release j s"
      and r: "winv (retained_release_oldest s)" "s_bo (retained_release_oldest s) = s_bo s"
        "used_ranges (retained_release_oldest s) = used_ranges s - {j}"
      using release_oldest [OF less.prems] by metis
    have fewer: "fewer_ranges (retained_release_oldest s) s"
      using j eq fewer_ranges_release by (simp add: used_ranges_def)
    have "card (used_ranges (retained_release_oldest s)) < card (used_ranges s)"
      unfolding r(3) using j by (intro card_Diff1_less) simp_all
    from less.hyps [OF this r(1)] obtain s' where s': "winv s'" "s_bo s' = s_bo s"
      "fewer_ranges s' s"
      "\<And>B. retain_make_room n ((retained_release_oldest s)\<lparr>s_bo := B\<rparr>) = Some (s'\<lparr>s_bo := B\<rparr>)"
      "s_retained_bytes s' + n \<le> OOPS_WINSYS_RETAINED_BYTES \<or> s_retained_bytes s' = 0"
      using r(2) fewer fewer_ranges_trans by metis
    have "retain_make_room n (s\<lparr>s_bo := B\<rparr>) = Some (s'\<lparr>s_bo := B\<rparr>)" for B
      using True s'(4) [of B] by (subst retain_make_room.simps) (simp add: retained_release_oldest_bo)
    with s' show ?thesis by blast
  qed
qed

lemma retain_find_slot_total:
  assumes inv: "winv s"
  shows "\<exists>i s'. i < OOPS_WINSYS_MAX_RETAINED \<and> i \<notin> used_ranges s' \<and> winv s' \<and> s_bo s' = s_bo s \<and>
     fewer_ranges s' s \<and>
     (\<forall>B. retain_find_slot (s\<lparr>s_bo := B\<rparr>) = Some (i, s'\<lparr>s_bo := B\<rparr>)) \<and>
     (s' = s \<or> (\<exists>j\<in>used_ranges s. s' = retained_release j s))"
proof (cases "first_index (\<lambda>i. \<not> rr_used (s_retained s i)) OOPS_WINSYS_MAX_RETAINED")
  case (Some i)
  then have "retain_find_slot (s\<lparr>s_bo := B\<rparr>) = Some (i, s\<lparr>s_bo := B\<rparr>)" for B
    by (subst retain_find_slot.simps) simp
  with first_index_SomeD [OF Some] inv show ?thesis
    by (intro exI [of _ i] exI [of _ s]) (auto simp: used_ranges_def)
next
  case None
  then have all: "used_ranges s = {..<OOPS_WINSYS_MAX_RETAINED}"
    by (auto simp: used_ranges_def first_index_None)
  then have "0 \<in> used_ranges s" by (simp add: OOPS_WINSYS_MAX_RETAINED_def)
  then have "used_ranges s \<noteq> {}" by blast
  then obtain j where j: "j \<in> used_ranges s" and eq: "retained_release_oldest s = retained_release j s"
    and r: "winv (retained_release_oldest s)" "s_bo (retained_release_oldest s) = s_bo s"
      "used_ranges (retained_release_oldest s) = used_ranges s - {j}"
    using release_oldest [OF inv] by metis
  let ?s = "retained_release_oldest s"
  have "j < OOPS_WINSYS_MAX_RETAINED" "j \<notin> used_ranges ?s" using j r(3) all by auto
  then obtain i where i: "first_index (\<lambda>i. \<not> rr_used (s_retained ?s i)) OOPS_WINSYS_MAX_RETAINED = Some i"
    using first_index_ex [of j OOPS_WINSYS_MAX_RETAINED "\<lambda>i. \<not> rr_used (s_retained ?s i)"]
    by (auto simp: used_ranges_def)
  have "retain_find_slot (s\<lparr>s_bo := B\<rparr>) = Some (i, ?s\<lparr>s_bo := B\<rparr>)" for B
    by (simp add: retain_find_slot.simps [of "s\<lparr>s_bo := B\<rparr>"]
        retain_find_slot.simps [of "?s\<lparr>s_bo := B\<rparr>"] None i retained_release_oldest_bo)
  with first_index_SomeD [OF i] r j eq show ?thesis
    by (intro exI [of _ i] exI [of _ ?s]) (auto simp: used_ranges_def fewer_ranges_release)
qed

lemma retain_total:
  assumes "winv s"
  obtains i s' where "i < OOPS_WINSYS_MAX_RETAINED" "\<not> rr_used (s_retained s' i)" "winv s'"
    "s_bo s' = s_bo s" "fewer_ranges s' s"
    "\<exists>s1. winv s1 \<and> fewer_ranges s1 s \<and> fewer_ranges s' s1 \<and>
       (s_retained_bytes s1 + n \<le> OOPS_WINSYS_RETAINED_BYTES \<or> s_retained_bytes s1 = 0)"
    "\<And>B va p pr ow. retain va n p pr ow (s\<lparr>s_bo := B\<rparr>) =
       Some (retain_store i va n p pr ow (s'\<lparr>s_bo := B\<rparr>))"
proof -
  from retain_make_room_total [OF assms, of n] obtain s1 where s1: "winv s1" "s_bo s1 = s_bo s"
    "fewer_ranges s1 s"
    "\<And>B. retain_make_room n (s\<lparr>s_bo := B\<rparr>) = Some (s1\<lparr>s_bo := B\<rparr>)"
    "s_retained_bytes s1 + n \<le> OOPS_WINSYS_RETAINED_BYTES \<or> s_retained_bytes s1 = 0" by blast
  from retain_find_slot_total [OF s1(1)] obtain i s2 where s2: "i < OOPS_WINSYS_MAX_RETAINED"
    "i \<notin> used_ranges s2" "winv s2" "s_bo s2 = s_bo s1" "fewer_ranges s2 s1"
    "\<And>B. retain_find_slot (s1\<lparr>s_bo := B\<rparr>) = Some (i, s2\<lparr>s_bo := B\<rparr>)" by blast
  show thesis
    by (rule that [of i s2]) (use s1 s2 in \<open>auto simp: used_ranges_def retain_def
      intro: fewer_ranges_trans\<close>)
qed

lemma retain_store_bo:
  "retain_store i va n p pr ow (s\<lparr>s_bo := B\<rparr>) = (retain_store i va n p pr ow s)\<lparr>s_bo := B\<rparr>"
  by (simp add: retain_store_def set_retained_def Let_def)

lemma retain_store_fields [simp]:
  "s_bo (retain_store i va n p pr ow s) = s_bo s"
  "mem_calls (retain_store i va n p pr ow s) = mem_calls s"
  "s_retained_bytes (retain_store i va n p pr ow s) = s_retained_bytes s + n"
  "s_retained (retain_store i va n p pr ow s) = (s_retained s)(i :=
     \<lparr>rr_used = True, rr_owns_phys = ow, rr_prot = pr, rr_va = va, rr_size = n, rr_phys = p,
      rr_seq = s_retained_seq s + 1\<rparr>)"
  by (simp_all add: retain_store_def Let_def)

lemma views_retain_store [buf_simps]:
  assumes "i < OOPS_WINSYS_MAX_RETAINED"
  shows "seg_of (retain_store i va n p pr ow s) = (seg_of s)(Ret i \<mapsto> (unat va, unat n, p))"
    and "owner_of (retain_store i va n p pr ow s) =
      (owner_of s)(Range i := if ow then Some (p, n) else None)"
proof -
  let ?b = "s\<lparr>s_retained_seq := s_retained_seq s + 1, s_retained_bytes := s_retained_bytes s + n\<rparr>"
  have "seg_of ?b = seg_of s" "owner_of ?b = owner_of s"
    by (rule seg_of_cong owner_of_cong; simp)+
  then show "seg_of (retain_store i va n p pr ow s) = (seg_of s)(Ret i \<mapsto> (unat va, unat n, p))"
    and "owner_of (retain_store i va n p pr ow s) =
      (owner_of s)(Range i := if ow then Some (p, n) else None)"
    using assms by (simp_all add: retain_store_def Let_def buf_simps)
qed

definition retained_total :: "buffers \<Rightarrow> nat" where
  "retained_total s = (\<Sum>j\<in>used_ranges s. unat (rr_size (s_retained s j)))"

lemma retained_bytes_total:
  assumes "winv s"
  shows "s_retained_bytes s = of_nat (retained_total s)"
proof -
  have "retained_sum (s_retained s) = (\<Sum>j\<in>used_ranges s. rr_size (s_retained s j))"
    unfolding retained_sum_def used_ranges_def
    by (simp add: sum.If_cases lessThan_def Collect_conj_eq [symmetric])
  also have "\<dots> = of_nat (retained_total s)" by (simp add: retained_total_def)
  finally show ?thesis using winvD(3) [OF assms] by simp
qed

lemma retained_total_fewer:
  assumes "fewer_ranges s' s"
  shows "retained_total s' \<le> retained_total s" and "card (used_ranges s') \<le> card (used_ranges s)"
proof -
  have sub: "used_ranges s' \<subseteq> used_ranges s" using assms by (simp add: fewer_ranges_def)
  then show "card (used_ranges s') \<le> card (used_ranges s)" by (simp add: card_mono)
  have "retained_total s' = (\<Sum>j\<in>used_ranges s'. unat (rr_size (s_retained s j)))"
    unfolding retained_total_def by (rule sum.cong) (use assms in \<open>auto simp: fewer_ranges_def\<close>)
  also have "\<dots> \<le> retained_total s"
    unfolding retained_total_def using sub by (intro sum_mono2) simp_all
  finally show "retained_total s' \<le> retained_total s" .
qed

text \<open>
  What an operation does to the retained ranges: it drops some of them, or it makes room for
  \<open>n\<close> bytes, drops at most what a free slot needs, and adds one range of \<open>n\<close> bytes.
\<close>

definition adds_range :: "u64 \<Rightarrow> buffers \<Rightarrow> buffers \<Rightarrow> bool" where
  "adds_range n s s' \<longleftrightarrow> (\<exists>s1 s2 i. fewer_ranges s1 s \<and> fewer_ranges s2 s1 \<and> i \<notin> used_ranges s2 \<and>
     (of_nat (retained_total s1) + n \<le> OOPS_WINSYS_RETAINED_BYTES \<or>
        (of_nat (retained_total s1) :: u64) = 0) \<and>
     used_ranges s' = insert i (used_ranges s2) \<and> rr_size (s_retained s' i) = n \<and>
     (\<forall>k\<in>used_ranges s2. rr_size (s_retained s' k) = rr_size (s_retained s2 k)))"

lemma adds_rangeI:
  assumes "\<exists>s1. winv s1 \<and> fewer_ranges s1 s \<and> fewer_ranges s2 s1 \<and>
      (s_retained_bytes s1 + n \<le> OOPS_WINSYS_RETAINED_BYTES \<or> s_retained_bytes s1 = 0)"
    and i: "i < OOPS_WINSYS_MAX_RETAINED" "\<not> rr_used (s_retained s2 i)"
    and tab: "s_retained s' = s_retained (retain_store i va n p pr ow s2)"
  shows "adds_range n s s'"
proof -
  from assms(1) obtain s1 where s1: "winv s1" "fewer_ranges s1 s" "fewer_ranges s2 s1"
    "s_retained_bytes s1 + n \<le> OOPS_WINSYS_RETAINED_BYTES \<or> s_retained_bytes s1 = 0" by blast
  have "i \<notin> used_ranges s2" "used_ranges s' = insert i (used_ranges s2)"
    "rr_size (s_retained s' i) = n"
    "\<forall>k\<in>used_ranges s2. rr_size (s_retained s' k) = rr_size (s_retained s2 k)"
    using i tab by (auto simp: used_ranges_def)
  with s1 show ?thesis
    unfolding adds_range_def retained_bytes_total [OF s1(1)] by blast
qed

lemma fewer_ranges_table:
  "s_retained s' = s_retained s \<Longrightarrow> fewer_ranges s' s"
  by (simp add: fewer_ranges_def used_ranges_def)

lemma adds_range_cong:
  assumes "s_retained t = s_retained s" and "s_retained t' = s_retained s'" and "adds_range n t t'"
  shows "adds_range n s s'"
proof -
  have "used_ranges t' = used_ranges s'" and "fewer_ranges s1 t \<longleftrightarrow> fewer_ranges s1 s" for s1
    using assms(1,2) by (simp_all add: used_ranges_def fewer_ranges_def)
  then show ?thesis using assms(2,3) by (simp add: adds_range_def)
qed

section \<open>The operations keep the invariant\<close>

lemma bo_indexD:
  assumes "bo_index s h = Some i"
  shows "i < OOPS_WINSYS_MAX_BO" and "bo_live (s_bo s i)" and "h \<noteq> 0" and "i = unat h - 1"
    and "unat h \<le> OOPS_WINSYS_MAX_BO"
proof -
  show "bo_live (s_bo s i)" and "h \<noteq> 0" and "i = unat h - 1" and "unat h \<le> OOPS_WINSYS_MAX_BO"
    using assms by (auto simp: bo_index_def split: if_splits)
  moreover from this have "0 < unat h" by (simp add: unat_gt_0)
  ultimately show "i < OOPS_WINSYS_MAX_BO" by linarith
qed

text \<open>Unmapping a live buffer's GPU range: the range, still mapped, goes to the retained table.\<close>

lemma winv_unmap_retain:
  assumes inv: "winv s" and i: "i < OOPS_WINSYS_MAX_BO" "bo_live (s_bo s i)"
    and va: "bo_gpu_va (s_bo s i) \<noteq> 0"
    and j: "j < OOPS_WINSYS_MAX_RETAINED" "\<not> rr_used (s_retained s j)"
  shows "winv (set_bo i ((s_bo s i)\<lparr>bo_gpu_va := 0\<rparr>)
    (retain_store j (bo_gpu_va (s_bo s i)) (bo_size (s_bo s i)) (bo_phys (s_bo s i)) pr False s))"
    (is "winv ?t")
proof -
  have F: "seg_of ?t = (seg_of s)(Gpu i := None, Ret j := seg_of s (Gpu i))"
    using i va j by (auto simp: buf_simps)
  have W: "owner_of ?t = owner_of s"
    using i j by (auto simp: buf_simps)
  have "space_ok (mem_calls s) ((seg_of s)(Gpu i := None, Ret j := seg_of s (Gpu i)))"
    by (rule space_move [OF winvD(1) [OF inv]]) (use j in simp_all)
  then have sp: "space_ok (mem_calls ?t) (seg_of ?t)"
    unfolding F by simp
  have "owned_ok (mem_calls s) ((seg_of s)(Gpu i := None, Ret j := seg_of s (Gpu i))) (owner_of s)"
    using winvD(2) [OF inv] by (rule owned_segment_move)
  then have "owned_ok (mem_calls ?t) (seg_of ?t) (owner_of ?t)"
    unfolding F W by simp
  moreover have "s_retained_bytes ?t = retained_sum (s_retained ?t)"
    using j winvD(3) [OF inv] by (simp add: buf_simps)
  ultimately show ?thesis using sp by (simp add: winv_def)
qed

text \<open>Dropping the CPU mapping of a live buffer.\<close>

lemma winv_clear_cpu:
  assumes inv: "winv s" and i: "i < OOPS_WINSYS_MAX_BO" "bo_live (s_bo s i)"
    and cpu: "bo_cpu_ptr (s_bo s i) \<noteq> 0"
  shows "winv (set_bo i ((s_bo s i)\<lparr>bo_cpu_ptr := 0\<rparr>)
    (mem_note (Unmap (bo_cpu_ptr (s_bo s i)) (bo_size (s_bo s i))) s))" (is "winv ?t")
proof -
  let ?c = "Unmap (bo_cpu_ptr (s_bo s i)) (bo_size (s_bo s i))"
  have F: "seg_of ?t = (seg_of s)(Cpu i := None)" and W: "owner_of ?t = owner_of s"
    using i by (auto simp: buf_simps)
  have "space_ok (?c # mem_calls s) ((seg_of s)(Cpu i := None))"
    by (rule space_unmap [OF winvD(1) [OF inv], where p = "bo_phys (s_bo s i)"])
      (use i cpu in simp)
  moreover have "owned_ok (?c # mem_calls s) (seg_of s) (owner_of s)"
    by (rule owned_ok_same_ledger [OF winvD(2) [OF inv]])
      (auto simp: owned_okD(6) [OF winvD(2) [OF inv]])
  then have "owned_ok (?c # mem_calls s) ((seg_of s)(Cpu i := None)) (owner_of s)"
    by (rule owned_segment_del)
  ultimately show ?thesis
    using winvD(3) [OF inv] unfolding winv_def F W by simp
qed

text \<open>Closing a buffer that has no CPU mapping left: its GPU range is kept, with its pages.\<close>

lemma winv_close_mapped:
  assumes inv: "winv s" and i: "i < OOPS_WINSYS_MAX_BO" "bo_live (s_bo s i)"
    and va: "bo_gpu_va (s_bo s i) \<noteq> 0" "bo_cpu_ptr (s_bo s i) = 0"
    and j: "j < OOPS_WINSYS_MAX_RETAINED" "\<not> rr_used (s_retained s j)"
  shows "winv (set_bo i bo_zero
    (retain_store j (bo_gpu_va (s_bo s i)) (bo_size (s_bo s i)) (bo_phys (s_bo s i)) pr True s))"
    (is "winv ?t")
proof -
  let ?own = "(bo_phys (s_bo s i), bo_size (s_bo s i))"
  have F: "seg_of ?t = (seg_of s)(Gpu i := None, Ret j := seg_of s (Gpu i))"
    using i va j by (auto simp: buf_simps bo_zero_def)
  have W: "owner_of ?t = (owner_of s)(Bo i := None, Range j \<mapsto> ?own)"
    using i j by (auto simp: buf_simps bo_zero_def)
  have sp: "space_ok (mem_calls s) ((seg_of s)(Gpu i := None, Ret j := seg_of s (Gpu i)))"
    by (rule space_move [OF winvD(1) [OF inv]]) (use j in simp_all)
  have "owned_ok (mem_calls s) (seg_of s) ((owner_of s)(Bo i := None, Range j \<mapsto> ?own))"
    by (rule owned_move [OF winvD(2) [OF inv]]) (use i j in simp_all)
  then have "owned_ok (mem_calls s) ((seg_of s)(Gpu i := None, Ret j := seg_of s (Gpu i)))
      ((owner_of s)(Bo i := None, Range j \<mapsto> ?own))"
    by (rule owned_segment_move)
  moreover have "s_retained_bytes ?t = retained_sum (s_retained ?t)"
    using j winvD(3) [OF inv] by (simp add: buf_simps)
  ultimately show ?thesis using sp unfolding winv_def F W by simp
qed

lemma winv_close_adopted:
  assumes inv: "winv s" and i: "i < OOPS_WINSYS_MAX_BO" "bo_live (s_bo s i)"
    and va: "bo_gpu_va (s_bo s i) = 0" "bo_cpu_ptr (s_bo s i) = 0"
    and j: "j < OOPS_WINSYS_MAX_RETAINED" "rr_used (s_retained s j)"
      "rr_phys (s_retained s j) = bo_phys (s_bo s i)"
  shows "winv (set_bo i bo_zero (set_retained j ((s_retained s j)\<lparr>rr_owns_phys := True\<rparr>) s))"
    (is "winv ?t")
proof -
  let ?own = "(bo_phys (s_bo s i), bo_size (s_bo s i))"
  note ok = winvD(2) [OF inv]
  have own: "owner_of s (Bo i) = Some ?own" using i by simp
  have "ledger (mem_calls s) (bo_phys (s_bo s i)) = Some (bo_size (s_bo s i))"
    using own owned_okD(1) [OF ok] by blast
  then have n: "rr_size (s_retained s j) = bo_size (s_bo s i)"
    using owned_okD(3) [OF ok, of "Ret j"] j by (auto simp: word_unat_eq_iff)
  have F: "seg_of ?t = seg_of s"
    using i va j by (auto simp: buf_simps views_give_pages bo_zero_def intro!: fun_upd_idem)
  have W: "owner_of ?t = (owner_of s)(Bo i := None, Range j \<mapsto> ?own)"
    using i j n by (auto simp: buf_simps views_give_pages bo_zero_def fun_upd_twist)
  have "owner_of s (Range j) = None"
    using owned_okD(2) [OF ok own, of "Range j"] j by auto
  then have "owned_ok (mem_calls s) (seg_of s) ((owner_of s)(Bo i := None, Range j \<mapsto> ?own))"
    by (intro owned_move [OF ok own]) simp_all
  moreover have "s_retained_bytes ?t = retained_sum (s_retained ?t)"
    using j winvD(3) [OF inv] by (simp add: buf_simps)
  ultimately show ?thesis using winvD(1) [OF inv] unfolding winv_def F W by simp
qed

text \<open>A live buffer's pages that nothing maps any more can be freed.\<close>

lemma winv_free_bo_pages:
  assumes inv: "winv s" and i: "i < OOPS_WINSYS_MAX_BO" "bo_live (s_bo s i)"
    and va: "bo_gpu_va (s_bo s i) = 0" "bo_cpu_ptr (s_bo s i) = 0"
    and none: "\<And>j. j < OOPS_WINSYS_MAX_RETAINED \<Longrightarrow> rr_used (s_retained s j) \<Longrightarrow>
      rr_phys (s_retained s j) \<noteq> bo_phys (s_bo s i)"
  shows "owned_ok (FreeDirect (bo_phys (s_bo s i)) (bo_size (s_bo s i)) # mem_calls s)
    (seg_of s) ((owner_of s)(Bo i := None))"
proof (rule owned_free [OF winvD(2) [OF inv]])
  show own: "owner_of s (Bo i) = Some (bo_phys (s_bo s i), bo_size (s_bo s i))" using i by simp
  fix y v l
  note only = owned_okD(2) [OF winvD(2) [OF inv] own]
  show "seg_of s y \<noteq> Some (v, l, bo_phys (s_bo s i))"
  proof (cases y)
    case (Ret j)
    then show ?thesis using none [of j] by auto
  next
    case (Gpu k)
    then show ?thesis using seg_bo_owner [of s y v l _ k] only [of "Bo k"] va by fastforce
  next
    case (Cpu k)
    then show ?thesis using seg_bo_owner [of s y v l _ k] only [of "Bo k"] va by fastforce
  qed
qed

lemma winv_close_freed:
  assumes inv: "winv s" and i: "i < OOPS_WINSYS_MAX_BO" "bo_live (s_bo s i)"
    and va: "bo_gpu_va (s_bo s i) = 0" "bo_cpu_ptr (s_bo s i) = 0"
    and none: "\<And>j. j < OOPS_WINSYS_MAX_RETAINED \<Longrightarrow> rr_used (s_retained s j) \<Longrightarrow>
      rr_phys (s_retained s j) \<noteq> bo_phys (s_bo s i)"
  shows "winv (set_bo i bo_zero (mem_note (FreeDirect (bo_phys (s_bo s i)) (bo_size (s_bo s i))) s))"
    (is "winv ?t")
proof -
  have F: "seg_of ?t = seg_of s"
    using i va by (auto simp: buf_simps bo_zero_def intro!: fun_upd_idem)
  have W: "owner_of ?t = (owner_of s)(Bo i := None)"
    using i by (simp add: buf_simps bo_zero_def)
  have "space_ok (mem_calls ?t) (seg_of s)"
    by (rule space_ok_same_xlate [OF winvD(1) [OF inv]]) simp
  with winv_free_bo_pages [OF inv i va none] winvD(3) [OF inv] show ?thesis
    unfolding winv_def F W by simp
qed

lemma set_bo_overwrites:
  "B(i := b) = (s_bo x)(i := b) \<Longrightarrow> set_bo i b (x\<lparr>s_bo := B\<rparr>) = set_bo i b x"
  by (simp add: set_bo_def)

lemma gem_close_dead: "bo_index s h = None \<Longrightarrow> oops_winsys_gem_close h s = Some (Err EINVAL, s)"
  by (simp add: oops_winsys_gem_close_def)

text \<open>
  Past the CPU unmap, a close goes on as from a state in which the buffer has no CPU mapping
  and the invariant holds; the buffer table it still sees is overwritten at the end.
\<close>

lemma gem_close_after_cpu:
  assumes inv: "winv s" and h: "bo_index s h = Some i"
  obtains t where "winv t" "s_retained t = s_retained s" "bo_live (s_bo t i)"
    "bo_cpu_ptr (s_bo t i) = 0" "bo_gpu_va (s_bo t i) = bo_gpu_va (s_bo s i)"
    "bo_size (s_bo t i) = bo_size (s_bo s i)" "bo_phys (s_bo t i) = bo_phys (s_bo s i)"
    "(s_bo t)(i := bo_zero) = (s_bo s)(i := bo_zero)"
    "oops_winsys_gem_close h s = (let bo = s_bo s i in
      (case (if bo_gpu_va bo \<noteq> 0
             then retain (bo_gpu_va bo) (bo_size bo) (bo_phys bo) (bo_gpu_prot bo) True (t\<lparr>s_bo := s_bo s\<rparr>)
             else let (adopted, s2) = retained_adopt_pages (bo_phys bo) (t\<lparr>s_bo := s_bo s\<rparr>)
                  in Some (if adopted then s2
                           else mem_note (FreeDirect (bo_phys bo) (bo_size bo)) s2)) of
         None \<Rightarrow> None | Some s3 \<Rightarrow> Some (Ok, set_bo i bo_zero s3)))"
proof -
  note i = bo_indexD(1,2) [OF h]
  let ?b = "s_bo s i"
  define t where "t = (if bo_cpu_ptr ?b \<noteq> 0
    then set_bo i (?b\<lparr>bo_cpu_ptr := 0\<rparr>) (mem_note (Unmap (bo_cpu_ptr ?b) (bo_size ?b)) s) else s)"
  let ?s1 = "if bo_cpu_ptr ?b \<noteq> 0 then mem_note (Unmap (bo_cpu_ptr ?b) (bo_size ?b)) s else s"
  have s1: "?s1 = t\<lparr>s_bo := s_bo s\<rparr>" by (simp add: t_def set_bo_def mem_note_def)
  show thesis
  proof (rule that [of t], goal_cases)
    case 1
    then show ?case using winv_clear_cpu [OF inv i] inv by (simp add: t_def)
  next
    case 9
    then show ?case
      unfolding s1 [symmetric] oops_winsys_gem_close_def h option.case Let_def by (rule refl)
  qed (use i in \<open>auto simp: t_def\<close>)
qed

lemma gem_close_live:
  assumes inv: "winv s" and h: "bo_index s h = Some i"
  shows "\<exists>s'. oops_winsys_gem_close h s = Some (Ok, s') \<and> winv s' \<and>
    s_bo s' = (s_bo s)(i := bo_zero) \<and>
    (fewer_ranges s' s \<or> adds_range (bo_size (s_bo s i)) s s')"
proof -
  note i = bo_indexD(1) [OF h]
  let ?b = "s_bo s i"
  obtain t where t: "winv t" "s_retained t = s_retained s"
    and ti: "bo_live (s_bo t i)" "bo_cpu_ptr (s_bo t i) = 0" "bo_gpu_va (s_bo t i) = bo_gpu_va ?b"
      "bo_size (s_bo t i) = bo_size ?b" "bo_phys (s_bo t i) = bo_phys ?b"
      "(s_bo t)(i := bo_zero) = (s_bo s)(i := bo_zero)"
    and close: "oops_winsys_gem_close h s =
      (case (if bo_gpu_va ?b \<noteq> 0
             then retain (bo_gpu_va ?b) (bo_size ?b) (bo_phys ?b) (bo_gpu_prot ?b) True (t\<lparr>s_bo := s_bo s\<rparr>)
             else case retained_adopt_pages (bo_phys ?b) (t\<lparr>s_bo := s_bo s\<rparr>) of
               (adopted, s2) \<Rightarrow> Some (if adopted then s2
                           else mem_note (FreeDirect (bo_phys ?b) (bo_size ?b)) s2)) of
         None \<Rightarrow> None | Some s3 \<Rightarrow> Some (Ok, set_bo i bo_zero s3))"
    by (rule gem_close_after_cpu [OF inv h, unfolded Let_def])
  have over: "set_bo i bo_zero (x\<lparr>s_bo := s_bo s\<rparr>) = set_bo i bo_zero x" if "s_bo x = s_bo t" for x
    by (rule set_bo_overwrites) (simp add: that ti(6))
  consider (mapped) "bo_gpu_va ?b \<noteq> 0"
    | (freed) "bo_gpu_va ?b = 0" "first_index (\<lambda>i. rr_used (s_retained t i) \<and>
        rr_phys (s_retained t i) = bo_phys ?b) OOPS_WINSYS_MAX_RETAINED = None"
    | (adopted) j where "bo_gpu_va ?b = 0" "first_index (\<lambda>i. rr_used (s_retained t i) \<and>
        rr_phys (s_retained t i) = bo_phys ?b) OOPS_WINSYS_MAX_RETAINED = Some j"
    by (metis not_None_eq)
  then show ?thesis
  proof cases
    case mapped
    obtain j t' where j: "j < OOPS_WINSYS_MAX_RETAINED" "\<not> rr_used (s_retained t' j)"
      and t': "winv t'" "s_bo t' = s_bo t"
        "\<exists>s1. winv s1 \<and> fewer_ranges s1 t \<and> fewer_ranges t' s1 \<and>
          (s_retained_bytes s1 + bo_size ?b \<le> OOPS_WINSYS_RETAINED_BYTES \<or> s_retained_bytes s1 = 0)"
        "\<And>B va p pr ow. retain va (bo_size ?b) p pr ow (t\<lparr>s_bo := B\<rparr>) =
          Some (retain_store j va (bo_size ?b) p pr ow (t'\<lparr>s_bo := B\<rparr>))"
      using retain_total [OF t(1), of "bo_size ?b"] by metis
    let ?u = "retain_store j (bo_gpu_va ?b) (bo_size ?b) (bo_phys ?b) (bo_gpu_prot ?b) True t'"
    have "oops_winsys_gem_close h s = Some (Ok, set_bo i bo_zero ?u)"
      using mapped unfolding close t'(4) by (simp add: retain_store_bo over t'(2))
    moreover have "winv (set_bo i bo_zero ?u)"
      using winv_close_mapped [OF t'(1) i(1) _ _ _ j, of "bo_gpu_prot ?b"] ti mapped t'(2) by simp
    moreover have "adds_range (bo_size ?b) t (set_bo i bo_zero ?u)"
      by (rule adds_rangeI [OF t'(3) j]) simp
    then have "adds_range (bo_size ?b) s (set_bo i bo_zero ?u)"
      by (rule adds_range_cong [rotated 2]) (simp_all add: t)
    ultimately show ?thesis by (simp add: t'(2) ti(6))
  next
    case freed
    let ?u = "mem_note (FreeDirect (bo_phys ?b) (bo_size ?b)) t"
    have note_bo: "mem_note c (t\<lparr>s_bo := s_bo s\<rparr>) = (mem_note c t)\<lparr>s_bo := s_bo s\<rparr>" for c
      by (simp add: mem_note_def)
    have "oops_winsys_gem_close h s = Some (Ok, set_bo i bo_zero ?u)"
      using freed unfolding close by (simp add: retained_adopt_pages_def note_bo over)
    moreover have "winv (set_bo i bo_zero ?u)"
      using winv_close_freed [OF t(1) i(1)] ti freed by (simp add: first_index_None)
    moreover have "fewer_ranges (set_bo i bo_zero ?u) s"
      by (rule fewer_ranges_table) (simp add: t)
    ultimately show ?thesis by (simp add: ti(6))
  next
    case (adopted j)
    let ?u = "set_retained j ((s_retained t j)\<lparr>rr_owns_phys := True\<rparr>) t"
    have set_bo: "set_retained j r (t\<lparr>s_bo := s_bo s\<rparr>) = (set_retained j r t)\<lparr>s_bo := s_bo s\<rparr>" for r
      by (simp add: set_retained_def)
    have "oops_winsys_gem_close h s = Some (Ok, set_bo i bo_zero ?u)"
      using adopted unfolding close by (simp add: retained_adopt_pages_def set_bo over)
    moreover have "winv (set_bo i bo_zero ?u)"
      using winv_close_adopted [OF t(1) i(1)] ti adopted(1) first_index_SomeD [OF adopted(2)] by simp
    moreover have "fewer_ranges (set_bo i bo_zero ?u) s"
      using first_index_SomeD(2) [OF adopted(2)] by (auto simp: fewer_ranges_def used_ranges_def t(2))
    ultimately show ?thesis by (simp add: ti(6))
  qed
qed

section \<open>Creation and CPU mappings\<close>

lemma winv_collisions: "winv (s\<lparr>s_collisions := c\<rparr>) = winv s"
proof -
  have "seg_of (s\<lparr>s_collisions := c\<rparr>) = seg_of s" "owner_of (s\<lparr>s_collisions := c\<rparr>) = owner_of s"
    by (rule seg_of_cong owner_of_cong; simp)+
  then show ?thesis by (simp add: winv_def)
qed

text \<open>A refused call leaves the two readings of the history as they were.\<close>

lemma winv_refused_call:
  assumes "winv s" and "c = AllocDirect n al None \<or> c = MapDirect n p None \<or> c = BatchMap va p n pr False"
  shows "winv (mem_note c s)"
proof -
  have "space_ok (c # mem_calls s) (seg_of s)"
    by (rule space_ok_same_xlate [OF winvD(1) [OF assms(1)]]) (use assms(2) in auto)
  moreover have "owned_ok (c # mem_calls s) (seg_of s) (owner_of s)"
    by (rule owned_ok_same_ledger [OF winvD(2) [OF assms(1)]])
      (use assms(2) owned_okD(6) [OF winvD(2) [OF assms(1)]] in auto)
  ultimately show ?thesis
    using winvD(3) [OF assms(1)] by (simp add: winv_def buf_simps)
qed

lemma winv_create:
  assumes P: "platform_ok P" and inv: "winv s" and i: "i < OOPS_WINSYS_MAX_BO" "\<not> bo_live (s_bo s i)"
    and n: "n \<noteq> 0" and r: "mem_alloc_direct P (mem_calls s) n al = Some p"
    and b: "bo_live b" "bo_size b = n" "bo_phys b = p" "bo_gpu_va b = 0" "bo_cpu_ptr b = 0"
  shows "winv (set_bo i b (mem_note (AllocDirect n al (Some p)) s))" (is "winv ?t")
proof -
  let ?c = "AllocDirect n al (Some p)"
  have F: "seg_of ?t = seg_of s" and W: "owner_of ?t = (owner_of s)(Bo i \<mapsto> (p, n))"
    using i b by (auto simp: buf_simps intro!: fun_upd_idem)
  have "space_ok (?c # mem_calls s) (seg_of s)"
    by (rule space_ok_same_xlate [OF winvD(1) [OF inv]]) simp
  moreover have "owned_ok (?c # mem_calls s) (seg_of s) ((owner_of s)(Bo i \<mapsto> (p, n)))"
    by (rule owned_alloc [OF winvD(2) [OF inv] _ n platform_alloc(1) [OF P r]])
      (use i platform_alloc(2) [OF P r] in auto)
  ultimately show ?thesis
    using winvD(3) [OF inv] unfolding winv_def F W by simp
qed

lemma gem_create_winv:
  assumes P: "platform_ok P" and inv: "winv s"
  shows "winv (snd (oops_winsys_gem_create P arg s))"
proof (cases "round_up_page (gc_bo_size arg) = 0 \<or>
    first_index (\<lambda>i. \<not> bo_live (s_bo s i)) OOPS_WINSYS_MAX_BO = None")
  case True
  then show ?thesis using inv by (auto simp: oops_winsys_gem_create_def Let_def)
next
  case False
  then obtain i where n: "round_up_page (gc_bo_size arg) \<noteq> 0"
    and i: "first_index (\<lambda>i. \<not> bo_live (s_bo s i)) OOPS_WINSYS_MAX_BO = Some i" by blast
  let ?al = "if gc_alignment arg < OOPS_WINSYS_PAGE then OOPS_WINSYS_PAGE else gc_alignment arg"
  show ?thesis
  proof (cases "mem_alloc_direct P (mem_calls s) (round_up_page (gc_bo_size arg)) ?al")
    case None
    then show ?thesis using n i inv
      by (auto simp: oops_winsys_gem_create_def Let_def intro: winv_refused_call)
  next
    case (Some p)
    then show ?thesis
      using n i first_index_SomeD [OF i]
      by (auto simp: oops_winsys_gem_create_def Let_def intro!: winv_create [OF P inv])
  qed
qed

lemma bo_cpu_map_winv:
  assumes P: "platform_ok P" and inv: "winv s" and i: "i < OOPS_WINSYS_MAX_BO" "bo_live (s_bo s i)"
  shows "winv (snd (bo_cpu_map P i s))"
proof (cases "bo_cpu_ptr (s_bo s i) = 0")
  case False
  then show ?thesis using inv by (simp add: bo_cpu_map_def)
next
  case cpu: True
  let ?b = "s_bo s i"
  show ?thesis
  proof (cases "mem_map_direct P (mem_calls s) (bo_size ?b) (bo_phys ?b)")
    case None
    then show ?thesis using cpu inv by (simp add: bo_cpu_map_def Let_def winv_refused_call)
  next
    case (Some v)
    let ?c = "MapDirect (bo_size ?b) (bo_phys ?b) (Some v)"
    let ?t = "set_bo i (?b\<lparr>bo_cpu_ptr := v\<rparr>) (mem_note ?c s)"
    let ?g = "(unat v, unat (bo_size ?b), bo_phys ?b)"
    have F: "seg_of ?t = (seg_of s)(Cpu i := Some ?g)" and W: "owner_of ?t = owner_of s"
      using i platform_map(1) [OF P Some] by (auto simp: buf_simps intro!: fun_upd_idem)
    have led: "ledger (mem_calls s) (bo_phys ?b) = Some (bo_size ?b)"
      using owned_okD(1) [OF winvD(2) [OF inv]] i by (metis owner_of.simps(1))
    have apart: "apart ?g h" if "seg_of s y = Some h" for y h
    proof (rule ccontr)
      assume no: "\<not> apart ?g h"
      obtain w m q where h: "h = (w, m, q)" by (cases h)
      have "0 < m" using owned_okD(3,4) [OF winvD(2) [OF inv]] that h by (metis unat_gt_0)
      moreover have "0 < unat (bo_size ?b)"
        using owned_okD(4) [OF winvD(2) [OF inv] led] by (simp add: unat_gt_0)
      ultimately have "w \<le> max w (unat v) \<and> max w (unat v) < w + m"
        "in_range v (bo_size ?b) (max w (unat v))"
        using no by (auto simp: apart_def h in_range_def)
      then show False
        using platform_map(3) [OF P Some] space_okD(2) [OF winvD(1) [OF inv]] that h
        by (metis covers.simps option.distinct(1))
    qed
    have "space_ok (?c # mem_calls s) ((seg_of s)(Cpu i := Some ?g))"
      by (rule space_add [OF winvD(1) [OF inv]]) (use cpu apart platform_map(2) [OF P Some] in auto)
    moreover have "owned_ok (?c # mem_calls s) (seg_of s) (owner_of s)"
      by (rule owned_ok_same_ledger [OF winvD(2) [OF inv]])
        (auto simp: owned_okD(6) [OF winvD(2) [OF inv]])
    then have "owned_ok (?c # mem_calls s) ((seg_of s)(Cpu i := Some ?g)) (owner_of s)"
      by (rule owned_segments)
        (use led owned_okD(3) [OF winvD(2) [OF inv]] in \<open>fastforce split: if_splits\<close>)
    ultimately have "winv ?t"
      using winvD(3) [OF inv] unfolding winv_def F W by simp
    then show ?thesis using cpu Some by (simp add: bo_cpu_map_def Let_def)
  qed
qed

section \<open>Mapping a buffer\<close>

text \<open>
  What libdrm's address manager and radeonsi keep to: a buffer is mapped whole, while it is
  not mapped, at a non-null address range below the top of the address space that overlaps
  no live mapping; and a buffer that was unmapped comes back, if at all, at the address its
  pages are still retained at.
\<close>

definition va_map_clean :: "buffers \<Rightarrow> drm_amdgpu_gem_va \<Rightarrow> nat \<Rightarrow> bool" where
  "va_map_clean s arg i \<longleftrightarrow>
     bo_gpu_va (s_bo s i) = 0 \<and> va_address arg \<noteq> 0 \<and>
     (va_map_size arg = 0 \<or> bo_size (s_bo s i) \<le> round_up_page (va_map_size arg)) \<and>
     unat (va_address arg) + unat (bo_size (s_bo s i)) < 2 ^ 64 \<and>
     (\<forall>k g. seg_of s (Gpu k) = Some g \<or> seg_of s (Cpu k) = Some g \<longrightarrow>
        apart (unat (va_address arg), unat (bo_size (s_bo s i)), bo_phys (s_bo s i)) g) \<and>
     (\<forall>j<OOPS_WINSYS_MAX_RETAINED. rr_used (s_retained s j) \<longrightarrow>
        rr_phys (s_retained s j) = bo_phys (s_bo s i) \<longrightarrow> rr_va (s_retained s j) = va_address arg)"

lemma va_overlap_unat:
  assumes "unat va + unat n < 2 ^ 64" and "unat va' + unat n' < 2 ^ 64"
  shows "va_overlap va n va' n' \<longleftrightarrow> \<not> apart (unat va, unat n, p) (unat va', unat n', p')"
proof -
  have "unat (va + n) = unat va + unat n" "unat (va' + n') = unat va' + unat n'"
    using assms by (simp_all add: unat_word_ariths)
  then show ?thesis by (auto simp: va_overlap_def apart_def word_less_nat_alt)
qed

lemma release_overlapping_upto:
  assumes "winv s" and "m \<le> OOPS_WINSYS_MAX_RETAINED"
    and "s' = fold (\<lambda>k s. let r = s_retained s k in
         if rr_used r \<and> va_overlap va n (rr_va r) (rr_size r) then retained_release k s else s)
       [0..<m] s"
  shows "winv s' \<and> s_bo s' = s_bo s \<and> used_ranges s' \<subseteq> used_ranges s \<and>
    (\<forall>k\<in>used_ranges s'. rr_va (s_retained s' k) = rr_va (s_retained s k) \<and>
       rr_size (s_retained s' k) = rr_size (s_retained s k)) \<and>
    (\<forall>k\<in>used_ranges s'. k < m \<longrightarrow> \<not> va_overlap va n (rr_va (s_retained s k)) (rr_size (s_retained s k)))"
  using assms(2,3)
proof (induction m arbitrary: s')
  case 0
  then show ?case using assms(1) by simp
next
  case (Suc m)
  define t where "t = fold (\<lambda>k s. let r = s_retained s k in
         if rr_used r \<and> va_overlap va n (rr_va r) (rr_size r) then retained_release k s else s)
       [0..<m] s"
  have IH: "winv t" "s_bo t = s_bo s" "used_ranges t \<subseteq> used_ranges s"
    "\<And>k. k \<in> used_ranges t \<Longrightarrow> rr_va (s_retained t k) = rr_va (s_retained s k) \<and>
       rr_size (s_retained t k) = rr_size (s_retained s k)"
    "\<And>k. k \<in> used_ranges t \<Longrightarrow> k < m \<Longrightarrow>
       \<not> va_overlap va n (rr_va (s_retained s k)) (rr_size (s_retained s k))"
    using Suc.IH [OF _ t_def] Suc.prems(1) by auto
  let ?r = "s_retained t m"
  have m: "m < OOPS_WINSYS_MAX_RETAINED" using Suc.prems(1) by simp
  show ?case
  proof (cases "rr_used ?r \<and> va_overlap va n (rr_va ?r) (rr_size ?r)")
    case True
    then have s': "s' = retained_release m t" using Suc.prems(2) by (simp add: t_def Let_def)
    with True IH m show ?thesis
      by (auto simp: retained_release_winv retained_release_table used_ranges_release less_Suc_eq)
  next
    case False
    then have "s' = t" using Suc.prems(2) by (auto simp: t_def Let_def)
    with False IH show ?thesis by (auto simp: less_Suc_eq used_ranges_def)
  qed
qed

lemma release_overlapping_clears:
  assumes inv: "winv s" and fits: "unat va + unat n < 2 ^ 64"
  shows "winv (release_overlapping va n s)" and "s_bo (release_overlapping va n s) = s_bo s"
    and "seg_of (release_overlapping va n s) (Ret j) = Some g \<Longrightarrow> apart (unat va, unat n, p) g"
proof -
  let ?t = "release_overlapping va n s"
  have t: "winv ?t" "s_bo ?t = s_bo s"
    "\<And>k. k \<in> used_ranges ?t \<Longrightarrow>
       \<not> va_overlap va n (rr_va (s_retained ?t k)) (rr_size (s_retained ?t k))"
    using release_overlapping_upto [OF inv le_refl release_overlapping_def]
    by (auto simp: used_ranges_def)
  then show "winv ?t" "s_bo ?t = s_bo s" by blast+
  assume g: "seg_of ?t (Ret j) = Some g"
  let ?r = "s_retained ?t j"
  from g have j: "j \<in> used_ranges ?t" and geq: "g = (unat (rr_va ?r), unat (rr_size ?r), rr_phys ?r)"
    by (auto simp: used_ranges_def split: if_splits)
  have "unat (rr_va ?r) + unat (rr_size ?r) < 2 ^ 64"
    using space_okD(3) [OF winvD(1) [OF t(1)]] g geq by blast
  then show "apart (unat va, unat n, p) g"
    using t(3) [OF j] va_overlap_unat [OF fits] geq by blast
qed

text \<open>The buffer's own retained range comes back.\<close>

lemma winv_map_back:
  assumes inv: "winv s" and i: "i < OOPS_WINSYS_MAX_BO" "bo_live (s_bo s i)" "bo_gpu_va (s_bo s i) = 0"
    and k: "k < OOPS_WINSYS_MAX_RETAINED" "rr_used (s_retained s k)"
      "rr_phys (s_retained s k) = bo_phys (s_bo s i)" "rr_size (s_retained s k) = bo_size (s_bo s i)"
    and va: "rr_va (s_retained s k) \<noteq> 0"
  shows "winv (set_bo i ((s_bo s i)\<lparr>bo_gpu_va := rr_va (s_retained s k), bo_gpu_prot := pr\<rparr>)
    (retained_drop k s))" (is "winv ?t")
proof -
  note ok = winvD(2) [OF inv]
  have own: "owner_of s (Bo i) = Some (bo_phys (s_bo s i), bo_size (s_bo s i))" using i by simp
  have no: "owner_of s (Range k) = None"
    using owned_okD(2) [OF ok own, of "Range k"] k by auto
  have F: "seg_of ?t = (seg_of s)(Ret k := None, Gpu i := seg_of s (Ret k))"
    using i k va by (auto simp: buf_simps intro!: fun_upd_idem)
  have W: "owner_of ?t = owner_of s"
    using i k no by (auto simp: buf_simps intro!: fun_upd_idem)
  have "space_ok (mem_calls s) ((seg_of s)(Ret k := None, Gpu i := seg_of s (Ret k)))"
    by (rule space_move [OF winvD(1) [OF inv]]) (use i in simp_all)
  moreover have "owned_ok (mem_calls s) ((seg_of s)(Ret k := None, Gpu i := seg_of s (Ret k))) (owner_of s)"
    using ok by (rule owned_segment_move)
  ultimately show ?thesis
    using winvD(3) [OF inv] k unfolding winv_def F W by (simp add: buf_simps retained_zero_def)
qed

text \<open>The take-over: the buffer's fresh pages go back and it keeps the pages already mapped.\<close>

lemma winv_map_take_over:
  assumes inv: "winv s" and i: "i < OOPS_WINSYS_MAX_BO" "bo_live (s_bo s i)" "bo_gpu_va (s_bo s i) = 0"
      "bo_cpu_ptr (s_bo s i) = 0"
    and k: "k < OOPS_WINSYS_MAX_RETAINED" "rr_used (s_retained s k)" "rr_owns_phys (s_retained s k)"
      "rr_phys (s_retained s k) \<noteq> bo_phys (s_bo s i)" "rr_size (s_retained s k) = bo_size (s_bo s i)"
    and va: "rr_va (s_retained s k) \<noteq> 0"
    and none: "\<And>j. j < OOPS_WINSYS_MAX_RETAINED \<Longrightarrow> rr_used (s_retained s j) \<Longrightarrow>
      rr_phys (s_retained s j) \<noteq> bo_phys (s_bo s i)"
  shows "winv (set_bo i ((s_bo s i)\<lparr>bo_gpu_va := rr_va (s_retained s k), bo_gpu_prot := pr,
      bo_phys := rr_phys (s_retained s k)\<rparr>)
    (retained_drop k (mem_note (FreeDirect (bo_phys (s_bo s i)) (bo_size (s_bo s i))) s)))"
    (is "winv ?t")
proof -
  let ?c = "FreeDirect (bo_phys (s_bo s i)) (bo_size (s_bo s i))"
  let ?own = "(rr_phys (s_retained s k), rr_size (s_retained s k))"
  have freed: "owned_ok (?c # mem_calls s) (seg_of s) ((owner_of s)(Bo i := None))"
    by (rule winv_free_bo_pages [OF inv i(1,2,3,4) none])
  have F: "seg_of ?t = (seg_of s)(Ret k := None, Gpu i := seg_of s (Ret k))"
    using i k va by (auto simp: buf_simps intro!: fun_upd_idem)
  have W: "owner_of ?t = ((owner_of s)(Bo i := None))(Range k := None, Bo i \<mapsto> ?own)"
    using i k by (auto simp: buf_simps)
  have "space_ok (mem_calls s) ((seg_of s)(Ret k := None, Gpu i := seg_of s (Ret k)))"
    by (rule space_move [OF winvD(1) [OF inv]]) (use i in simp_all)
  then have "space_ok (?c # mem_calls s) ((seg_of s)(Ret k := None, Gpu i := seg_of s (Ret k)))"
    by (rule space_ok_same_xlate) simp
  moreover have "owned_ok (?c # mem_calls s) (seg_of s)
      (((owner_of s)(Bo i := None))(Range k := None, Bo i \<mapsto> ?own))"
    by (rule owned_move [OF freed]) (use k in simp_all)
  then have "owned_ok (?c # mem_calls s) ((seg_of s)(Ret k := None, Gpu i := seg_of s (Ret k)))
      (((owner_of s)(Bo i := None))(Range k := None, Bo i \<mapsto> ?own))"
    by (rule owned_segment_move)
  ultimately show ?thesis
    using winvD(3) [OF inv] k unfolding winv_def F W by (simp add: buf_simps retained_zero_def)
qed

text \<open>A fresh mapping, once nothing retained is left in its range.\<close>

lemma winv_map_fresh:
  assumes inv: "winv s" and i: "i < OOPS_WINSYS_MAX_BO" "bo_live (s_bo s i)" "bo_gpu_va (s_bo s i) = 0"
    and va: "va \<noteq> 0" "unat va + unat (bo_size (s_bo s i)) < 2 ^ 64"
    and free: "\<And>x g. seg_of s x = Some g \<Longrightarrow>
      apart (unat va, unat (bo_size (s_bo s i)), bo_phys (s_bo s i)) g"
  shows "winv (set_bo i ((s_bo s i)\<lparr>bo_gpu_va := va, bo_gpu_prot := pr\<rparr>)
    (mem_note (BatchMap va (bo_phys (s_bo s i)) (bo_size (s_bo s i)) pr True) s))" (is "winv ?t")
proof -
  let ?c = "BatchMap va (bo_phys (s_bo s i)) (bo_size (s_bo s i)) pr True"
  let ?g = "(unat va, unat (bo_size (s_bo s i)), bo_phys (s_bo s i))"
  have F: "seg_of ?t = (seg_of s)(Gpu i := Some ?g)" and W: "owner_of ?t = owner_of s"
    using i va by (auto simp: buf_simps intro!: fun_upd_idem)
  have led: "ledger (mem_calls s) (bo_phys (s_bo s i)) = Some (bo_size (s_bo s i))"
    using owned_okD(1) [OF winvD(2) [OF inv]] i by (metis owner_of.simps(1))
  have "space_ok (?c # mem_calls s) ((seg_of s)(Gpu i := Some ?g))"
    by (rule space_add [OF winvD(1) [OF inv]]) (use i va free in auto)
  moreover have "owned_ok (?c # mem_calls s) (seg_of s) (owner_of s)"
    by (rule owned_ok_same_ledger [OF winvD(2) [OF inv]])
      (auto simp: owned_okD(6) [OF winvD(2) [OF inv]])
  then have "owned_ok (?c # mem_calls s) ((seg_of s)(Gpu i := Some ?g)) (owner_of s)"
    by (rule owned_segments)
      (use led owned_okD(3) [OF winvD(2) [OF inv]] in \<open>fastforce split: if_splits\<close>)
  ultimately show ?thesis
    using winvD(3) [OF inv] unfolding winv_def F W by simp
qed

text \<open>The whole of a map that keeps to the contract, refused or not.\<close>

lemma va_keeps_unique:
  assumes inv: "winv s" and k: "k < OOPS_WINSYS_MAX_RETAINED" "va_keeps s i va n pr k"
    and j: "j < OOPS_WINSYS_MAX_RETAINED" "rr_used (s_retained s j)" "rr_va (s_retained s j) = va"
  shows "j = k"
proof (rule ccontr)
  let ?r = "s_retained s j" and ?q = "s_retained s k"
  assume "j \<noteq> k"
  moreover have q: "rr_used ?q" "rr_va ?q = va" using k(2) by (auto simp: va_keeps_def Let_def)
  ultimately have "apart (unat va, unat (rr_size ?r), rr_phys ?r) (unat va, unat (rr_size ?q), rr_phys ?q)"
    using space_okD(1) [OF winvD(1) [OF inv], of "Ret j" "Ret k"] j k(1) by simp
  moreover have "rr_size r \<noteq> 0" if "r = ?r \<or> r = ?q" for r
    using that owned_okD(3,4) [OF winvD(2) [OF inv]] j q k(1)
    by (metis seg_of.simps(3) unat_eq_zero)
  then have "0 < unat (rr_size ?r)" "0 < unat (rr_size ?q)" by (auto simp: unat_gt_0)
  ultimately show False by (auto simp: apart_def)
qed

lemma va_map_winv:
  assumes inv: "winv s" and i: "i < OOPS_WINSYS_MAX_BO" "bo_live (s_bo s i)"
    and clean: "va_map_clean s arg i"
  shows "winv (snd (va_map P arg i pr s))"
proof -
  let ?b = "s_bo s i" and ?va = "va_address arg"
  let ?n = "if va_map_size arg \<noteq> 0 then round_up_page (va_map_size arg) else bo_size ?b"
  define c where "c = s_collisions s @
    map (\<lambda>k. (va_handle arg, of_nat k + 1)) (va_collisions s i ?va ?n)"
  let ?s = "s\<lparr>s_collisions := c\<rparr>"
  have inv': "winv ?s" using inv by (simp add: winv_collisions)
  have seg': "seg_of ?s = seg_of s" by (rule seg_of_cong) simp_all
  have cl: "bo_gpu_va ?b = 0" "?va \<noteq> 0" "unat ?va + unat (bo_size ?b) < 2 ^ 64"
    "\<And>k g. seg_of s (Gpu k) = Some g \<or> seg_of s (Cpu k) = Some g \<Longrightarrow>
        apart (unat ?va, unat (bo_size ?b), bo_phys ?b) g"
    "\<And>j. j < OOPS_WINSYS_MAX_RETAINED \<Longrightarrow> rr_used (s_retained s j) \<Longrightarrow>
        rr_phys (s_retained s j) = bo_phys ?b \<Longrightarrow> rr_va (s_retained s j) = ?va"
    using clean by (auto simp: va_map_clean_def)
  show ?thesis
  proof (cases "bo_size ?b < ?n")
    case True
    then show ?thesis using inv by (simp add: va_map_def Let_def)
  next
    case False
    then have n: "?n = bo_size ?b" using clean by (auto simp: va_map_clean_def)
    let ?keep = "first_index (va_keeps ?s i ?va (bo_size ?b) pr) OOPS_WINSYS_MAX_RETAINED"
    have step: "va_map P arg i pr s = (case ?keep of
        Some k \<Rightarrow> if rr_phys (s_retained s k) = bo_phys ?b
          then (Ok, set_bo i (?b\<lparr>bo_gpu_va := ?va, bo_gpu_prot := pr\<rparr>) (retained_drop k ?s))
          else (Ok, set_bo i (?b\<lparr>bo_gpu_va := ?va, bo_gpu_prot := pr, bo_phys := rr_phys (s_retained s k)\<rparr>)
            (retained_drop k (mem_note (FreeDirect (bo_phys ?b) (bo_size ?b)) ?s)))
      | None \<Rightarrow> let s1 = release_overlapping ?va (bo_size ?b) ?s;
            ok = mem_batch_map P (mem_calls s1) ?va (bo_phys ?b) (bo_size ?b) pr;
            s2 = mem_note (BatchMap ?va (bo_phys ?b) (bo_size ?b) pr ok) s1
          in if ok then (Ok, set_bo i (?b\<lparr>bo_gpu_va := ?va, bo_gpu_prot := pr\<rparr>) s2) else (Err ENOMEM, s2))"
      using False unfolding va_map_def Let_def n c_def by (simp split: option.split)
    show ?thesis
    proof (cases ?keep)
      case (Some k)
      note K = first_index_SomeD(1,2) [OF Some]
      then have r: "rr_used (s_retained s k)" "rr_va (s_retained s k) = ?va"
        "rr_size (s_retained s k) = bo_size ?b"
        "rr_phys (s_retained s k) = bo_phys ?b \<or> rr_owns_phys (s_retained s k) \<and> bo_cpu_ptr ?b = 0"
        by (auto simp: va_keeps_def Let_def)
      show ?thesis
      proof (cases "rr_phys (s_retained s k) = bo_phys ?b")
        case True
        with Some step winv_map_back [OF inv' i(1), of k pr] i r K cl show ?thesis by simp
      next
        case other: False
        have "rr_phys (s_retained s j) \<noteq> bo_phys ?b"
          if "j < OOPS_WINSYS_MAX_RETAINED" "rr_used (s_retained s j)" for j
          using va_keeps_unique [OF inv' K, of j] cl(5) [of j] that other by auto
        with other Some step winv_map_take_over [OF inv' i(1), of k pr] i r K cl show ?thesis
          by simp
      qed
    next
      case None
      let ?t = "release_overlapping ?va (bo_size ?b) ?s"
      note T = release_overlapping_clears [OF inv' cl(3)]
      have tb: "s_bo ?t = s_bo s" by (simp add: T(2))
      have "apart (unat ?va, unat (bo_size ?b), bo_phys ?b) g" if "seg_of ?t x = Some g" for x g
      proof -
        have "seg_of ?t (Gpu k) = seg_of s (Gpu k)" "seg_of ?t (Cpu k) = seg_of s (Cpu k)" for k
          using tb by simp_all
        with that T(3) cl(4) show ?thesis by (cases x) metis+
      qed
      then have "winv (set_bo i (?b\<lparr>bo_gpu_va := ?va, bo_gpu_prot := pr\<rparr>)
          (mem_note (BatchMap ?va (bo_phys ?b) (bo_size ?b) pr True) ?t))"
        using winv_map_fresh [OF T(1) i(1), of ?va pr] i cl tb by simp
      with None step winv_refused_call [OF T(1)] show ?thesis by (simp add: Let_def)
    qed
  qed
qed

end
