(* ===== verification/Buffers_Machine.thy ===== *)
theory Buffers_Machine
  imports Buffers_Inv
begin

text \<open>
  The buffer component as a whole: its operations as one step function, the invariant kept
  by every sequence of them (an \<open>invariant_machine\<close>), the buffer table as a
  \<open>handle_table\<close>, and the bound on what the retained ranges hold.
\<close>

section \<open>What the retained ranges hold\<close>

text \<open>
  The budget: at most 256 MiB in all, or a single range; and no size is zero or comes near
  the top of the 64-bit range, so the byte count of the code does not wrap.
\<close>

definition sane_size :: "u64 \<Rightarrow> bool" where
  "sane_size n \<longleftrightarrow> 0 < unat n \<and> unat n < 2 ^ 63"

definition sane_buffers :: "buffers \<Rightarrow> bool" where
  "sane_buffers s \<longleftrightarrow> (\<forall>i<OOPS_WINSYS_MAX_BO. bo_live (s_bo s i) \<longrightarrow> sane_size (bo_size (s_bo s i)))"

definition budget_ok :: "buffers \<Rightarrow> bool" where
  "budget_ok s \<longleftrightarrow>
     (retained_total s \<le> unat OOPS_WINSYS_RETAINED_BYTES \<or> card (used_ranges s) \<le> 1) \<and>
     (\<forall>j\<in>used_ranges s. sane_size (rr_size (s_retained s j)))"

lemma budget_total_small:
  assumes b: "budget_ok s"
  shows "retained_total s < 2 ^ 63"
proof (cases "card (used_ranges s) \<le> 1")
  case True
  then consider "used_ranges s = {}" | j where "used_ranges s = {j}"
    by (metis card_1_singletonE card_eq_0_iff finite_used_ranges le_neq_implies_less less_one)
  then show ?thesis
    using b by cases (auto simp: retained_total_def budget_ok_def sane_size_def)
next
  case False
  then show ?thesis using b by (auto simp: budget_ok_def OOPS_WINSYS_RETAINED_BYTES_def)
qed

lemma retained_bytes_unat:
  assumes "winv s" and "budget_ok s"
  shows "unat (s_retained_bytes s) = retained_total s"
  using budget_total_small [OF assms(2)]
  by (simp add: retained_bytes_total [OF assms(1)] unat_of_nat take_bit_nat_eq_self)

lemma budget_fewer:
  assumes "budget_ok s" and "fewer_ranges s' s"
  shows "budget_ok s'"
  using assms retained_total_fewer [OF assms(2)] unfolding budget_ok_def fewer_ranges_def
  by (metis le_trans subsetD)

lemma retained_total_zero:
  assumes "budget_ok s" and "retained_total s = 0"
  shows "used_ranges s = {}"
  using assms by (auto simp: retained_total_def budget_ok_def sane_size_def)

lemma budget_adds:
  assumes b: "budget_ok s" and adds: "adds_range n s s'" and n: "sane_size n"
  shows "budget_ok s'"
proof -
  from adds obtain s1 s2 i where f: "fewer_ranges s1 s" "fewer_ranges s2 s1" "i \<notin> used_ranges s2"
    and room: "of_nat (retained_total s1) + n \<le> OOPS_WINSYS_RETAINED_BYTES \<or>
        (of_nat (retained_total s1) :: u64) = 0"
    and s': "used_ranges s' = insert i (used_ranges s2)" "rr_size (s_retained s' i) = n"
      "\<And>k. k \<in> used_ranges s2 \<Longrightarrow> rr_size (s_retained s' k) = rr_size (s_retained s2 k)"
    unfolding adds_range_def by blast
  note b1 = budget_fewer [OF b f(1)] and b2 = budget_fewer [OF budget_fewer [OF b f(1)] f(2)]
  have sane: "\<forall>j\<in>used_ranges s'. sane_size (rr_size (s_retained s' j))"
    using s' n b2 by (auto simp: budget_ok_def)
  have T1: "unat (of_nat (retained_total s1) :: u64) = retained_total s1"
    using budget_total_small [OF b1] by (simp add: unat_of_nat take_bit_nat_eq_self)
  have T: "retained_total s' = unat n + retained_total s2"
    unfolding retained_total_def s'(1) using f(3) s'(2,3) by simp
  show ?thesis
  proof (cases "(of_nat (retained_total s1) :: u64) = 0")
    case True
    then have "retained_total s1 = 0" using T1 by simp
    then have "used_ranges s2 = {}"
      using retained_total_zero [OF b1] f(2) by (auto simp: fewer_ranges_def)
    then show ?thesis using sane s'(1) by (simp add: budget_ok_def)
  next
    case False
    have "retained_total s1 + unat n < 2 ^ 64"
      using budget_total_small [OF b1] n by (simp add: sane_size_def)
    then have "unat (of_nat (retained_total s1) + n) = retained_total s1 + unat n"
      by (simp add: unat_word_ariths T1)
    with False room have "retained_total s1 + unat n \<le> unat OOPS_WINSYS_RETAINED_BYTES"
      by (simp add: word_le_nat_alt)
    then have "retained_total s' \<le> unat OOPS_WINSYS_RETAINED_BYTES"
      using T retained_total_fewer(1) [OF f(2)] by linarith
    then show ?thesis using sane by (simp add: budget_ok_def)
  qed
qed

section \<open>The remaining operations keep the invariant\<close>

text \<open>The invariant of the machine.\<close>

definition buf_inv :: "buffers \<Rightarrow> bool" where
  "buf_inv s \<longleftrightarrow> winv s \<and> budget_ok s \<and> sane_buffers s"

lemma buf_inv_init: "buf_inv buffers_init"
proof -
  have "budget_ok buffers_init" "sane_buffers buffers_init"
    by (simp_all add: budget_ok_def used_ranges_def sane_buffers_def buffers_init_def
        bo_zero_def retained_zero_def)
  then show ?thesis by (simp add: buf_inv_def winv_init)
qed

lemma buf_inv_step:
  assumes "buf_inv s" and "winv s'"
    and "fewer_ranges s' s \<or> adds_range (bo_size (s_bo s i)) s s' \<and> i < OOPS_WINSYS_MAX_BO \<and> bo_live (s_bo s i)"
    and "\<And>k. k < OOPS_WINSYS_MAX_BO \<Longrightarrow> bo_live (s_bo s' k) \<Longrightarrow>
      bo_live (s_bo s k) \<and> bo_size (s_bo s' k) = bo_size (s_bo s k) \<or> sane_size (bo_size (s_bo s' k))"
  shows "buf_inv s'"
proof -
  have b: "budget_ok s" "sane_buffers s" using assms(1) by (simp_all add: buf_inv_def)
  have "budget_ok s'"
    using assms(3) budget_fewer [OF b(1)] budget_adds [OF b(1)] b(2) by (auto simp: sane_buffers_def)
  moreover have "sane_buffers s'" using assms(4) b(2) unfolding sane_buffers_def by metis
  ultimately show ?thesis using assms(2) by (simp add: buf_inv_def)
qed

lemma release_overlapping_ranges:
  assumes "winv s"
  shows "fewer_ranges (release_overlapping va n s) s" and "s_bo (release_overlapping va n s) = s_bo s"
  using release_overlapping_upto [OF assms le_refl release_overlapping_def]
  by (auto simp: fewer_ranges_def)

lemma fewer_ranges_drop: "fewer_ranges (retained_drop k s) s"
  by (auto simp: fewer_ranges_def used_ranges_def retained_zero_def split: if_splits)

lemma va_map_ranges:
  assumes "winv s"
  shows "fewer_ranges (snd (va_map P arg i pr s)) s"
    and "bo_live (s_bo (snd (va_map P arg i pr s)) k) = bo_live (s_bo s k)"
    and "bo_size (s_bo (snd (va_map P arg i pr s)) k) = bo_size (s_bo s k)"
proof -
  have w: "winv (s\<lparr>s_collisions := c\<rparr>)" for c using assms by (simp add: winv_collisions)
  have tab: "fewer_ranges s1 s" if "fewer_ranges s2 (s\<lparr>s_collisions := c\<rparr>)" "s_retained s1 = s_retained s2"
    for s1 s2 c
    using that by (simp add: fewer_ranges_def used_ranges_def)
  note R = release_overlapping_ranges [OF w]
  show "fewer_ranges (snd (va_map P arg i pr s)) s"
    by (auto simp: va_map_def Let_def intro: tab [OF R(1)] tab [OF fewer_ranges_drop] split: option.split)
  show "bo_live (s_bo (snd (va_map P arg i pr s)) k) = bo_live (s_bo s k)"
    and "bo_size (s_bo (snd (va_map P arg i pr s)) k) = bo_size (s_bo s k)"
    by (auto simp: va_map_def Let_def R(2) split: option.split)
qed


text \<open>\<open>retain\<close>, called with the buffer table as it is.\<close>

lemma retain_now:
  assumes "winv s"
  obtains j t where "j < OOPS_WINSYS_MAX_RETAINED" "\<not> rr_used (s_retained t j)" "winv t"
    "s_bo t = s_bo s"
    "\<And>va p pr ow. retain va n p pr ow s = Some (retain_store j va n p pr ow t)"
    "\<And>va p pr ow. adds_range n s (retain_store j va n p pr ow t)"
proof -
  obtain j t where j: "j < OOPS_WINSYS_MAX_RETAINED" "\<not> rr_used (s_retained t j)"
    and t: "winv t" "s_bo t = s_bo s"
      "\<exists>s1. winv s1 \<and> fewer_ranges s1 s \<and> fewer_ranges t s1 \<and>
        (s_retained_bytes s1 + n \<le> OOPS_WINSYS_RETAINED_BYTES \<or> s_retained_bytes s1 = 0)"
      "\<And>B va p pr ow. retain va n p pr ow (s\<lparr>s_bo := B\<rparr>) =
        Some (retain_store j va n p pr ow (t\<lparr>s_bo := B\<rparr>))"
    using retain_total [OF assms, of n] by metis
  have "t\<lparr>s_bo := s_bo s\<rparr> = t" unfolding t(2) [symmetric] by simp
  then have "retain va n p pr ow s = Some (retain_store j va n p pr ow t)" for va p pr ow
    using t(4) [of va p pr ow "s_bo s"] by simp
  with j t adds_rangeI [OF t(3) j] show thesis by (intro that [of j t]) auto
qed

lemma gem_va_unmap:
  assumes inv: "buf_inv s" and i: "bo_index s (va_handle arg) = Some i"
    and un: "va_offset_in_bo arg = 0" "va_operation arg = AMDGPU_VA_OP_UNMAP"
  shows "\<exists>s'. oops_winsys_gem_va P arg s = Some (Ok, s') \<and> buf_inv s' \<and>
    s_bo s' = (s_bo s)(i := (s_bo s i)\<lparr>bo_gpu_va := 0\<rparr>)"
proof (cases "bo_gpu_va (s_bo s i) = 0")
  case True
  then show ?thesis using inv i un by (simp add: oops_winsys_gem_va_def va_unmap_def fun_upd_idem)
next
  case False
  let ?b = "s_bo s i"
  note I = bo_indexD(1,2) [OF i]
  have w: "winv s" using inv by (simp add: buf_inv_def)
  obtain j t where j: "j < OOPS_WINSYS_MAX_RETAINED" "\<not> rr_used (s_retained t j)"
    and t: "winv t" "s_bo t = s_bo s"
      "\<And>va p pr ow. retain va (bo_size ?b) p pr ow s = Some (retain_store j va (bo_size ?b) p pr ow t)"
      "\<And>va p pr ow. adds_range (bo_size ?b) s (retain_store j va (bo_size ?b) p pr ow t)"
    using retain_now [OF w, of "bo_size ?b"] by metis
  let ?t = "retain_store j (bo_gpu_va ?b) (bo_size ?b) (bo_phys ?b) (bo_gpu_prot ?b) False t"
  let ?s' = "set_bo i (?b\<lparr>bo_gpu_va := 0\<rparr>) ?t"
  have "winv ?s'" using winv_unmap_retain [OF t(1) I(1) _ _ j] I False t(2) by simp
  moreover have "adds_range (bo_size ?b) s ?s'"
    by (rule adds_range_cong [OF refl _ t(4)]) simp
  ultimately have "buf_inv ?s'"
    by (intro buf_inv_step [OF inv, of _ i]) (use I t(2) in \<open>auto split: if_splits\<close>)
  then show ?thesis using False i un t by (simp add: oops_winsys_gem_va_def va_unmap_def Let_def)
qed

lemma gem_va_total:
  assumes inv: "buf_inv s"
    and clean: "\<And>i. bo_index s (va_handle arg) = Some i \<Longrightarrow> va_operation arg = AMDGPU_VA_OP_MAP \<Longrightarrow>
      va_offset_in_bo arg = 0 \<Longrightarrow> va_map_clean s arg i"
  shows "\<exists>r s'. oops_winsys_gem_va P arg s = Some (r, s') \<and> buf_inv s'"
proof (cases "\<exists>i. bo_index s (va_handle arg) = Some i \<and> va_offset_in_bo arg = 0")
  case False
  then show ?thesis
    using inv by (auto simp: oops_winsys_gem_va_def va_unmap_def split: option.split)
next
  case True
  then obtain i where i: "bo_index s (va_handle arg) = Some i" and off: "va_offset_in_bo arg = 0"
    by blast
  have w: "winv s" using inv by (simp add: buf_inv_def)
  show ?thesis
  proof (cases "va_operation arg")
    case AMDGPU_VA_OP_MAP
    note w' = va_map_winv [OF w bo_indexD(1,2) [OF i] clean [OF i AMDGPU_VA_OP_MAP off]]
    have "buf_inv (snd (va_map P arg i (va_prot (va_flags arg)) s))"
      using inv w' by (rule buf_inv_step) (use va_map_ranges [OF w] in auto)
    with i off AMDGPU_VA_OP_MAP show ?thesis
      by (simp add: oops_winsys_gem_va_def va_unmap_def) (metis prod.collapse)
  next
    case AMDGPU_VA_OP_UNMAP
    then show ?thesis using gem_va_unmap [OF inv i off] by blast
  qed (use i off inv in \<open>simp_all add: oops_winsys_gem_va_def va_unmap_def\<close>)
qed

lemma bo_cpu_map_inv:
  assumes "platform_ok P" and "buf_inv s" and "i < OOPS_WINSYS_MAX_BO" and "bo_live (s_bo s i)"
    and "bo_cpu_map P i s = (ok, s')"
  shows "buf_inv s'"
proof (rule buf_inv_step [OF assms(2)])
  have "winv s" using assms(2) by (simp add: buf_inv_def)
  then show "winv s'" using bo_cpu_map_winv [OF assms(1) _ assms(3,4)] assms(5) by simp
  have same: "s_retained s' = s_retained s"
    "bo_live (s_bo s' k) = bo_live (s_bo s k) \<and> bo_size (s_bo s' k) = bo_size (s_bo s k)" for k
    using assms(5) by (auto simp: bo_cpu_map_def Let_def split: if_splits option.splits)
  then show "fewer_ranges s' s \<or> adds_range (bo_size (s_bo s i)) s s' \<and> i < OOPS_WINSYS_MAX_BO \<and>
      bo_live (s_bo s i)" by (simp add: fewer_ranges_table)
  show "bo_live (s_bo s k) \<and> bo_size (s_bo s' k) = bo_size (s_bo s k) \<or> sane_size (bo_size (s_bo s' k))"
    if "bo_live (s_bo s' k)" for k using that same by simp
qed

lemma cpu_map_inv:
  assumes "platform_ok P" and "buf_inv s"
  shows "buf_inv (snd (oops_winsys_mmap P len off s))"
    and "buf_inv (snd (oops_winsys_bo_cpu_range P h off bytes s))"
    and "buf_inv (snd (oops_winsys_cpu_map_va P va bytes s))"
proof -
  note keep = bo_cpu_map_inv [OF assms]
  show "buf_inv (snd (oops_winsys_mmap P len off s))"
    using assms(2) by (auto simp: oops_winsys_mmap_def Let_def intro: keep
        dest: bo_indexD(1,2) split: option.split prod.split)
  show "buf_inv (snd (oops_winsys_bo_cpu_range P h off bytes s))"
    using assms(2) by (auto simp: oops_winsys_bo_cpu_range_def Let_def intro: keep
        dest: bo_indexD(1,2) split: option.split prod.split)
  show "buf_inv (snd (oops_winsys_cpu_map_va P va bytes s))"
    using assms(2) by (auto simp: oops_winsys_cpu_map_va_def Let_def intro: keep
        dest: first_index_SomeD(1,2) split: option.split prod.split)
qed

section \<open>Creation and closing\<close>

lemma gem_create_cases:
  obtains (refused) e s' where "oops_winsys_gem_create P arg s = ((Err e, 0), s')" "s_bo s' = s_bo s"
      "s_retained s' = s_retained s"
  | (created) i p s' where "i < OOPS_WINSYS_MAX_BO" "\<not> bo_live (s_bo s i)"
      "oops_winsys_gem_create P arg s = ((Ok, handle_of i), s')"
      "bo_live (s_bo s' i)" "s_bo s' = (s_bo s)(i := s_bo s' i)"
      "bo_size (s_bo s' i) = round_up_page (gc_bo_size arg)" "round_up_page (gc_bo_size arg) \<noteq> 0"
      "bo_phys (s_bo s' i) = p" "bo_gpu_va (s_bo s' i) = 0" "bo_cpu_ptr (s_bo s' i) = 0"
      "bo_domain (s_bo s' i) = ucast (gc_domains arg)"
      "bo_domain_flags (s_bo s' i) = gc_domain_flags arg"
      "bo_alignment (s_bo s' i) = max OOPS_WINSYS_PAGE (gc_alignment arg)"
      "s_retained s' = s_retained s"
      "mem_calls s' = AllocDirect (round_up_page (gc_bo_size arg))
         (max OOPS_WINSYS_PAGE (gc_alignment arg)) (Some p) # mem_calls s"
      "mem_alloc_direct P (mem_calls s) (round_up_page (gc_bo_size arg))
         (max OOPS_WINSYS_PAGE (gc_alignment arg)) = Some p"
proof (cases "round_up_page (gc_bo_size arg) = 0 \<or>
    first_index (\<lambda>i. \<not> bo_live (s_bo s i)) OOPS_WINSYS_MAX_BO = None")
  case True
  then show thesis
    by (intro refused [of "if round_up_page (gc_bo_size arg) = 0 then EINVAL else ENOMEM" s])
      (auto simp: oops_winsys_gem_create_def Let_def)
next
  case False
  then obtain i where n: "round_up_page (gc_bo_size arg) \<noteq> 0"
    and i: "first_index (\<lambda>i. \<not> bo_live (s_bo s i)) OOPS_WINSYS_MAX_BO = Some i" by blast
  have al: "(if gc_alignment arg < OOPS_WINSYS_PAGE then OOPS_WINSYS_PAGE else gc_alignment arg)
      = max OOPS_WINSYS_PAGE (gc_alignment arg)" by (auto simp: max_def not_less)
  show thesis
  proof (cases "mem_alloc_direct P (mem_calls s) (round_up_page (gc_bo_size arg))
      (max OOPS_WINSYS_PAGE (gc_alignment arg))")
    case None
    with n i show thesis
      by (intro refused [of ENOMEM "snd (oops_winsys_gem_create P arg s)"])
        (auto simp: oops_winsys_gem_create_def Let_def al)
  next
    case (Some p)
    with n i first_index_SomeD [OF i] show thesis
      by (intro created [of i "snd (oops_winsys_gem_create P arg s)" p]) (auto simp: oops_winsys_gem_create_def Let_def al handle_of_def)
  qed
qed

lemma gem_create_inv:
  assumes P: "platform_ok P" and inv: "buf_inv s"
  shows "buf_inv (snd (oops_winsys_gem_create P arg s))"
proof -
  have w: "winv s" using inv by (simp add: buf_inv_def)
  show ?thesis
  proof (rule buf_inv_step [OF inv gem_create_winv [OF P w], where i = 0])
    show "fewer_ranges (snd (oops_winsys_gem_create P arg s)) s \<or>
      adds_range (bo_size (s_bo s 0)) s (snd (oops_winsys_gem_create P arg s)) \<and>
        0 < OOPS_WINSYS_MAX_BO \<and> bo_live (s_bo s 0)"
      by (cases rule: gem_create_cases [of P arg s]) (auto intro: fewer_ranges_table)
    fix k
    assume live: "bo_live (s_bo (snd (oops_winsys_gem_create P arg s)) k)"
    show "bo_live (s_bo s k) \<and> bo_size (s_bo (snd (oops_winsys_gem_create P arg s)) k) = bo_size (s_bo s k)
      \<or> sane_size (bo_size (s_bo (snd (oops_winsys_gem_create P arg s)) k))"
    proof (cases rule: gem_create_cases [of P arg s])
      case (created i p s')
      have "sane_size (bo_size (s_bo s' i))"
        using created platform_alloc(3) [OF P created(16)] by (simp add: sane_size_def unat_gt_0)
      moreover have "s_bo s' k = s_bo s k" if "k \<noteq> i" using created(5) that by (metis fun_upd_other)
      ultimately show ?thesis using created(3) live by (cases "k = i") auto
    qed (use live in simp)
  qed
qed

lemma gem_close_total:
  assumes inv: "buf_inv s"
  shows "\<exists>r s'. oops_winsys_gem_close h s = Some (r, s') \<and> buf_inv s'"
proof (cases "bo_index s h")
  case None
  then show ?thesis using gem_close_dead inv by blast
next
  case (Some i)
  have "winv s" using inv by (simp add: buf_inv_def)
  from gem_close_live [OF this Some] obtain s' where s': "oops_winsys_gem_close h s = Some (Ok, s')"
    "winv s'" "s_bo s' = (s_bo s)(i := bo_zero)"
    "fewer_ranges s' s \<or> adds_range (bo_size (s_bo s i)) s s'" by blast
  have "buf_inv s'"
    using inv s'(2) by (rule buf_inv_step [where i = i])
      (use s' bo_indexD(1,2) [OF Some] in \<open>auto simp: bo_zero_def split: if_splits\<close>)
  with s' show ?thesis by blast
qed

section \<open>The machine\<close>

text \<open>Every call of the component that can change its state.\<close>

datatype buf_op =
    GemCreate gem_create_in
  | GemClose u32
  | GemVa drm_amdgpu_gem_va
  | Mmap u64 u64
  | BoCpuRange u32 u64 u64
  | CpuMapVa u64 u64

fun buf_step :: "mem_platform \<Rightarrow> buffers \<Rightarrow> buf_op \<Rightarrow> buffers option" where
  "buf_step P s (GemCreate arg) = Some (snd (oops_winsys_gem_create P arg s))"
| "buf_step P s (GemClose h) = map_option snd (oops_winsys_gem_close h s)"
| "buf_step P s (GemVa arg) = map_option snd (oops_winsys_gem_va P arg s)"
| "buf_step P s (Mmap len off) = Some (snd (oops_winsys_mmap P len off s))"
| "buf_step P s (BoCpuRange h off bytes) = Some (snd (oops_winsys_bo_cpu_range P h off bytes s))"
| "buf_step P s (CpuMapVa va bytes) = Some (snd (oops_winsys_cpu_map_va P va bytes s))"

fun buf_pre :: "buffers \<Rightarrow> buf_op \<Rightarrow> bool" where
  "buf_pre s (GemVa arg) =
     (case bo_index s (va_handle arg) of
        None \<Rightarrow> True
      | Some i \<Rightarrow> va_operation arg = AMDGPU_VA_OP_MAP \<longrightarrow> va_offset_in_bo arg = 0 \<longrightarrow>
          va_map_clean s arg i)"
| "buf_pre s _ = True"

lemma buf_step_inv:
  assumes "platform_ok P" and "buf_inv s" and "buf_pre s x"
  shows "\<exists>s'. buf_step P s x = Some s' \<and> buf_inv s'"
proof (cases x)
  case (GemClose h)
  then show ?thesis using gem_close_total [OF assms(2), of h] by auto
next
  case (GemVa arg)
  have "va_map_clean s arg i" if "bo_index s (va_handle arg) = Some i"
    "va_operation arg = AMDGPU_VA_OP_MAP" "va_offset_in_bo arg = 0" for i
    using assms(3) that GemVa by simp
  then show ?thesis using gem_va_total [OF assms(2), of arg P] GemVa by fastforce
qed (use assms gem_create_inv cpu_map_inv in auto)

interpretation buf: invariant_machine "buf_step P" buf_pre "\<lambda>s. platform_ok P \<and> buf_inv s" for P
  by unfold_locales (use buf_step_inv in blast)

section \<open>The handle table\<close>

definition bo_new :: "mem_platform \<Rightarrow> gem_create_in \<Rightarrow> buffers \<Rightarrow> (u32 \<times> buffers) option" where
  "bo_new P arg s = (case oops_winsys_gem_create P arg s of
     ((Ok, h), s') \<Rightarrow> Some (h, s') | _ \<Rightarrow> None)"

definition bo_drop :: "u32 \<Rightarrow> buffers \<Rightarrow> buffers option" where
  "bo_drop h s = (case oops_winsys_gem_close h s of Some (Ok, s') \<Rightarrow> Some s' | _ \<Rightarrow> None)"

lemma bo_of_live_slot: "bo_of s = live_slot bo_live OOPS_WINSYS_MAX_BO (s_bo s)"
  by (rule ext) (simp add: bo_of_def bo_index_def live_slot_def Let_def)

lemma bo_new_handle:
  assumes "bo_new P arg s = Some (h, s')"
  obtains i where "i < OOPS_WINSYS_MAX_BO" "\<not> bo_live (s_bo s i)" "h = handle_of i"
    "bo_live (s_bo s' i)" "s_bo s' = (s_bo s)(i := s_bo s' i)"
  using assms by (cases rule: gem_create_cases [of P arg s]) (auto simp: bo_new_def)

lemma MAX_BO_small: "OOPS_WINSYS_MAX_BO < 2 ^ 32"
  by (simp add: OOPS_WINSYS_MAX_BO_def)

lemma bo_new_table:
  assumes "bo_new P arg s = Some (h, s')"
  shows "bo_of s h = None" and "\<exists>b. bo_of s' = (bo_of s)(h \<mapsto> b)"
proof -
  from assms obtain i where i: "i < OOPS_WINSYS_MAX_BO" "\<not> bo_live (s_bo s i)" "h = handle_of i"
    "bo_live (s_bo s' i)" "s_bo s' = (s_bo s)(i := s_bo s' i)" by (rule bo_new_handle)
  then show "bo_of s h = None"
    using MAX_BO_small by (simp add: bo_of_live_slot live_slot_NoneI)
  have "bo_of s' = live_slot bo_live OOPS_WINSYS_MAX_BO ((s_bo s)(i := s_bo s' i))"
    using i(5) by (simp add: bo_of_live_slot)
  also have "\<dots> = (bo_of s)(h \<mapsto> s_bo s' i)"
    unfolding live_slot_update_at [OF i(1) MAX_BO_small] using i(3,4) by (simp add: bo_of_live_slot)
  finally show "\<exists>b. bo_of s' = (bo_of s)(h \<mapsto> b)" by blast
qed

lemma gem_close_table:
  assumes "winv s" and "bo_of s h \<noteq> None"
  shows "\<exists>s'. bo_drop h s = Some s' \<and> winv s' \<and> bo_of s' = (bo_of s)(h := None)"
proof -
  from assms(2) obtain i where i: "bo_index s h = Some i" by (auto simp: bo_of_def)
  from gem_close_live [OF assms(1) i] obtain s' where s': "oops_winsys_gem_close h s = Some (Ok, s')"
    "winv s'" "s_bo s' = (s_bo s)(i := bo_zero)" by blast
  have "bo_of s' = (bo_of s)(h := None)"
    using bo_indexD(3,4,5) [OF i] s'(3)
    by (simp add: bo_of_live_slot live_slot_update_Suc bo_zero_def)
  with s' show ?thesis by (simp add: bo_drop_def)
qed

interpretation bo: handle_table "\<lambda>s. platform_ok P \<and> winv s" bo_of "bo_new P" bo_drop OOPS_WINSYS_MAX_BO
  for P
proof unfold_locales
  fix t :: buffers and a h t'
  assume inv: "platform_ok P \<and> winv t" and new: "bo_new P a t = Some (h, t')"
  have "winv t'"
    using gem_create_winv [of P t a] inv new by (auto simp: bo_new_def split: prod.splits rc.splits)
  with inv bo_new_table [OF new]
  show "(platform_ok P \<and> winv t') \<and> bo_of t h = None \<and> (\<exists>e. bo_of t' = (bo_of t)(h \<mapsto> e))"
    by blast
next
  fix t :: buffers and h
  assume "platform_ok P \<and> winv t" and "bo_of t h \<noteq> None"
  then show "\<exists>t'. bo_drop h t = Some t' \<and> (platform_ok P \<and> winv t') \<and> bo_of t' = (bo_of t)(h := None)"
    using gem_close_table by blast
next
  show "bo_drop h t = None" if "bo_of t h = None" for t h
    using that gem_close_dead [of t h] by (simp add: bo_drop_def bo_of_def)
next
  show "h \<noteq> 0 \<and> unat h \<le> OOPS_WINSYS_MAX_BO" if "bo_of t h \<noteq> None" for t h
    using that live_slot_range [of bo_live _ "s_bo t" h] by (simp add: bo_of_live_slot)
qed

end
