(* ===== verification/Buffers_Props.thy ===== *)
theory Buffers_Props
  imports Buffers_Machine
begin

text \<open>
  The properties of the buffer component, with a concrete platform they are applied to: a
  bump allocator that places every allocation and every CPU mapping past all earlier ones.
\<close>

section \<open>A platform\<close>

fun alloc_end :: "mem_call list \<Rightarrow> int" where
  "alloc_end [] = 0"
| "alloc_end (AllocDirect n al (Some p) # cs) = max (p + uint n) (alloc_end cs)"
| "alloc_end (_ # cs) = alloc_end cs"

fun map_end :: "mem_call list \<Rightarrow> nat" where
  "map_end [] = 0"
| "map_end (MapDirect n p (Some v) # cs) = max (unat v + unat n) (map_end cs)"
| "map_end (BatchMap v p n pr True # cs) = max (unat v + unat n) (map_end cs)"
| "map_end (_ # cs) = map_end cs"

definition bump_platform :: mem_platform where
  "bump_platform = \<lparr>
     mem_alloc_direct = (\<lambda>cs n al. let p = (alloc_end cs div 0x4000 + 1) * 0x4000 in
       if 0 \<le> p \<and> p + uint n < 2 ^ 63 then Some p else None),
     mem_map_direct = (\<lambda>cs n p. let v = (map_end cs div 0x4000 + 1) * 0x4000 in
       if v + unat n < 2 ^ 64 then Some (of_nat v) else None),
     mem_batch_map = (\<lambda>cs va p n pr. True)\<rparr>"

lemma ledger_below: "ledger cs q = Some n \<Longrightarrow> q + uint n \<le> alloc_end cs"
proof (induction cs)
  case (Cons c cs)
  then show ?case by (cases c) (auto split: if_splits option.splits)
qed simp

lemma xlate_below: "xlate cs a = Some b \<Longrightarrow> a < map_end cs"
proof (induction cs)
  case (Cons c cs)
  show ?case
  proof (cases c)
    case (MapDirect n p r)
    with Cons show ?thesis by (cases r) (auto simp: in_range_def split: if_splits)
  next
    case (BatchMap v p n pr ok)
    with Cons show ?thesis by (cases ok) (auto simp: in_range_def split: if_splits)
  qed (use Cons in \<open>auto split: if_splits\<close>)
qed simp

lemma bump_platform_ok: "platform_ok bump_platform"
proof -
  have 1: "alloc_end cs < (alloc_end cs div 0x4000 + 1) * 0x4000" for cs
    using div_mult_mod_eq [of "alloc_end cs" "0x4000"] pos_mod_bound [of "0x4000" "alloc_end cs"]
    by (simp add: distrib_right)
  have 2: "map_end cs < (map_end cs div 0x4000 + 1) * 0x4000" for cs
    using div_mult_mod_eq [of "map_end cs" "0x4000"] mod_less_divisor [of "0x4000" "map_end cs"]
    by (simp add: distrib_right)
  have alloc: "0 \<le> p \<and> p + uint n < 2 ^ 63 \<and> ledger cs p = None \<and>
      (\<forall>q m. ledger cs q = Some m \<longrightarrow> p + uint n \<le> q \<or> q + uint m \<le> p)"
    if "mem_alloc_direct bump_platform cs n al = Some p" for cs n al p
  proof -
    from that have p: "0 \<le> p" "p + uint n < 2 ^ 63" "alloc_end cs < p"
      using 1 [of cs] by (auto simp: bump_platform_def Let_def split: if_splits)
    have "q + uint m < p" if "ledger cs q = Some m" for q m
      using ledger_below [OF that] p(3) by linarith
    moreover from this have "ledger cs p = None"
      by (metis add_increasing2 not_None_eq not_less order_refl uint_ge_0)
    ultimately show ?thesis using p by force
  qed
  have place: "v \<noteq> 0 \<and> unat v + unat n < 2 ^ 64 \<and> (\<forall>a. in_range v n a \<longrightarrow> xlate cs a = None)"
    if "mem_map_direct bump_platform cs n p = Some v" for cs n p v
  proof -
    let ?w = "(map_end cs div 0x4000 + 1) * 0x4000"
    from that have v: "v = of_nat ?w" "?w + unat n < 2 ^ 64"
      by (auto simp: bump_platform_def Let_def split: if_splits)
    have "unat (of_nat w :: u64) = w" if "w + unat n < 2 ^ 64" for w
      using that by (simp add: unat_of_nat take_bit_nat_eq_self)
    then have u: "unat v = ?w" unfolding v(1) using v(2) by blast
    then have "v \<noteq> 0" by (metis add_is_0 mult_is_0 unat_0 zero_neq_numeral zero_neq_one)
    moreover have "xlate cs a = None" if "in_range v n a" for a
    proof (rule ccontr)
      assume "xlate cs a \<noteq> None"
      then have "a < map_end cs" using xlate_below by blast
      moreover have "?w \<le> a" using that u by (simp add: in_range_def)
      ultimately show False using 2 [of cs] by linarith
    qed
    ultimately show ?thesis unfolding u using v(2) by blast
  qed
  show ?thesis unfolding platform_ok_def using alloc place by blast
qed


section \<open>A sample run\<close>

text \<open>
  A buffer of five pages' worth of bytes is created, mapped, and closed: its range is
  retained with its pages.
\<close>

definition sample_create :: gem_create_in where
  "sample_create = \<lparr>gc_bo_size = 0x5000, gc_alignment = 0, gc_domains = 2, gc_domain_flags = 0\<rparr>"

definition sample_map :: drm_amdgpu_gem_va where
  "sample_map = \<lparr>va_handle = 1, va_operation = AMDGPU_VA_OP_MAP, va_flags = {AMDGPU_VM_PAGE_READABLE},
     va_address = 0x400000, va_offset_in_bo = 0, va_map_size = 0\<rparr>"

definition sample_bo :: oops_winsys_bo where
  "sample_bo = \<lparr>bo_live = True, bo_size = 0x8000, bo_alignment = 0x4000, bo_domain_flags = 0,
     bo_phys = 0x4000, bo_gpu_va = 0, bo_cpu_ptr = 0, bo_domain = 2, bo_gpu_prot = {}\<rparr>"

definition sample_created :: buffers where
  "sample_created = buffers_init\<lparr>s_bo := (\<lambda>_. bo_zero)(0 := sample_bo),
     mem_calls := [AllocDirect 0x8000 0x4000 (Some 0x4000)]\<rparr>"

definition sample_mapped :: buffers where
  "sample_mapped = buffers_init\<lparr>s_bo := (\<lambda>_. bo_zero)(0 := sample_bo\<lparr>bo_gpu_va := 0x400000,
       bo_gpu_prot := {GPU_READ, CPU_READ}\<rparr>),
     mem_calls := [BatchMap 0x400000 0x4000 0x8000 {GPU_READ, CPU_READ} True,
       AllocDirect 0x8000 0x4000 (Some 0x4000)]\<rparr>"

definition sample_closed :: buffers where
  "sample_closed = buffers_init\<lparr>
     s_retained := (\<lambda>_. retained_zero)(0 := \<lparr>rr_used = True, rr_owns_phys = True,
       rr_prot = {GPU_READ, CPU_READ}, rr_va = 0x400000, rr_size = 0x8000, rr_phys = 0x4000, rr_seq = 1\<rparr>),
     s_retained_seq := 1, s_retained_bytes := 0x8000,
     mem_calls := [BatchMap 0x400000 0x4000 0x8000 {GPU_READ, CPU_READ} True,
       AllocDirect 0x8000 0x4000 (Some 0x4000)]\<rparr>"

lemmas sample_defs = sample_create_def sample_map_def sample_bo_def sample_created_def
  sample_mapped_def sample_closed_def buffers_init_def bo_zero_def retained_zero_def
  set_bo_def set_retained_def mem_note_def

lemma sample_step1: "buf_step bump_platform buffers_init (GemCreate sample_create) = Some sample_created"
  by (simp add: sample_defs oops_winsys_gem_create_def round_up_page_def OOPS_WINSYS_PAGE_def
      OOPS_WINSYS_MAX_BO_def first_index_def bump_platform_def Let_def)

lemma va_collisions_clear:
  assumes "\<And>k. k \<noteq> i \<Longrightarrow> bo_live (s_bo s k) \<Longrightarrow> bo_gpu_va (s_bo s k) = 0"
  shows "va_collisions s i va n = []"
  using assms by (auto simp: va_collisions_def Let_def filter_empty_conv)

lemma release_overlapping_clear:
  assumes "\<And>k. rr_used (s_retained s k) \<Longrightarrow> \<not> va_overlap va n (rr_va (s_retained s k)) (rr_size (s_retained s k))"
  shows "release_overlapping va n s = s"
proof -
  have "fold (\<lambda>k s. let r = s_retained s k in
      if rr_used r \<and> va_overlap va n (rr_va r) (rr_size r) then retained_release k s else s) ks s = s" for ks
    by (induction ks) (use assms in \<open>auto simp: Let_def\<close>)
  then show ?thesis by (simp add: release_overlapping_def)
qed

lemma sample_created_fields:
  "s_bo sample_created 0 = sample_bo" "bo_index sample_created 1 = Some 0"
  "mem_calls sample_created = [AllocDirect 0x8000 0x4000 (Some 0x4000)]"
  "\<not> rr_used (s_retained sample_created k)" "0 < k \<Longrightarrow> \<not> bo_live (s_bo sample_created k)"
  by (simp_all add: bo_index_def sample_defs OOPS_WINSYS_MAX_BO_def)

lemma sample_step2: "buf_step bump_platform sample_created (GemVa sample_map) = Some sample_mapped"
proof -
  note F = sample_created_fields
  have no: "va_collisions sample_created 0 va n = []" for va n
    by (rule va_collisions_clear) (simp add: F)
  have rel: "release_overlapping va n sample_created = sample_created" for va n
    by (rule release_overlapping_clear) (simp add: F)
  have keep: "first_index (va_keeps sample_created 0 va n pr) OOPS_WINSYS_MAX_RETAINED = None" for va n pr
    by (simp add: first_index_None va_keeps_def F)
  have "va_map bump_platform sample_map 0 {GPU_READ, CPU_READ} sample_created = (Ok, sample_mapped)"
    by (simp add: va_map_def Let_def no rel keep F) (simp add: sample_defs bump_platform_def)
  then show ?thesis
    using F(2) by (simp add: oops_winsys_gem_va_def sample_map_def va_prot_def)
qed

lemma sample_pre2: "buf_pre sample_created (GemVa sample_map)"
proof -
  note F = sample_created_fields
  have "seg_of sample_created x = None" for x
    using F by (cases x; cases "x = Gpu 0"; cases "x = Cpu 0") (auto simp: sample_bo_def gr0_conv_Suc)
  then have "va_map_clean sample_created sample_map 0"
    by (simp add: va_map_clean_def F del: seg_of.simps) (simp add: sample_bo_def sample_map_def)
  then show ?thesis using F(2) by (simp add: sample_map_def)
qed

lemma sample_step3: "buf_step bump_platform sample_mapped (GemClose 1) = Some sample_closed"
proof -
  have i: "bo_index sample_mapped 1 = Some 0"
    by (simp add: bo_index_def sample_defs OOPS_WINSYS_MAX_BO_def)
  have "retain_make_room 0x8000 sample_mapped = Some sample_mapped"
    by (subst retain_make_room.simps) (simp add: sample_defs)
  moreover have "retain_find_slot sample_mapped = Some (0, sample_mapped)"
    by (subst retain_find_slot.simps) (simp add: sample_defs first_index_def OOPS_WINSYS_MAX_RETAINED_def)
  ultimately have "retain va 0x8000 p pr ow sample_mapped = Some (retain_store 0 va 0x8000 p pr ow sample_mapped)"
    for va p pr ow by (simp add: retain_def)
  moreover have "s_bo sample_mapped 0 = sample_bo\<lparr>bo_gpu_va := 0x400000, bo_gpu_prot := {GPU_READ, CPU_READ}\<rparr>"
    "bo_size sample_bo = 0x8000" "bo_cpu_ptr sample_bo = 0" "bo_phys sample_bo = 0x4000"
    by (simp_all add: sample_mapped_def sample_bo_def)
  ultimately have "oops_winsys_gem_close 1 sample_mapped = Some (Ok, set_bo 0 bo_zero
      (retain_store 0 0x400000 0x8000 0x4000 {GPU_READ, CPU_READ} True sample_mapped))"
    using i by (simp add: oops_winsys_gem_close_def Let_def)
  also have "set_bo 0 bo_zero (retain_store 0 0x400000 0x8000 0x4000 {GPU_READ, CPU_READ} True sample_mapped)
      = sample_closed"
    by (simp add: retain_store_def sample_defs Let_def fun_upd_idem)
  finally show ?thesis by simp
qed

definition sample_ops :: "buf_op list" where
  "sample_ops = [GemCreate sample_create, GemVa sample_map, GemClose 1]"

lemma sample_run: "run_ops (buf_step bump_platform) buffers_init sample_ops = Some sample_closed"
  and sample_allowed: "ops_allowed (buf_step bump_platform) buf_pre buffers_init sample_ops"
  unfolding sample_ops_def run_ops.simps ops_allowed.simps sample_step1 sample_step2 sample_step3 option.case
  using sample_pre2 by simp_all

section \<open>Safety of every sequence of calls\<close>

text \<open>
  C1. Whatever sequence of create, close, map, unmap and CPU-map calls arrives, as long as
  every map keeps to the address-manager contract (\<open>va_map_clean\<close>): every call returns;
  physical memory is released only while it is allocated, with the size it was allocated
  with; and no address of the space the GPU and the CPU share ever reaches memory that has
  been released.
\<close>

theorem buffers_run_safe:
  assumes "platform_ok P" and "ops_allowed (buf_step P) buf_pre buffers_init xs"
  shows "\<exists>s. run_ops (buf_step P) buffers_init xs = Some s \<and> frees_ok (mem_calls s) \<and>
    (\<forall>a b. xlate (mem_calls s) a = Some b \<longrightarrow>
       (\<exists>p n. ledger (mem_calls s) p = Some n \<and> p \<le> b \<and> b < p + uint n))"
proof -
  from buf.run_inv [OF _ assms(2)] assms(1) buf_inv_init obtain s where
    s: "run_ops (buf_step P) buffers_init xs = Some s" "buf_inv s" by blast
  then have w: "space_ok (mem_calls s) (seg_of s)" "owned_ok (mem_calls s) (seg_of s) (owner_of s)"
    by (auto simp: buf_inv_def dest: winvD)
  show ?thesis
    using s(1) owned_okD(6) [OF w(2)] no_dangling_translation [OF w] by blast
qed

theorem buffers_run_safe_witness:
  "\<exists>s. run_ops (buf_step bump_platform) buffers_init sample_ops = Some s \<and> frees_ok (mem_calls s) \<and>
    (\<forall>a b. xlate (mem_calls s) a = Some b \<longrightarrow>
       (\<exists>p n. ledger (mem_calls s) p = Some n \<and> p \<le> b \<and> b < p + uint n))"
  by (rule buffers_run_safe [OF bump_platform_ok sample_allowed])

text \<open>
  C2. Under the same contract no allocation is ever lost or shared: every outstanding
  allocation belongs to exactly one live buffer or retained range, and what two live
  buffers hold never has a byte in common.
\<close>

theorem buffers_run_isolated:
  assumes "platform_ok P" and "ops_allowed (buf_step P) buf_pre buffers_init xs"
    and "run_ops (buf_step P) buffers_init xs = Some s"
  shows "(ledger (mem_calls s) p = Some n \<longleftrightarrow> (\<exists>!x. owner_of s x = Some (p, n))) \<and>
    (bo_of s h = Some b \<longrightarrow> bo_of s k = Some c \<longrightarrow> h \<noteq> k \<longrightarrow>
       bo_phys b + uint (bo_size b) \<le> bo_phys c \<or> bo_phys c + uint (bo_size c) \<le> bo_phys b)"
proof -
  from buf.run_inv [OF _ assms(2)] assms(1,3) buf_inv_init have "buf_inv s" by auto
  then have ok: "owned_ok (mem_calls s) (seg_of s) (owner_of s)"
    by (auto simp: buf_inv_def dest: winvD)
  have one: "ledger (mem_calls s) p = Some n \<longleftrightarrow> (\<exists>!x. owner_of s x = Some (p, n))"
    unfolding owned_okD(1) [OF ok] using owned_okD(2) [OF ok] by metis
  have "bo_phys b + uint (bo_size b) \<le> bo_phys c \<or> bo_phys c + uint (bo_size c) \<le> bo_phys b"
    if "bo_of s h = Some b" "bo_of s k = Some c" "h \<noteq> k"
  proof -
    from that obtain i j where ij: "bo_index s h = Some i" "b = s_bo s i"
      "bo_index s k = Some j" "c = s_bo s j" by (auto simp: bo_of_def)
    have "i \<noteq> j" using handle_index_inj [of h k] bo_indexD(3,4) [OF ij(1)] bo_indexD(3,4) [OF ij(3)]
      that(3) by metis
    moreover have own: "owner_of s (Bo i) = Some (bo_phys b, bo_size b)"
      "owner_of s (Bo j) = Some (bo_phys c, bo_size c)"
      using ij bo_indexD(1,2) by auto
    ultimately have "bo_phys b \<noteq> bo_phys c" using owned_okD(2) [OF ok] by (metis owner.inject(1))
    then show ?thesis using owned_okD(5) [OF ok] owned_okD(1) [OF ok] own by blast
  qed
  with one show ?thesis by blast
qed

theorem buffers_run_isolated_witness:
  "ledger (mem_calls sample_closed) 0x4000 = Some 0x8000 \<and>
    (\<exists>!x. owner_of sample_closed x = Some (0x4000, 0x8000))"
proof -
  have "ledger (mem_calls sample_closed) 0x4000 = Some 0x8000" by (simp add: sample_closed_def)
  with buffers_run_isolated [OF bump_platform_ok sample_allowed sample_run] show ?thesis by blast
qed

text \<open>
  C3. The retained ranges stay within their budget: after any sequence of calls under the
  contract they hold at most 256 MiB in all, or there is a single one; and the byte count
  the code keeps is the true sum, without wrap-around.
\<close>

theorem retained_within_budget:
  assumes "platform_ok P" and "ops_allowed (buf_step P) buf_pre buffers_init xs"
    and "run_ops (buf_step P) buffers_init xs = Some s"
  shows "unat (oops_winsys_retained_bytes s) = (\<Sum>j\<in>used_ranges s. unat (rr_size (s_retained s j)))
    \<and> (unat (oops_winsys_retained_bytes s) \<le> 256 * 1024 * 1024 \<or> card (used_ranges s) \<le> 1)"
proof -
  from buf.run_inv [OF _ assms(2)] assms(1,3) buf_inv_init have "buf_inv s" by auto
  then have "winv s" "budget_ok s" by (auto simp: buf_inv_def)
  then show ?thesis
    using retained_bytes_unat [of s]
    by (simp add: oops_winsys_retained_bytes_def retained_total_def budget_ok_def
        OOPS_WINSYS_RETAINED_BYTES_def)
qed

theorem retained_within_budget_witness:
  "unat (oops_winsys_retained_bytes sample_closed) \<le> 256 * 1024 * 1024 \<or> card (used_ranges sample_closed) \<le> 1"
  using retained_within_budget [OF bump_platform_ok sample_allowed sample_run] by blast

end
