(* ===== verification/Device_Props.thy ===== *)
theory Device_Props
  imports Ioctl Submit_Props Buffers_Props
begin

text \<open>
  The device as a whole: the properties of its own answers, and the ones that span its
  components, for sequences of ioctls.
\<close>

section \<open>Submission keeps the buffers' invariant\<close>

lemma buf_inv_cpu_map_va:
  assumes "platform_ok (pf_mem env)" and "buf_inv b"
    and "oops_winsys_cpu_map_va (pf_mem env) va n b = (p, b')"
  shows "buf_inv b'"
  using cpu_map_inv(3) [OF assms(1,2), of va n] assms(3) by simp

lemma buf_inv_mark_add:
  assumes "platform_ok (pf_mem env)" and "buf_inv (w_buf s)"
  shows "buf_inv (w_buf (mark_add env kind at va ref msk s))"
  using buf_inv_cpu_map_va [OF assms] assms(2)
  by (auto simp: mark_add_def Let_def split: prod.split)

lemma buf_inv_note_packet:
  assumes "platform_ok (pf_mem env)" and "buf_inv (w_buf s)"
  shows "buf_inv (w_buf (note_packet env at opc cnt b s))"
  using buf_inv_mark_add [OF assms] assms(2) by (simp add: note_packet_def Let_def)

lemma buf_inv_note_marks:
  assumes "platform_ok (pf_mem env)" and "buf_inv (w_buf s)"
  shows "buf_inv (w_buf (oops_winsys_note_marks env va bytes s))"
proof -
  have "buf_inv (w_buf (note_marks_from env dw n i s))" for dw n i
    by (rule note_marks_from_keeps [where I = "\<lambda>s. buf_inv (w_buf s)"])
      (use buf_inv_note_packet [OF assms(1)] assms(2) in auto)
  then show ?thesis using assms(2) by (simp add: oops_winsys_note_marks_def Let_def)
qed

lemma submit_one_buf: "submit_one env va n s = Some (r, s') \<Longrightarrow> w_buf s' = w_buf s"
  by (auto simp: submit_one_def Let_def split: option.splits)

lemma submit_chain_buf:
  assumes "submit_bound env" and "submit_chain env va n depth s = Some (r, s')"
  shows "w_buf s' = w_buf s"
  using submit_chain_streams [OF assms(1), of va n depth s] assms(2) by auto

lemma buf_inv_chunk_loop:
  assumes "platform_ok (pf_mem env)" and "submit_bound env"
  shows "buf_inv (w_buf s) \<Longrightarrow> cs_chunk_loop env cs k f s = Some (x, s') \<Longrightarrow> buf_inv (w_buf s')"
proof (induction cs arbitrary: k f s)
  case (Cons c cs)
  show ?case
  proof (cases rule: cs_chunk_cases [of c env cs k f s])
    case (ib va b)
    then obtain r s1 where s1: "submit_chain env va b 0 (oops_winsys_note_marks env va b s) = Some (r, s1)"
      using Cons.prems(2) by (auto split: option.splits)
    have "buf_inv (w_buf s1)"
      using submit_chain_buf [OF assms(2) s1] buf_inv_note_marks [OF assms(1) Cons.prems(1)] by simp
    then show ?thesis using Cons.IH [of s1] Cons.prems(2) ib(3) s1 by (auto split: if_splits)
  next
    case (other f')
    then show ?thesis using Cons.IH [of s] Cons.prems by simp
  qed
qed simp

lemma store_words_buf: "w_buf (store_words p ws s) = w_buf s"
  by (induction p ws s rule: store_words.induct) simp_all

lemma buf_inv_publish:
  assumes "platform_ok (pf_mem env)" and "buf_inv (w_buf s)" and "cs_publish env uf s = (r, s')"
  shows "buf_inv (w_buf s')"
proof (cases uf)
  case None
  then show ?thesis using assms by (auto simp: cs_publish_def Let_def)
next
  case (Some f)
  obtain h off where f: "f = (h, off)" by fastforce
  obtain slot b where b: "oops_winsys_bo_cpu_range (pf_mem env) h off 8 (w_buf s) = (slot, b)" by fastforce
  then have "buf_inv b" using cpu_map_inv(2) [OF assms(1,2), of h off 8] by simp
  then show ?thesis using assms(3) Some f b by (auto simp: cs_publish_def Let_def split: if_splits)
qed

lemma buf_inv_retire:
  assumes P: "platform_ok (pf_mem env)" and inv: "buf_inv (w_buf s)"
    and ret: "cs_retire env cid uf s = Some (r, s')"
  shows "buf_inv (w_buf s')"
proof -
  let ?s1 = "emit (Flush [w_fence s]) (emit (Store32 (w_fence s) OOPS_WINSYS_FENCE_ARMED) s)"
  obtain ws s2 where s2: "write_fence_stream (w_fence_dcb s) (w_fence s) ?s1 = (ws, s2)" by fastforce
  then have b2: "w_buf s2 = w_buf s" by (auto simp: write_fence_stream_def Let_def store_words_buf)
  have nz: "\<not> (w_fence s = 0 \<or> w_fence_dcb s = 0)" using ret by (auto simp: cs_retire_def)
  obtain d s3 where s3: "submit_one env (w_fence_dcb s) (ws * 4) s2 = Some (d, s3)"
    using ret nz s2 by (auto simp: cs_retire_def Let_def split: option.splits)
  have b3: "w_buf s3 = w_buf s" using submit_one_buf [OF s3] b2 by simp
  let ?st = "case pf_process_time env of Some now \<Rightarrow> now (w_trace s3) | None \<Rightarrow> 0"
  obtain fired wt s4 where p: "poll_fence env ?st OOPS_WINSYS_FENCE_POLLS 0 s3 = ((fired, wt), s4)"
    by (metis prod.exhaust)
  have b4: "w_buf s4 = w_buf s" using poll_fence_trace [OF p] b3 by auto
  let ?s5 = "if fired \<and> OOPS_WINSYS_SLOW_US < wt \<and> w_slowest_us s4 < wt then s4\<lparr>w_slowest_us := wt\<rparr> else s4"
  have b5: "buf_inv (w_buf ?s5)" using b4 inv by simp
  have step: "cs_retire env cid uf s = (if d \<noteq> 0 then Some ((Err EIO, None), s3)
      else if \<not> fired then Some ((Err ETIMEDOUT, None), ?s5\<lparr>w_ctx := oops_winsys_ctx_note_hang cid (w_ctx ?s5)\<rparr>)
      else Some (cs_publish env uf ?s5))"
    using nz s2 s3 p by (cases "d = 0") (simp_all add: cs_retire_def Let_def)
  consider "s' = s3" | "w_buf s' = w_buf ?s5" | "cs_publish env uf ?s5 = (r, s')"
    using ret unfolding step by (auto split: if_splits)
  then show ?thesis
    using b3 b5 inv buf_inv_publish [OF P b5, of uf r s'] by cases simp_all
qed

lemma buf_inv_cs:
  assumes "platform_ok (pf_mem env)" and "queue_ok env s" and "buf_inv (w_buf s)"
    and "oops_winsys_cs env arg s = Some (r, s')"
  shows "buf_inv (w_buf s')"
proof -
  obtain b s0 where e: "ensure_queue env s = (b, s0)" by fastforce
  have b0: "buf_inv (w_buf s0)" using ensure_queue_same [OF e] assms(3) by simp
  show ?thesis
  proof (cases "b \<and> (\<exists>c cs. cs_chunks arg = Some (c # cs))")
    case False
    then have "\<not> b \<or> cs_chunks arg = None \<or> cs_chunks arg = Some []"
      by (metis list.exhaust option.exhaust)
    then have "s' = s0" using assms(4) e by (elim disjE) (auto simp: oops_winsys_cs_def split: if_splits)
    then show ?thesis using b0 by simp
  next
    case True
    then obtain chunks where c: "b" "cs_chunks arg = Some chunks" "chunks \<noteq> []" by auto
    then have sb: "submit_bound env" using ensure_queue_ready [OF _ assms(2)] e by (auto simp: queue_ok_def)
    let ?s1 = "oops_winsys_clear_marks s0"
    let ?s2 = "emit (Flush (oops_winsys_flush_cpu_writes (w_buf ?s1))) ?s1"
    have b2: "buf_inv (w_buf ?s2)" using b0 by (simp add: oops_winsys_clear_marks_def)
    obtain x s3 where x: "cs_chunk_loop env chunks 0 None ?s2 = Some (x, s3)"
      using chunk_loop_total [OF sb] by blast
    have "buf_inv (w_buf s3)" using buf_inv_chunk_loop [OF assms(1) sb b2 x] .
    moreover have "(case x of Inl e \<Rightarrow> Some ((Err e, None), s3)
        | Inr (k, uf) \<Rightarrow> if k = 0 then Some ((Err EINVAL, None), s3)
            else cs_retire env (cs_ctx_id arg) uf s3) = Some (r, s')"
      using assms(4) e c x by (simp add: oops_winsys_cs_def Let_def split: sum.split)
    ultimately show ?thesis
      using buf_inv_retire [OF assms(1), of s3]
      by (auto split: sum.splits prod.splits if_splits)
  qed
qed

section \<open>Sequences of ioctls\<close>

text \<open>What the device keeps true, and what a map request has to satisfy.\<close>

definition device_inv :: "platform \<Rightarrow> device \<Rightarrow> bool" where
  "device_inv env d \<longleftrightarrow> platform_ok (pf_mem env) \<and> fence_memory env \<and> buf_inv (dv_buf d) \<and>
     queue_ok env (dv_winsys d)"

fun device_pre :: "device \<Rightarrow> int \<times> request \<Rightarrow> bool" where
  "device_pre d (fd, IOCTL_AMDGPU_GEM_VA a) = buf_pre (dv_buf d) (GemVa a)"
| "device_pre d _ = True"

definition device_step :: "platform \<Rightarrow> kernel \<Rightarrow> device \<Rightarrow> int \<times> request \<Rightarrow> device option" where
  "device_step env kn d x = map_option snd (oops_winsys_ioctl env kn (fst x) (snd x) d)"

lemma device_inv_init:
  "platform_ok (pf_mem env) \<Longrightarrow> fence_memory env \<Longrightarrow> device_inv env device_init"
  by (simp add: device_inv_def device_init_def dv_buf_def winsys_init_def queue_ok_def buf_inv_init)

lemma device_inv_set_buf:
  "device_inv env d \<Longrightarrow> buf_inv b \<Longrightarrow> device_inv env (set_buf b d)"
  by (simp add: device_inv_def set_buf_def dv_buf_def queue_ok_def)

lemma ioctl_dispatch_inv:
  assumes inv: "device_inv env d" and pre: "device_pre d (fd, req)"
  shows "\<exists>r d'. ioctl_dispatch env kn req d = Some (r, d') \<and> device_inv env d'"
proof -
  have P: "platform_ok (pf_mem env)" and b: "buf_inv (dv_buf d)" and q: "queue_ok env (dv_winsys d)"
    and f: "fence_memory env" using inv by (auto simp: device_inv_def)
  show ?thesis
  proof (cases req)
    case (IOCTL_AMDGPU_GEM_CREATE a)
    obtain x c where c: "oops_winsys_gem_create (pf_mem env) a (dv_buf d) = (x, c)" by fastforce
    then have "buf_inv c" using gem_create_inv [OF P b, of a] by simp
    with IOCTL_AMDGPU_GEM_CREATE c show ?thesis
      by (cases x) (simp add: ioctl_dispatch_def device_inv_set_buf [OF inv])
  next
    case (IOCTL_AMDGPU_GEM_VA a)
    then obtain c where "buf_step (pf_mem env) (dv_buf d) (GemVa a) = Some c" "buf_inv c"
      using buf_step_inv [OF P b, of "GemVa a"] pre by auto
    then show ?thesis
      using IOCTL_AMDGPU_GEM_VA device_inv_set_buf [OF inv] by (auto simp: ioctl_dispatch_def)
  next
    case (IOCTL_GEM_CLOSE h)
    then show ?thesis
      using gem_close_total [OF b, of h] device_inv_set_buf [OF inv] by (auto simp: ioctl_dispatch_def)
  next
    case (IOCTL_AMDGPU_CS a)
    obtain w where w: "cs_step env (dv_winsys d) a = Some w" "queue_ok env w"
      using cs_step_total [OF f q, of a] by blast
    then obtain x where x: "oops_winsys_cs env a (dv_winsys d) = Some (x, w)" by (auto simp: cs_step_def)
    have "buf_inv (w_buf w)" using buf_inv_cs [OF P q _ x] b by (simp add: dv_buf_def)
    then have "device_inv env (d\<lparr>dv_winsys := w\<rparr>)" using P f w(2) by (simp add: device_inv_def dv_buf_def)
    then show ?thesis using IOCTL_AMDGPU_CS x by (cases x) (simp add: ioctl_dispatch_def)
  next
    case (IOCTL_AMDGPU_CTX a)
    then show ?thesis
      using inv by (cases "oops_winsys_ctx a (w_ctx (dv_winsys d))")
        (auto simp: ioctl_dispatch_def device_inv_def dv_buf_def queue_ok_def)
  qed (use inv in \<open>auto simp: ioctl_dispatch_def device_inv_def dv_buf_def Let_def split: prod.split\<close>)
qed

lemma device_step_inv:
  assumes "device_inv env d" and "device_pre d x"
  shows "\<exists>d'. device_step env kn d x = Some d' \<and> device_inv env d'"
proof -
  obtain fd req where x: "x = (fd, req)" by fastforce
  show ?thesis
    using ioctl_dispatch_inv [of env d fd req kn] assms x
    by (auto simp: device_step_def oops_winsys_ioctl_def)
qed

interpretation device: invariant_machine "device_step env kn" device_pre "device_inv env" for env kn
  by unfold_locales (rule device_step_inv)

end
