(* ===== verification/Device_Answers.thy ===== *)
theory Device_Answers
  imports Ioctl
begin

text \<open>
  What the device answers: the bounds of a reply, the memory description, the two-call
  protocol of the version query, the life of the descriptor, and which part of the device a
  command may change.
\<close>

section \<open>Replies\<close>

lemma u32_bytes_eq: "u32_bytes w = [ucast w, ucast (drop_bit 8 w), ucast (drop_bit 16 w), ucast (drop_bit 24 w)]"
  by (simp add: u32_bytes_def upt_rec)

lemma copy_out_bounds:
  assumes "oops_winsys_copy_out info src = (r, w)"
  shows "(r = Ok \<longleftrightarrow> w \<noteq> None) \<and>
    (\<forall>p bs. w = Some (p, bs) \<longrightarrow> p = in_return_pointer info \<and> p \<noteq> 0 \<and> bs \<noteq> [] \<and>
       length bs \<le> unat (in_return_size info))"
  using assms by (auto simp: oops_winsys_copy_out_def Let_def min_def split: if_splits)

lemma memory_info_reply: "oops_winsys_memory_info ds b = (r, w) \<Longrightarrow> (r = Ok \<longleftrightarrow> w \<noteq> None)"
  by (auto simp: oops_winsys_memory_info_def Let_def split: option.splits if_splits)

text \<open>
  A query that succeeds writes through the caller's pointer and one that fails writes
  nothing; what is written is at least one byte, starts at the pointer the request carries,
  which is not null, and never exceeds the size the request carries.
\<close>

theorem info_reply_bounded:
  assumes "oops_winsys_info u ds info b = (r, w)"
  shows "(r = Ok \<longleftrightarrow> w \<noteq> None) \<and>
    (\<forall>p bs. w = Some (p, bs) \<longrightarrow> p = in_return_pointer info \<and> p \<noteq> 0 \<and> bs \<noteq> [] \<and>
       length bs \<le> unat (in_return_size info))"
proof -
  have "oops_winsys_copy_out info src = (r, w) \<Longrightarrow> ?thesis" for src by (rule copy_out_bounds)
  moreover obtain m v where "oops_winsys_memory_info ds b = (m, v)" by fastforce
  ultimately show ?thesis
    using assms memory_info_reply [of ds b m v]
    by (cases "in_query info"; cases m; cases v)
      (auto simp: oops_winsys_info_def info_query_def Let_def split: if_splits)
qed

theorem info_reply_bounded_witness:
  "\<forall>u ds b. oops_winsys_info u ds \<lparr>in_return_pointer = 0x1000, in_return_size = 2,
      in_query = AMDGPU_INFO_READ_MMR_REG 0x263e\<rparr> b = (Ok, Some (0x1000, [4, 0])) \<and>
    length [4, 0 :: u8] \<le> unat (2 :: u32)"
proof (intro allI)
  fix u ds b
  let ?i = "\<lparr>in_return_pointer = 0x1000, in_return_size = 2, in_query = AMDGPU_INFO_READ_MMR_REG 0x263e\<rparr>"
  have e: "oops_winsys_info u ds ?i b = (Ok, Some (0x1000, [4, 0]))"
    by (simp add: oops_winsys_info_def info_query_def oops_winsys_gb_addr_config_def OOPS_GB_ADDR_CONFIG_def
        oops_winsys_copy_out_def u32_bytes_eq)
  with info_reply_bounded [OF e]
  show "oops_winsys_info u ds ?i b = (Ok, Some (0x1000, [4, 0])) \<and> length [4, 0 :: u8] \<le> unat (2 :: u32)"
    by simp
qed

text \<open>
  The memory description is one pool reported three times, with no wrap-around: what is
  usable and what the live buffers use add up to the kernel's figure, and a use beyond that
  figure leaves nothing usable. It is refused exactly when the kernel reports no memory.
\<close>

theorem memory_info_adds_up:
  "case oops_winsys_memory_info (Some sz) b of
     (Ok, Some m) \<Rightarrow> sz \<noteq> 0 \<and> mi_gtt m = mi_vram m \<and> mi_cpu_accessible_vram m = mi_vram m \<and>
       hi_total_heap_size (mi_vram m) = sz \<and> hi_heap_usage (mi_vram m) = oops_winsys_bo_bytes_live b \<and>
       unat (hi_usable_heap_size (mi_vram m)) = unat sz - unat (oops_winsys_bo_bytes_live b)
   | (r, w) \<Rightarrow> sz = 0 \<and> r = Err ENODEV \<and> w = None"
  by (auto simp: oops_winsys_memory_info_def Let_def not_less word_less_nat_alt unat_sub word_le_nat_alt)

section \<open>The driver identity\<close>

text \<open>
  C16. The version query answers libdrm's two calls: asked with null buffers it writes
  nothing and reports the lengths; asked again with buffers of those lengths it fills each
  of them with the whole string it belongs to, and reports the same lengths.
\<close>

theorem version_two_calls:
  assumes "oops_winsys_version (arg\<lparr>ve_name := 0, ve_date := 0, ve_desc := 0\<rparr>) = ((r, out), ws)"
    and "p \<noteq> 0" and "q \<noteq> 0" and "t \<noteq> 0"
  shows "r = Ok \<and> ws = [] \<and>
    oops_winsys_version (out\<lparr>ve_name := p, ve_date := q, ve_desc := t\<rparr>) =
      ((Ok, out\<lparr>ve_name := p, ve_date := q, ve_desc := t\<rparr>),
       [(p, ''amdgpu''), (q, ''20150101''), (t, ''oops-mesa winsys over the platform graphics driver'')]) \<and>
    ve_name_len out = 6 \<and> ve_date_len out = 8 \<and> ve_desc_len out = 50"
  using assms by (auto simp: oops_winsys_version_def version_copy_def version_name_def version_date_def version_desc_def)

theorem version_two_calls_witness:
  "\<exists>out. oops_winsys_version \<lparr>ve_version_major = 0, ve_version_minor = 0, ve_version_patchlevel = 0,
       ve_name_len = 99, ve_name = 0, ve_date_len = 0, ve_date = 0, ve_desc_len = 0, ve_desc = 0\<rparr> =
      ((Ok, out), []) \<and>
    snd (oops_winsys_version (out\<lparr>ve_name := 1, ve_date := 2, ve_desc := 3\<rparr>)) =
      [(1, ''amdgpu''), (2, ''20150101''), (3, ''oops-mesa winsys over the platform graphics driver'')]"
proof -
  let ?a = "\<lparr>ve_version_major = 0, ve_version_minor = 0, ve_version_patchlevel = 0,
       ve_name_len = 99, ve_name = 0, ve_date_len = 0, ve_date = 0, ve_desc_len = 0, ve_desc = 0\<rparr>"
  obtain r out ws where e: "oops_winsys_version (?a\<lparr>ve_name := 0, ve_date := 0, ve_desc := 0\<rparr>) = ((r, out), ws)"
    by (metis surj_pair)
  have "oops_winsys_version ?a = ((r, out), ws)" using e by simp
  then show ?thesis using version_two_calls [OF e, of 1 2 3] by auto
qed

section \<open>The descriptor\<close>

text \<open>
  A descriptor other than the token, once claimed, is held for good: later claims give
  the same one whatever the file system answers by then, ioctls and closes on it pass the
  descriptor gate, and the render node is a duplicate of it.
\<close>

theorem claimed_fd_held:
  assumes "oops_winsys_claim_fd opened is_open fd0 = fd" and "fd \<noteq> OOPS_WINSYS_FD"
  shows "oops_winsys_claim_fd opened' is_open' fd = fd \<and>
    oops_winsys_open True opened' is_open' fd = (Inr fd, fd) \<and>
    oops_winsys_open_render_node opened' is_open' dupfd fd = (dupfd fd, fd) \<and>
    oops_winsys_close is_open' fd fd = Ok \<and>
    (dv_fd d = fd \<longrightarrow> oops_winsys_ioctl env kn fd req d = ioctl_dispatch env kn req d)"
  using assms by (simp add: oops_winsys_claim_fd_def oops_winsys_open_def oops_winsys_open_render_node_def
      oops_winsys_close_def oops_winsys_ioctl_def)

theorem claimed_fd_held_witness:
  "oops_winsys_claim_fd 7 (\<lambda>_. False) OOPS_WINSYS_FD = 7 \<and> oops_winsys_claim_fd (- 1) (\<lambda>_. False) 7 = 7"
proof -
  have "oops_winsys_claim_fd 7 (\<lambda>_. False) OOPS_WINSYS_FD = 7" by (simp add: oops_winsys_claim_fd_def)
  with claimed_fd_held [OF this, of "- 1" "\<lambda>_. False"] show ?thesis by (simp add: OOPS_WINSYS_FD_def)
qed

text \<open>
  The token's value is also a descriptor number. A file opened as descriptor 0x57 is
  taken for "nothing claimed": the next claim opens the file again and moves to the new
  number, after which the gate refuses the first one if it is closed, and while it is the
  one held the render node is refused although the descriptor is real.
\<close>

theorem descriptor_0x57_not_held:
  "oops_winsys_claim_fd 0x57 is_open OOPS_WINSYS_FD = 0x57 \<and>
   oops_winsys_open_render_node 0x57 is_open dupfd 0x57 = (Inl ENODEV, 0x57) \<and>
   (0 \<le> f \<longrightarrow> oops_winsys_claim_fd f is_open 0x57 = f)"
  by (simp add: oops_winsys_claim_fd_def oops_winsys_open_render_node_def OOPS_WINSYS_FD_def)

theorem descriptor_0x57_not_held_witness:
  "oops_winsys_claim_fd 9 (\<lambda>_. True) (oops_winsys_claim_fd 0x57 (\<lambda>_. True) OOPS_WINSYS_FD) = 9"
  using descriptor_0x57_not_held [of "\<lambda>_. True" "\<lambda>_. Inl EBADF" 9] by simp

section \<open>What a command may change\<close>

fun touches_buffers :: "request \<Rightarrow> bool" where
  "touches_buffers (IOCTL_AMDGPU_GEM_CREATE a) = True"
| "touches_buffers (IOCTL_AMDGPU_GEM_VA a) = True"
| "touches_buffers (IOCTL_GEM_CLOSE h) = True"
| "touches_buffers (IOCTL_AMDGPU_CS a) = True"
| "touches_buffers _ = False"



end
