(* ===== verification/Buffers_Samples.thy ===== *)
theory Buffers_Samples
  imports Buffers_Props
begin

text \<open>
  Concrete states of the buffer tables, each reached by calls from the initial state on the
  bump allocator of \<open>bump_platform\<close>; the witnesses of the properties evaluate the
  operations there.
\<close>

lemma buf_step_inv_eq:
  assumes "buf_inv s" and "buf_pre s x" and "buf_step bump_platform s x = Some s'"
  shows "buf_inv s'"
  using buf_step_inv [OF bump_platform_ok assms(1,2)] assms(3) by auto

lemma sample_created_inv: "buf_inv sample_created"
  by (rule buf_step_inv_eq [OF buf_inv_init _ sample_step1]) simp

lemma sample_mapped_inv: "buf_inv sample_mapped"
  by (rule buf_step_inv_eq [OF sample_created_inv sample_pre2 sample_step2])

lemma sample_closed_inv: "buf_inv sample_closed"
  by (rule buf_step_inv_eq [OF sample_mapped_inv _ sample_step3]) simp

lemma sample_winv: "winv sample_created" "winv sample_mapped" "winv sample_closed"
  using sample_created_inv sample_mapped_inv sample_closed_inv by (simp_all add: buf_inv_def)

definition sample_cpu :: buffers where
  "sample_cpu = sample_created\<lparr>s_bo := (\<lambda>_. bo_zero)(0 := sample_bo\<lparr>bo_cpu_ptr := 0x4000\<rparr>),
     mem_calls := [MapDirect 0x8000 0x4000 (Some 0x4000), AllocDirect 0x8000 0x4000 (Some 0x4000)]\<rparr>"

lemma sample_cpu_map: "bo_cpu_map bump_platform 0 sample_created = (True, sample_cpu)"
  by (simp add: bo_cpu_map_def sample_cpu_def sample_defs bump_platform_def Let_def)

lemma sample_cpu_range:
  "oops_winsys_bo_cpu_range bump_platform 1 8 16 sample_created = (0x4008, sample_cpu)"
  using sample_created_fields(1,2) sample_cpu_map
  by (simp add: oops_winsys_bo_cpu_range_def sample_bo_def) (simp add: sample_cpu_def)

lemma sample_mmap: "oops_winsys_mmap bump_platform 0x5000 0x4000 sample_created = (0x4000, sample_cpu)"
  using sample_created_fields(1,2) sample_cpu_map
  by (simp add: oops_winsys_mmap_def sample_bo_def OOPS_WINSYS_PAGE_def Let_def) (simp add: sample_cpu_def)

lemma sample_cpu_winv: "winv sample_cpu"
  using bo_cpu_map_winv [OF bump_platform_ok sample_winv(1), of 0] sample_cpu_map sample_created_fields(1)
  by (simp add: sample_bo_def OOPS_WINSYS_MAX_BO_def)

text \<open>A second buffer of the same size, created after the first one was closed.\<close>

definition sample_again :: buffers where
  "sample_again = sample_closed\<lparr>s_bo := (\<lambda>_. bo_zero)(0 := sample_bo\<lparr>bo_phys := 0x10000\<rparr>),
     mem_calls := AllocDirect 0x8000 0x4000 (Some 0x10000) # mem_calls sample_closed\<rparr>"

lemma sample_step4: "buf_step bump_platform sample_closed (GemCreate sample_create) = Some sample_again"
  by (simp add: sample_again_def sample_defs oops_winsys_gem_create_def round_up_page_def OOPS_WINSYS_PAGE_def
      OOPS_WINSYS_MAX_BO_def first_index_def bump_platform_def Let_def)

lemma sample_again_inv: "buf_inv sample_again"
  by (rule buf_step_inv_eq [OF sample_closed_inv _ sample_step4]) simp

lemma retain_simple:
  assumes "s_retained_bytes s + n \<le> OOPS_WINSYS_RETAINED_BYTES"
    and "first_index (\<lambda>i. \<not> rr_used (s_retained s i)) OOPS_WINSYS_MAX_RETAINED = Some i"
  shows "retain va n p pr ow s = Some (retain_store i va n p pr ow s)"
proof -
  have "retain_make_room n s = Some s"
    by (subst retain_make_room.simps) (use assms(1) in \<open>auto simp: not_less\<close>)
  moreover have "retain_find_slot s = Some (i, s)"
    by (subst retain_find_slot.simps) (simp add: assms(2))
  ultimately show ?thesis by (simp add: retain_def)
qed

definition sample_held :: retained_range where
  "sample_held = \<lparr>rr_used = True, rr_owns_phys = False, rr_prot = {GPU_READ, CPU_READ},
     rr_va = 0x400000, rr_size = 0x8000, rr_phys = 0x4000, rr_seq = 1\<rparr>"

text \<open>The first buffer is unmapped: its range is retained without the pages.\<close>

definition sample_unmapped :: buffers where
  "sample_unmapped = sample_mapped\<lparr>s_bo := (\<lambda>_. bo_zero)(0 := sample_bo\<lparr>bo_gpu_prot := {GPU_READ, CPU_READ}\<rparr>),
     s_retained := (\<lambda>_. retained_zero)(0 := sample_held), s_retained_seq := 1, s_retained_bytes := 0x8000\<rparr>"

definition sample_unmap :: drm_amdgpu_gem_va where
  "sample_unmap = sample_map\<lparr>va_operation := AMDGPU_VA_OP_UNMAP\<rparr>"

lemma sample_step5: "buf_step bump_platform sample_mapped (GemVa sample_unmap) = Some sample_unmapped"
proof -
  have i: "bo_index sample_mapped 1 = Some 0"
    by (simp add: bo_index_def sample_defs OOPS_WINSYS_MAX_BO_def)
  have r: "retain va 0x8000 p pr ow sample_mapped = Some (retain_store 0 va 0x8000 p pr ow sample_mapped)"
    for va p pr ow
    by (rule retain_simple) (simp_all add: sample_defs first_index_def OOPS_WINSYS_MAX_RETAINED_def
        OOPS_WINSYS_RETAINED_BYTES_def)
  have b: "s_bo sample_mapped 0 = sample_bo\<lparr>bo_gpu_va := 0x400000, bo_gpu_prot := {GPU_READ, CPU_READ}\<rparr>"
    "bo_size sample_bo = 0x8000" "bo_cpu_ptr sample_bo = 0" "bo_phys sample_bo = 0x4000"
    by (simp_all add: sample_mapped_def sample_bo_def)
  show ?thesis
    using i r b by (simp add: oops_winsys_gem_va_def va_unmap_def sample_unmap_def Let_def)
      (simp add: sample_map_def oops_winsys_gem_va_def va_unmap_def i b r, simp add: retain_store_def sample_unmapped_def sample_held_def sample_defs Let_def)
qed

definition sample_second :: oops_winsys_bo where
  "sample_second = sample_bo\<lparr>bo_phys := 0x10000\<rparr>"

definition sample_two :: buffers where
  "sample_two = sample_unmapped\<lparr>s_bo := (s_bo sample_unmapped)(1 := sample_second),
     mem_calls := AllocDirect 0x8000 0x4000 (Some 0x10000) # mem_calls sample_unmapped\<rparr>"

definition sample_map2 :: drm_amdgpu_gem_va where
  "sample_map2 = sample_map\<lparr>va_handle := 2, va_address := 0x500000\<rparr>"

definition sample_two_mapped :: buffers where
  "sample_two_mapped = sample_two\<lparr>
     s_bo := (s_bo sample_two)(1 := sample_second\<lparr>bo_gpu_va := 0x500000, bo_gpu_prot := {GPU_READ, CPU_READ}\<rparr>),
     mem_calls := BatchMap 0x500000 0x10000 0x8000 {GPU_READ, CPU_READ} True # mem_calls sample_two\<rparr>"

definition sample_owned :: retained_range where
  "sample_owned = \<lparr>rr_used = True, rr_owns_phys = True, rr_prot = {GPU_READ, CPU_READ},
     rr_va = 0x500000, rr_size = 0x8000, rr_phys = 0x10000, rr_seq = 2\<rparr>"

definition sample_two_closed :: buffers where
  "sample_two_closed = sample_two_mapped\<lparr>s_bo := s_bo sample_unmapped,
     s_retained := (s_retained sample_unmapped)(1 := sample_owned),
     s_retained_seq := 2, s_retained_bytes := 0x10000\<rparr>"

lemmas sample_two_defs = sample_second_def sample_two_def sample_map2_def sample_two_mapped_def
  sample_owned_def sample_two_closed_def sample_unmapped_def sample_held_def

lemma sample_step6: "buf_step bump_platform sample_unmapped (GemCreate sample_create) = Some sample_two"
  by (simp add: sample_two_defs sample_defs oops_winsys_gem_create_def round_up_page_def OOPS_WINSYS_PAGE_def
      OOPS_WINSYS_MAX_BO_def first_index_def bump_platform_def Let_def)

lemma sample_two_fields:
  "bo_index sample_two 2 = Some 1" "s_bo sample_two 1 = sample_second"
  "bo_live (s_bo sample_two k) \<Longrightarrow> bo_gpu_va (s_bo sample_two k) = 0"
  "bo_live (s_bo sample_two k) \<Longrightarrow> bo_cpu_ptr (s_bo sample_two k) = 0"
  "rr_used (s_retained sample_two k) \<Longrightarrow> k = 0" "s_retained sample_two 0 = sample_held"
  by (auto simp: bo_index_def sample_two_defs sample_defs OOPS_WINSYS_MAX_BO_def split: if_splits)

lemma sample_step7: "buf_step bump_platform sample_two (GemVa sample_map2) = Some sample_two_mapped"
proof -
  note F = sample_two_fields
  have no: "va_collisions sample_two 1 va n = []" for va n
    by (rule va_collisions_clear) (simp add: F)
  have rel: "release_overlapping 0x500000 0x8000 sample_two = sample_two"
    by (rule release_overlapping_clear) (auto simp: F sample_held_def va_overlap_def dest!: F(5))
  have keep: "first_index (va_keeps sample_two 1 0x500000 n pr) OOPS_WINSYS_MAX_RETAINED = None" for n pr
    by (auto simp: first_index_None va_keeps_def F sample_held_def Let_def dest!: F(5))
  have "va_map bump_platform sample_map2 1 {GPU_READ, CPU_READ} sample_two = (Ok, sample_two_mapped)"
    using F(2) no rel keep
    by (simp add: va_map_def Let_def sample_map2_def sample_map_def sample_second_def sample_bo_def)
      (simp add: sample_two_defs sample_defs bump_platform_def)
  then show ?thesis
    using F(1) by (simp add: oops_winsys_gem_va_def va_unmap_def sample_map2_def sample_map_def va_prot_def)
qed

lemma sample_pre7: "buf_pre sample_two (GemVa sample_map2)"
proof -
  note F = sample_two_fields
  have "seg_of sample_two (Gpu k) = None \<and> seg_of sample_two (Cpu k) = None" for k
    using F(3,4) [of k] by auto
  then have "va_map_clean sample_two sample_map2 1"
    by (auto simp: va_map_clean_def F F(2) [unfolded One_nat_def] sample_second_def sample_bo_def sample_map2_def sample_map_def
        sample_held_def simp del: seg_of.simps dest!: F(5))
  then show ?thesis using F(1) by (simp add: sample_map2_def sample_map_def)
qed

lemma sample_step8: "buf_step bump_platform sample_two_mapped (GemClose 2) = Some sample_two_closed"
proof -
  have i: "bo_index sample_two_mapped 2 = Some 1"
    by (simp add: bo_index_def sample_two_defs sample_defs OOPS_WINSYS_MAX_BO_def)
  have r: "retain va 0x8000 p pr ow sample_two_mapped = Some (retain_store 1 va 0x8000 p pr ow sample_two_mapped)"
    for va p pr ow
    by (rule retain_simple) (simp_all add: sample_two_defs sample_defs first_index_def
        OOPS_WINSYS_MAX_RETAINED_def OOPS_WINSYS_RETAINED_BYTES_def)
  have b: "s_bo sample_two_mapped 1 = sample_second\<lparr>bo_gpu_va := 0x500000, bo_gpu_prot := {GPU_READ, CPU_READ}\<rparr>"
    "bo_size sample_second = 0x8000" "bo_cpu_ptr sample_second = 0" "bo_phys sample_second = 0x10000"
    by (simp_all add: sample_two_defs sample_bo_def)
  have "oops_winsys_gem_close 2 sample_two_mapped = Some (Ok, set_bo 1 bo_zero
      (retain_store 1 0x500000 0x8000 0x10000 {GPU_READ, CPU_READ} True sample_two_mapped))"
    using i r b by (simp add: oops_winsys_gem_close_def Let_def)
  also have "set_bo 1 bo_zero (retain_store 1 0x500000 0x8000 0x10000 {GPU_READ, CPU_READ} True sample_two_mapped)
      = sample_two_closed"
    by (simp add: retain_store_def sample_two_defs sample_defs Let_def fun_upd_idem)
  finally show ?thesis by simp
qed

lemma sample_two_closed_inv: "buf_inv sample_two_closed"
proof -
  have "buf_inv sample_unmapped"
    by (rule buf_step_inv_eq [OF sample_mapped_inv _ sample_step5]) (simp add: sample_unmap_def sample_map_def split: option.split)
  then have "buf_inv sample_two" by (rule buf_step_inv_eq [OF _ _ sample_step6]) simp
  then have "buf_inv sample_two_mapped" by (rule buf_step_inv_eq [OF _ sample_pre7 sample_step7])
  then show ?thesis by (rule buf_step_inv_eq [OF _ _ sample_step8]) simp
qed

end
