(* ===== verification/Buffers_Ops.thy ===== *)
theory Buffers_Ops
  imports Buffers_Samples
begin

text \<open>
  What single operations of the buffer component do: page rounding, the ranges the CPU
  mapping calls give out, the round trips of a buffer's cookie and of its creation record,
  and what a map does with the ranges retained at its address.
\<close>

section \<open>Page rounding\<close>

lemma page_mask: "(x :: u64) AND NOT (mask 14) = push_bit 14 (drop_bit 14 x)"
  by (rule bit_word_eqI) (auto simp: bit_simps)

lemma unat_round_up_page: "unat (round_up_page n) = unat (n + 0x3fff) div 0x4000 * 0x4000"
proof -
  let ?x = "n + 0x3fff"
  have m: "(0x3fff :: u64) = mask 14" by (simp add: mask_eq_exp_minus_1)
  have "round_up_page n = ?x AND NOT (mask 14)"
    unfolding round_up_page_def OOPS_WINSYS_PAGE_def m [symmetric] by (simp add: add.commute [of n])
  also have "\<dots> = drop_bit 14 ?x * 2 ^ 14" unfolding page_mask by (rule push_bit_eq_mult)
  finally have "unat (round_up_page n) = unat (drop_bit 14 ?x * 2 ^ 14)" by simp
  moreover have "unat (drop_bit 14 ?x) = unat ?x div 0x4000"
    by (simp add: drop_bit_eq_div unat_div)
  moreover have "unat ?x div 0x4000 * 0x4000 < 2 ^ 64"
  proof -
    have "unat ?x < 2 ^ 64" using unsigned_less [where ?'a = nat, of ?x] by simp
    moreover have "unat ?x div 0x4000 * 0x4000 \<le> unat ?x" by (rule div_times_less_eq_dividend)
    ultimately show ?thesis by (rule order_le_less_trans [rotated])
  qed
  ultimately show ?thesis by (simp add: unat_word_ariths)
qed

text \<open>
  A size is rounded up to whole pages: the least multiple of 16 KiB that holds it,
  whenever that fits in 64 bits; a size within a page of 2^64 wraps to 0, which
  \<open>oops_winsys_gem_create\<close> refuses like a size of 0.
\<close>

theorem round_up_page_spec:
  "unat (round_up_page n) =
     (if unat n + 0x3fff < 2 ^ 64 then (unat n + 0x3fff) div 0x4000 * 0x4000 else 0)"
proof (cases "unat n + 0x3fff < 2 ^ 64")
  case True
  then have "unat (n + 0x3fff) = unat n + 0x3fff" by (simp add: unat_word_ariths)
  with True show ?thesis by (simp add: unat_round_up_page)
next
  case False
  have "unat n < 2 ^ 64" using unsigned_less [where ?'a = nat, of n] by simp
  then have "unat (n + 0x3fff) = unat n + 0x3fff - 2 ^ 64"
    using False by (simp add: unat_word_ariths mod_if)
  then have "unat (n + 0x3fff) < 0x4000" using \<open>unat n < 2 ^ 64\<close> by simp
  then show ?thesis using False by (simp add: unat_round_up_page)
qed

section \<open>CPU ranges\<close>

lemma winv_cpu_xlate:
  assumes "winv s" and "i < OOPS_WINSYS_MAX_BO" "bo_live (s_bo s i)" "bo_cpu_ptr (s_bo s i) \<noteq> 0"
    and "k < unat (bo_size (s_bo s i))"
  shows "xlate (mem_calls s) (unat (bo_cpu_ptr (s_bo s i)) + k) = Some (bo_phys (s_bo s i) + int k)"
    and "unat (bo_cpu_ptr (s_bo s i)) + unat (bo_size (s_bo s i)) < 2 ^ 64"
proof -
  let ?b = "s_bo s i"
  have F: "seg_of s (Cpu i) = Some (unat (bo_cpu_ptr ?b), unat (bo_size ?b), bo_phys ?b)"
    using assms(2-4) by simp
  have "covers (unat (bo_cpu_ptr ?b), unat (bo_size ?b), bo_phys ?b)
      (unat (bo_cpu_ptr ?b) + k) (bo_phys ?b + int k)" using assms(5) by simp
  then show "xlate (mem_calls s) (unat (bo_cpu_ptr ?b) + k) = Some (bo_phys ?b + int k)"
    using space_okD(2) [OF winvD(1) [OF assms(1)]] F by blast
  show "unat (bo_cpu_ptr ?b) + unat (bo_size ?b) < 2 ^ 64"
    using space_okD(3) [OF winvD(1) [OF assms(1)] F] .
qed

lemma bo_cpu_map_ok:
  assumes "bo_cpu_map P i s = (True, s')"
  shows "\<exists>v. s_bo s' = (s_bo s)(i := (s_bo s i)\<lparr>bo_cpu_ptr := v\<rparr>)"
proof (cases "bo_cpu_ptr (s_bo s i) = 0")
  case True
  then show ?thesis using assms by (auto simp: bo_cpu_map_def Let_def split: option.splits)
next
  case False
  then have "s' = s" using assms by (simp add: bo_cpu_map_def)
  then show ?thesis by (intro exI [of _ "bo_cpu_ptr (s_bo s i)"]) simp
qed

lemma bo_cpu_map_mapped:
  assumes "platform_ok P" and "bo_cpu_map P i s = (True, s')"
  shows "bo_cpu_ptr (s_bo s' i) \<noteq> 0"
  using assms platform_map(1) [OF assms(1)]
  by (auto simp: bo_cpu_map_def Let_def split: if_splits option.splits)

lemma cpu_range_pages:
  assumes "platform_ok P" and "winv s" and "oops_winsys_bo_cpu_range P h off bytes s = (p, s')" and "p \<noteq> 0"
  shows "\<exists>b. bo_of s h = Some b \<and> unat off + unat bytes \<le> unat (bo_size b) \<and>
    bo_size b = oops_winsys_bo_size s' h \<and>
    (\<forall>k < unat bytes. xlate (mem_calls s') (unat p + k) = Some (bo_phys b + int (unat off) + int k))"
proof -
  obtain i where i: "bo_index s h = Some i"
    using assms(3,4) by (cases "bo_index s h") (auto simp: oops_winsys_bo_cpu_range_def)
  let ?b = "s_bo s i"
  have fit: "\<not> (bo_size ?b < off \<or> bo_size ?b - off < bytes)"
    using assms(3,4) i by (auto simp: oops_winsys_bo_cpu_range_def)
  then have m: "bo_cpu_map P i s = (True, s')" and p: "p = bo_cpu_ptr (s_bo s' i) + off"
    using assms(3,4) i by (auto simp: oops_winsys_bo_cpu_range_def split: prod.splits if_splits)
  note I = bo_indexD(1,2) [OF i]
  obtain v where v: "s_bo s' = (s_bo s)(i := ?b\<lparr>bo_cpu_ptr := v\<rparr>)" using bo_cpu_map_ok [OF m] by blast
  have w: "winv s'" using bo_cpu_map_winv [OF assms(1,2) I] m by simp
  have room: "unat off + unat bytes \<le> unat (bo_size ?b)"
  proof -
    have le: "off \<le> bo_size ?b" using fit by (simp add: not_less)
    have "unat bytes \<le> unat (bo_size ?b - off)" using fit by (simp add: not_less word_le_nat_alt)
    moreover have "unat (bo_size ?b - off) = unat (bo_size ?b) - unat off"
      using le by (rule unat_sub)
    ultimately show ?thesis using le by (simp add: word_le_nat_alt)
  qed
  have live: "bo_live (s_bo s' i)" "bo_size (s_bo s' i) = bo_size ?b" "bo_phys (s_bo s' i) = bo_phys ?b"
    using v I by simp_all
  note x = winv_cpu_xlate [OF w I(1) live(1) bo_cpu_map_mapped [OF assms(1) m]]
  have "xlate (mem_calls s') (unat p + k) = Some (bo_phys ?b + int (unat off) + int k)"
    if "k < unat bytes" for k
  proof -
    have k: "unat off + k < unat (bo_size (s_bo s' i))" using that room live(2) by simp
    then have "unat p = unat (bo_cpu_ptr (s_bo s' i)) + unat off"
      unfolding p using x(2) [OF k] by (simp add: unat_word_ariths)
    then show ?thesis using x(1) [OF k] live(3) by (simp add: add.assoc)
  qed
  moreover have "oops_winsys_bo_size s' h = bo_size ?b"
    using i v live I by (simp add: oops_winsys_bo_size_def bo_of_def bo_index_def split: if_splits)
  ultimately show ?thesis using i room by (auto simp: bo_of_def)
qed

text \<open>
  The address \<open>oops_winsys_bo_cpu_range\<close> gives for \<open>bytes\<close> bytes at an offset of a
  buffer, which is where a submission's sequence number is stored, is inside that buffer:
  the range fits (without wrap-around) and every byte of it translates to the buffer's own
  memory at that offset. The buffer's identity does not change.
\<close>

theorem bo_cpu_range_inside:
  assumes "platform_ok P" and "winv s" and "oops_winsys_bo_cpu_range P h off bytes s = (p, s')" and "p \<noteq> 0"
  shows "\<exists>b. bo_of s h = Some b \<and> unat off + unat bytes \<le> unat (bo_size b) \<and>
    bo_size b = oops_winsys_bo_size s' h \<and>
    (\<forall>k < unat bytes. xlate (mem_calls s') (unat p + k) = Some (bo_phys b + int (unat off) + int k))"
  using cpu_range_pages [OF assms] .

theorem bo_cpu_range_inside_witness:
  "xlate (mem_calls sample_cpu) (0x4008 + 3) = Some (0x4000 + 8 + 3)"
proof -
  obtain b where b: "bo_of sample_created 1 = Some b"
    "\<forall>k < unat (16 :: u64). xlate (mem_calls sample_cpu) (unat (0x4008 :: u64) + k) =
       Some (bo_phys b + int (unat (8 :: u64)) + int k)"
    using bo_cpu_range_inside [OF bump_platform_ok sample_winv(1) sample_cpu_range] by auto
  have "b = sample_bo" using b(1) sample_created_fields(1,2) by (simp add: bo_of_def)
  then show ?thesis using b(2) [rule_format, of 3] by (simp add: sample_bo_def)
qed

lemma cookie_handle: "ucast ((ucast (h :: u32) * OOPS_WINSYS_PAGE :: u64) div OOPS_WINSYS_PAGE) = h"
proof -
  have h: "unat h < 2 ^ 32" using unsigned_less [where ?'a = nat, of h] by simp
  have u: "unat (ucast h :: u64) = unat h"
    using h by (simp add: unsigned_ucast_eq take_bit_nat_eq_self)
  have "unat ((ucast h * OOPS_WINSYS_PAGE :: u64) div OOPS_WINSYS_PAGE) = unat (ucast h :: u64)"
    using h by (simp add: unat_div unat_word_ariths OOPS_WINSYS_PAGE_def u)
  then have "(ucast h * OOPS_WINSYS_PAGE :: u64) div OOPS_WINSYS_PAGE = ucast h"
    by (simp add: word_unat_eq_iff)
  moreover have "ucast (ucast h :: u64) = h" by (rule bit_word_eqI) (auto simp: bit_simps)
  ultimately show ?thesis by simp
qed

text \<open>
  The cookie round trip: the cookie \<open>GEM_MMAP\<close> answers for a live buffer, handed to
  \<open>mmap\<close>, gives an address (unless the platform refuses the mapping) at which all of the
  buffer's bytes are mapped, and mapping it again gives the same address without another
  platform call.
\<close>

theorem mmap_cookie_roundtrip:
  assumes "platform_ok P" and "winv s" and "oops_winsys_gem_mmap h s = (Ok, Some cookie)"
    and "len \<le> oops_winsys_bo_size s h" and "oops_winsys_mmap P len cookie s = (p, s')" and "p \<noteq> 0"
  shows "oops_winsys_mmap P len cookie s' = (p, s') \<and>
    (\<exists>b. bo_of s h = Some b \<and>
      (\<forall>k < unat (bo_size b). xlate (mem_calls s') (unat p + k) = Some (bo_phys b + int k)))"
proof -
  obtain i where i: "bo_index s h = Some i" and c: "cookie = ucast h * OOPS_WINSYS_PAGE"
    using assms(3) by (auto simp: oops_winsys_gem_mmap_def bo_of_def split: option.splits)
  let ?b = "s_bo s i"
  have h: "ucast (cookie div OOPS_WINSYS_PAGE) = h" unfolding c by (rule cookie_handle)
  have len: "\<not> bo_size ?b < len" using assms(4) i by (simp add: oops_winsys_bo_size_def bo_of_def not_less)
  then have m: "bo_cpu_map P i s = (True, s')" and p: "p = bo_cpu_ptr (s_bo s' i)"
    using assms(5,6) i by (auto simp: oops_winsys_mmap_def h Let_def split: prod.splits if_splits)
  note I = bo_indexD(1,2) [OF i]
  obtain v where v: "s_bo s' = (s_bo s)(i := ?b\<lparr>bo_cpu_ptr := v\<rparr>)" using bo_cpu_map_ok [OF m] by blast
  have w: "winv s'" using bo_cpu_map_winv [OF assms(1,2) I] m by simp
  have i': "bo_index s' h = Some i" using i v by (auto simp: bo_index_def split: if_splits)
  have "bo_cpu_map P i s' = (True, s')" using assms(6) p by (simp add: bo_cpu_map_def)
  then have "oops_winsys_mmap P len cookie s' = (p, s')"
    using i' len v p by (simp add: oops_winsys_mmap_def h)
  moreover have "xlate (mem_calls s') (unat p + k) = Some (bo_phys ?b + int k)" if "k < unat (bo_size ?b)" for k
    using winv_cpu_xlate(1) [OF w I(1), of k] v I p assms(6) that by simp
  ultimately show ?thesis using i by (auto simp: bo_of_def)
qed

theorem mmap_cookie_roundtrip_witness:
  "oops_winsys_gem_mmap 1 sample_created = (Ok, Some 0x4000) \<and>
    oops_winsys_mmap bump_platform 0x5000 0x4000 sample_cpu = (0x4000, sample_cpu)"
proof -
  have g: "oops_winsys_gem_mmap 1 sample_created = (Ok, Some 0x4000)"
    using sample_created_fields(1,2) by (simp add: oops_winsys_gem_mmap_def bo_of_def OOPS_WINSYS_PAGE_def)
  have "0x5000 \<le> oops_winsys_bo_size sample_created 1"
    using sample_created_fields(1,2) by (simp add: oops_winsys_bo_size_def bo_of_def sample_bo_def)
  with mmap_cookie_roundtrip [OF bump_platform_ok sample_winv(1) g _ sample_mmap] g show ?thesis by simp
qed

text \<open>
  The creation record comes back: \<open>GET_GEM_CREATE_INFO\<close> on a freshly created buffer
  reports the size rounded to pages, the alignment raised to a page, the low half of the
  domains and the flags it was created with.
\<close>

theorem create_info_roundtrip:
  assumes "oops_winsys_gem_create P arg s = ((Ok, h), s')" and "v \<noteq> 0"
  shows "oops_winsys_gem_op h AMDGPU_GEM_OP_GET_GEM_CREATE_INFO v s' =
    (Ok, Some \<lparr>gc_bo_size = round_up_page (gc_bo_size arg),
       gc_alignment = max OOPS_WINSYS_PAGE (gc_alignment arg),
       gc_domains = take_bit 32 (gc_domains arg), gc_domain_flags = gc_domain_flags arg\<rparr>)"
proof (cases rule: gem_create_cases [of P arg s])
  case (created i p t)
  then have t: "t = s'" "h = handle_of i" using assms(1) by simp_all
  have u: "unat h = i + 1" "h \<noteq> 0" using created(1) t by (simp_all add: OOPS_WINSYS_MAX_BO_def)
  then have "bo_index s' h = Some i"
    using created(1,4) t by (simp add: bo_index_def)
  moreover have "ucast (ucast (gc_domains arg) :: u32) = take_bit 32 (gc_domains arg)"
    by (rule bit_word_eqI) (auto simp: bit_simps)
  ultimately show ?thesis
    using created t assms(2) by (simp add: oops_winsys_gem_op_def bo_of_def)
qed (use assms(1) in simp)

theorem create_info_roundtrip_witness:
  "oops_winsys_gem_op 1 AMDGPU_GEM_OP_GET_GEM_CREATE_INFO 0x1000 sample_created =
    (Ok, Some \<lparr>gc_bo_size = round_up_page 0x5000, gc_alignment = max OOPS_WINSYS_PAGE 0,
       gc_domains = take_bit 32 2, gc_domain_flags = 0\<rparr>)"
proof -
  have "oops_winsys_gem_create bump_platform sample_create buffers_init = ((Ok, 1), sample_created)"
    by (simp add: sample_defs oops_winsys_gem_create_def round_up_page_def OOPS_WINSYS_PAGE_def
        OOPS_WINSYS_MAX_BO_def first_index_def bump_platform_def Let_def)
  from create_info_roundtrip [OF this, of "0x1000"] show ?thesis by (simp add: sample_create_def)
qed

section \<open>Maps over retained ranges\<close>

lemma va_collisions_field:
  "va_keeps (s\<lparr>s_collisions := c\<rparr>) = va_keeps s"
  by (rule ext)+ (simp add: va_keeps_def)

lemma map_over_retained:
  assumes inv: "winv s" and i: "bo_index s (va_handle arg) = Some i"
    and arg: "va_operation arg = AMDGPU_VA_OP_MAP" "va_offset_in_bo arg = 0" "va_map_size arg = 0"
    and k: "k < OOPS_WINSYS_MAX_RETAINED" "rr_used (s_retained s k)" "rr_va (s_retained s k) = va_address arg"
      "rr_size (s_retained s k) = bo_size (s_bo s i)" "rr_prot (s_retained s k) = va_prot (va_flags arg)"
    and pages: "rr_phys (s_retained s k) = bo_phys (s_bo s i) \<or>
      rr_owns_phys (s_retained s k) \<and> bo_cpu_ptr (s_bo s i) = 0"
  shows "\<exists>s'. oops_winsys_gem_va P arg s = Some (Ok, s') \<and>
    bo_phys (s_bo s' i) = rr_phys (s_retained s k) \<and> bo_gpu_va (s_bo s' i) = va_address arg \<and>
    mem_calls s' = (if rr_phys (s_retained s k) = bo_phys (s_bo s i) then mem_calls s
      else FreeDirect (bo_phys (s_bo s i)) (bo_size (s_bo s i)) # mem_calls s)"
proof -
  let ?b = "s_bo s i" and ?pr = "va_prot (va_flags arg)"
  have keeps: "va_keeps s i (va_address arg) (bo_size ?b) ?pr k"
    using k pages by (auto simp: va_keeps_def Let_def)
  have "\<not> va_keeps s i (va_address arg) (bo_size ?b) ?pr j" if "j < k" for j
    using va_keeps_unique [OF inv k(1) keeps, of j] that k(1) by (auto simp: va_keeps_def Let_def)
  then have first: "first_index (va_keeps s i (va_address arg) (bo_size ?b) ?pr) OOPS_WINSYS_MAX_RETAINED = Some k"
    using k(1) keeps by (simp add: first_index_Some)
  have "oops_winsys_gem_va P arg s = Some (va_map P arg i ?pr s)"
    using i arg by (simp add: oops_winsys_gem_va_def)
  then show ?thesis
    using first arg(3) by (simp add: va_map_def Let_def va_collisions_field)
qed

text \<open>
  An address keeps the pages it maps: when a buffer is mapped whole at an address whose
  retained range has its size and protection, and the range holds the buffer's own pages or
  the pages of a closed buffer (and the CPU has not mapped the new one), the call succeeds
  without mapping or unmapping anything, the buffer holds the pages already mapped there, its
  own fresh pages are given back, and no translation changes.
\<close>

theorem map_keeps_pages:
  assumes inv: "winv s" and i: "bo_index s (va_handle arg) = Some i"
    and arg: "va_operation arg = AMDGPU_VA_OP_MAP" "va_offset_in_bo arg = 0" "va_map_size arg = 0"
    and k: "k < OOPS_WINSYS_MAX_RETAINED" "rr_used (s_retained s k)" "rr_va (s_retained s k) = va_address arg"
      "rr_size (s_retained s k) = bo_size (s_bo s i)" "rr_prot (s_retained s k) = va_prot (va_flags arg)"
    and pages: "rr_phys (s_retained s k) = bo_phys (s_bo s i) \<or>
      rr_owns_phys (s_retained s k) \<and> bo_cpu_ptr (s_bo s i) = 0"
  shows "\<exists>s'. oops_winsys_gem_va P arg s = Some (Ok, s') \<and>
    bo_phys (s_bo s' i) = rr_phys (s_retained s k) \<and> bo_gpu_va (s_bo s' i) = va_address arg \<and>
    mem_calls s' = (if rr_phys (s_retained s k) = bo_phys (s_bo s i) then mem_calls s
      else FreeDirect (bo_phys (s_bo s i)) (bo_size (s_bo s i)) # mem_calls s) \<and>
    (\<forall>a. xlate (mem_calls s') a = xlate (mem_calls s) a)"
proof -
  obtain s' where "oops_winsys_gem_va P arg s = Some (Ok, s')"
    "bo_phys (s_bo s' i) = rr_phys (s_retained s k)" "bo_gpu_va (s_bo s' i) = va_address arg"
    "mem_calls s' = (if rr_phys (s_retained s k) = bo_phys (s_bo s i) then mem_calls s
      else FreeDirect (bo_phys (s_bo s i)) (bo_size (s_bo s i)) # mem_calls s)"
    using map_over_retained [OF inv i arg k pages, of P] by blast
  then show ?thesis by (intro exI [of _ s']) auto
qed

theorem map_keeps_pages_witness:
  "\<exists>s'. oops_winsys_gem_va bump_platform sample_map sample_again = Some (Ok, s') \<and>
    bo_phys (s_bo s' 0) = 0x4000 \<and> (\<forall>a. xlate (mem_calls s') a = xlate (mem_calls sample_again) a)"
proof -
  have w: "winv sample_again" using sample_again_inv by (simp add: buf_inv_def)
  have i: "bo_index sample_again (va_handle sample_map) = Some 0"
    by (simp add: bo_index_def sample_again_def sample_defs OOPS_WINSYS_MAX_BO_def)
  have r: "s_retained sample_again 0 = \<lparr>rr_used = True, rr_owns_phys = True,
      rr_prot = {GPU_READ, CPU_READ}, rr_va = 0x400000, rr_size = 0x8000, rr_phys = 0x4000, rr_seq = 1\<rparr>"
    and b: "s_bo sample_again 0 = sample_bo\<lparr>bo_phys := 0x10000\<rparr>"
    by (simp_all add: sample_again_def sample_closed_def)
  show ?thesis
    using map_keeps_pages [OF w i, of 0 bump_platform] r b
    by (auto simp: sample_map_def sample_bo_def va_prot_def OOPS_WINSYS_MAX_RETAINED_def)
qed

text \<open>
  C15. The take-over has a precondition the code does not check. A buffer that was unmapped
  keeps its pages mapped at its old address, in the retained table; if it is then mapped at
  an address retained from a closed buffer, its pages are freed while the old address still
  translates to them.
\<close>

theorem take_over_frees_mapped_pages:
  assumes inv: "winv s" and i: "bo_index s (va_handle arg) = Some i"
    and arg: "va_operation arg = AMDGPU_VA_OP_MAP" "va_offset_in_bo arg = 0" "va_map_size arg = 0"
    and k: "k < OOPS_WINSYS_MAX_RETAINED" "rr_used (s_retained s k)" "rr_va (s_retained s k) = va_address arg"
      "rr_size (s_retained s k) = bo_size (s_bo s i)" "rr_prot (s_retained s k) = va_prot (va_flags arg)"
      "rr_owns_phys (s_retained s k)" "bo_cpu_ptr (s_bo s i) = 0"
      "rr_phys (s_retained s k) \<noteq> bo_phys (s_bo s i)"
    and j: "j < OOPS_WINSYS_MAX_RETAINED" "rr_used (s_retained s j)"
      "rr_phys (s_retained s j) = bo_phys (s_bo s i)"
  shows "\<exists>s'. oops_winsys_gem_va P arg s = Some (Ok, s') \<and>
    ledger (mem_calls s') (bo_phys (s_bo s i)) = None \<and>
    xlate (mem_calls s') (unat (rr_va (s_retained s j))) = Some (bo_phys (s_bo s i))"
proof -
  let ?r = "s_retained s j"
  have F: "seg_of s (Ret j) = Some (unat (rr_va ?r), unat (rr_size ?r), bo_phys (s_bo s i))" using j by simp
  then have "0 < unat (rr_size ?r)"
    using owned_okD(3,4) [OF winvD(2) [OF inv]] by (metis unat_gt_0)
  then have "covers (unat (rr_va ?r), unat (rr_size ?r), bo_phys (s_bo s i)) (unat (rr_va ?r)) (bo_phys (s_bo s i))"
    by simp
  then have "xlate (mem_calls s) (unat (rr_va ?r)) = Some (bo_phys (s_bo s i))"
    using space_okD(2) [OF winvD(1) [OF inv]] F by blast
  moreover obtain s' where "oops_winsys_gem_va P arg s = Some (Ok, s')"
    "mem_calls s' = FreeDirect (bo_phys (s_bo s i)) (bo_size (s_bo s i)) # mem_calls s"
    using map_over_retained [OF inv i arg k(1-5), of P] k(6-8) by auto
  ultimately show ?thesis by simp
qed

theorem take_over_frees_mapped_pages_witness:
  "\<exists>s'. oops_winsys_gem_va bump_platform (sample_map2\<lparr>va_handle := 1\<rparr>) sample_two_closed = Some (Ok, s') \<and>
    ledger (mem_calls s') 0x4000 = None \<and> xlate (mem_calls s') 0x400000 = Some 0x4000"
proof -
  have w: "winv sample_two_closed" using sample_two_closed_inv by (simp add: buf_inv_def)
  have i: "bo_index sample_two_closed (va_handle (sample_map2\<lparr>va_handle := 1\<rparr>)) = Some 0"
    by (simp add: bo_index_def sample_two_defs sample_defs OOPS_WINSYS_MAX_BO_def)
  have f: "s_retained sample_two_closed 0 = sample_held" "s_retained sample_two_closed 1 = sample_owned"
    "s_bo sample_two_closed 0 = sample_bo\<lparr>bo_gpu_prot := {GPU_READ, CPU_READ}\<rparr>"
    by (simp_all add: sample_two_closed_def sample_unmapped_def)
  show ?thesis
    using take_over_frees_mapped_pages [OF w i, of 1 0 bump_platform] f
    by (simp add: sample_map2_def sample_map_def va_prot_def sample_held_def sample_owned_def sample_bo_def
        OOPS_WINSYS_MAX_RETAINED_def)
qed

section \<open>Evictions\<close>

text \<open>
  What makes room is the oldest range: it is the one with the least sequence number of
  all that are retained, exactly its address range is unmapped, and no other range is
  dropped.
\<close>

theorem oldest_range_evicted:
  assumes "winv s" and "used_ranges s \<noteq> {}"
  shows "\<exists>j\<in>used_ranges s. (\<forall>i\<in>used_ranges s. rr_seq (s_retained s j) \<le> rr_seq (s_retained s i)) \<and>
    used_ranges (retained_release_oldest s) = used_ranges s - {j} \<and>
    (mem_calls (retained_release_oldest s) = Unmap (rr_va (s_retained s j)) (rr_size (s_retained s j)) # mem_calls s \<or>
     mem_calls (retained_release_oldest s) = FreeDirect (rr_phys (s_retained s j)) (rr_size (s_retained s j)) #
       Unmap (rr_va (s_retained s j)) (rr_size (s_retained s j)) # mem_calls s)"
proof -
  obtain j where j: "j \<in> used_ranges s" "retained_release_oldest s = retained_release j s"
    "\<And>i. i \<in> used_ranges s \<Longrightarrow> rr_seq (s_retained s j) \<le> rr_seq (s_retained s i)"
    "used_ranges (retained_release_oldest s) = used_ranges s - {j}"
    using release_oldest [OF assms] by metis
  have "mem_calls (retained_release j s) = Unmap (rr_va (s_retained s j)) (rr_size (s_retained s j)) # mem_calls s \<or>
     mem_calls (retained_release j s) = FreeDirect (rr_phys (s_retained s j)) (rr_size (s_retained s j)) #
       Unmap (rr_va (s_retained s j)) (rr_size (s_retained s j)) # mem_calls s"
    by (cases rule: retained_release_cases [where s = s and j = j]) auto
  with j show ?thesis by auto
qed

theorem oldest_range_evicted_witness:
  "used_ranges sample_closed = {0} \<and> used_ranges (retained_release_oldest sample_closed) = {}"
proof -
  have "used_ranges sample_closed = {0}"
    by (auto simp: used_ranges_def sample_defs OOPS_WINSYS_MAX_RETAINED_def split: if_splits)
  moreover from this oldest_range_evicted [OF sample_winv(3)]
  have "used_ranges (retained_release_oldest sample_closed) = {}" by auto
  ultimately show ?thesis by blast
qed

section \<open>Flushing and reading back\<close>

text \<open>
  The pre-submission flush reaches every byte the CPU can have written: for each byte of
  each live buffer with a CPU mapping there is a flushed address at most 63 bytes below it.
\<close>

theorem flush_covers_every_byte:
  assumes inv: "winv s" and i: "i < OOPS_WINSYS_MAX_BO" "bo_live (s_bo s i)" "bo_cpu_ptr (s_bo s i) \<noteq> 0"
    and k: "k < unat (bo_size (s_bo s i))"
  shows "\<exists>l\<in>set (oops_winsys_flush_cpu_writes s).
    unat l \<le> unat (bo_cpu_ptr (s_bo s i)) + k \<and> unat (bo_cpu_ptr (s_bo s i)) + k < unat l + 64"
proof -
  let ?b = "s_bo s i"
  let ?l = "bo_cpu_ptr ?b + 64 * of_nat (k div 64)"
  have "k div 64 < (unat (bo_size ?b) + 63) div 64" using k by linarith
  then have "?l \<in> set (flush_lines ?b)" by (auto simp: flush_lines_def)
  then have mem: "?l \<in> set (oops_winsys_flush_cpu_writes s)"
    using i by (auto simp: oops_winsys_flush_cpu_writes_def Let_def intro!: bexI [of _ i])
  have fits: "unat (bo_cpu_ptr ?b) + unat (bo_size ?b) < 2 ^ 64" using winv_cpu_xlate(2) [OF inv i k] .
  have small: "64 * (k div 64) \<le> k" by simp
  have "(64 * of_nat (k div 64) :: u64) = of_nat (64 * (k div 64))" by simp
  moreover have "unat (of_nat (64 * (k div 64)) :: u64) = 64 * (k div 64)"
    using small k fits by (intro unat_of_nat_small) simp
  ultimately have "unat ?l = unat (bo_cpu_ptr ?b) + 64 * (k div 64)"
    using small k fits by (simp add: unat_word_ariths)
  then have "unat ?l \<le> unat (bo_cpu_ptr ?b) + k \<and> unat (bo_cpu_ptr ?b) + k < unat ?l + 64"
    using small by linarith
  with mem show ?thesis by blast
qed

theorem flush_covers_every_byte_witness:
  "\<exists>l\<in>set (oops_winsys_flush_cpu_writes sample_cpu). unat l \<le> 0x4000 + 100 \<and> 0x4000 + 100 < unat l + 64"
proof -
  have b: "s_bo sample_cpu 0 = sample_bo\<lparr>bo_cpu_ptr := 0x4000\<rparr>" by (simp add: sample_cpu_def)
  show ?thesis
    using flush_covers_every_byte [OF sample_cpu_winv, of 0 100] b
    by (simp add: sample_bo_def OOPS_WINSYS_MAX_BO_def)
qed

end
