(* ===== verification/Environ.thy ===== *)
theory Environ
  imports Prelude
begin

text \<open>
  The process environment of \<open>src/src/runtime/libc_absent.c\<close>: a table of \<open>ENV_MAX\<close>
  entries, each one allocation that holds \<open>NAME=VALUE\<close>. A C string is its characters
  without the terminator, which reading past the end gives back (\<open>char_at\<close>); a null pointer
  is \<open>None\<close>. \<open>env_allocs\<close> counts what \<open>malloc\<close> gave out and \<open>free\<close> has not taken back, so
  that leaks are visible; \<open>alloc\<close> is whether \<open>malloc\<close> can give that many bytes.

  The contract of the component is an abstract map from names to values
  (\<open>env_store\<close>), and the table refines it.
\<close>

section \<open>The interface of a store of named values\<close>

text \<open>
  What a client of an environment relies on: setting makes a name read back, unsetting
  removes it, and neither touches another name. A store refuses what is not \<open>good\<close> and a
  new name beyond \<open>cap\<close> of them.
\<close>

locale env_store =
  fixes invar :: "'t \<Rightarrow> bool"
    and lookup :: "'t \<Rightarrow> 'k \<Rightarrow> 'v option"
    and assign :: "'k \<Rightarrow> 'v \<Rightarrow> 't \<Rightarrow> 't"
    and remove :: "'k \<Rightarrow> 't \<Rightarrow> 't"
    and good :: "'k \<Rightarrow> 'v \<Rightarrow> bool"
    and cap :: nat
  assumes assign_ok: "invar t \<Longrightarrow> good k v \<Longrightarrow> lookup t k \<noteq> None \<or> card (dom (lookup t)) < cap \<Longrightarrow>
      invar (assign k v t) \<and> lookup (assign k v t) = (lookup t)(k \<mapsto> v)"
    and assign_full: "invar t \<Longrightarrow> \<not> (good k v \<and> (lookup t k \<noteq> None \<or> card (dom (lookup t)) < cap)) \<Longrightarrow>
      assign k v t = t"
    and remove_ok: "invar t \<Longrightarrow> invar (remove k t) \<and> lookup (remove k t) = (lookup t)(k := None)"
    and lookup_finite: "invar t \<Longrightarrow> finite (dom (lookup t)) \<and> card (dom (lookup t)) \<le> cap"
begin

text \<open>One operation on the store, and the same operation on the abstract map.\<close>

definition store_step :: "'k \<times> 'v option \<Rightarrow> 't \<Rightarrow> 't" where
  "store_step x t = (case snd x of Some v \<Rightarrow> assign (fst x) v t | None \<Rightarrow> remove (fst x) t)"

definition map_step :: "'k \<times> 'v option \<Rightarrow> ('k \<rightharpoonup> 'v) \<Rightarrow> ('k \<rightharpoonup> 'v)" where
  "map_step x m =
     (case snd x of
        None \<Rightarrow> m(fst x := None)
      | Some v \<Rightarrow> if good (fst x) v \<and> (m (fst x) \<noteq> None \<or> card (dom m) < cap) then m(fst x \<mapsto> v) else m)"

lemma step_refines:
  assumes "invar t"
  shows "invar (store_step x t) \<and> lookup (store_step x t) = map_step x (lookup t)"
  using assms assign_ok [of t "fst x"] assign_full [of t "fst x"] remove_ok [of t "fst x"]
  by (cases "snd x") (auto simp: store_step_def map_step_def)

lemma run_refines:
  "invar t \<Longrightarrow> invar (fold store_step xs t) \<and> lookup (fold store_step xs t) = fold map_step xs (lookup t)"
  by (induction xs arbitrary: t) (use step_refines in auto)

text \<open>The last value a name was given, as long as it stayed set, is the one that reads back.\<close>

lemma set_survives:
  assumes "invar t" and "good k v" and "lookup t k \<noteq> None \<or> card (dom (lookup t)) < cap"
    and "\<And>x. x \<in> set xs \<Longrightarrow> fst x \<noteq> k"
  shows "lookup (fold store_step xs (assign k v t)) k = Some v"
proof -
  have "fold map_step xs m k = m k" if "\<And>x. x \<in> set xs \<Longrightarrow> fst x \<noteq> k" for xs m
    using that by (induction xs arbitrary: m) (auto simp: map_step_def split: option.splits)
  with assign_ok [OF assms(1-3)] run_refines [of "assign k v t" xs] assms(4) show ?thesis by simp
qed

end

section \<open>The table\<close>

definition ENV_MAX :: nat where
  "ENV_MAX = 128"

record environ =
  s_env :: "nat \<Rightarrow> string option"
  env_allocs :: int

definition environ_init :: environ where
  "environ_init = \<lparr>s_env = (\<lambda>_. None), env_allocs = 0\<rparr>"

definition char_at :: "string \<Rightarrow> nat \<Rightarrow> char" where
  "char_at s i = (if i < length s then s ! i else CHR 0x00)"

text \<open>\<open>strncmp(a, b, n) == 0\<close>.\<close>

fun strn_eq :: "string \<Rightarrow> string \<Rightarrow> nat \<Rightarrow> bool" where
  "strn_eq a b 0 = True"
| "strn_eq [] b (Suc n) = (b = [])"
| "strn_eq a [] (Suc n) = (a = [])"
| "strn_eq (x # xs) (y # ys) (Suc n) = (x = y \<and> strn_eq xs ys n)"

definition env_find :: "environ \<Rightarrow> string \<Rightarrow> nat \<Rightarrow> nat option" where
  "env_find s name len =
     first_index (\<lambda>i. case s_env s i of
         None \<Rightarrow> False
       | Some e \<Rightarrow> strn_eq e name len \<and> char_at e len = CHR ''='') ENV_MAX"

definition env_name_ok :: "string option \<Rightarrow> nat option" where
  "env_name_ok name =
     (case name of
        None \<Rightarrow> None
      | Some n \<Rightarrow> if n = [] \<or> CHR ''='' \<in> set n then None else Some (length n))"

definition getenv :: "string option \<Rightarrow> environ \<Rightarrow> string option" where
  "getenv name s =
     (case env_name_ok name of
        None \<Rightarrow> None
      | Some len \<Rightarrow>
          (case env_find s (the name) len of
             None \<Rightarrow> None
           | Some i \<Rightarrow> Some (drop (len + 1) (the (s_env s i)))))"

text \<open>The return value, the \<open>errno\<close> set (if any), and the table.\<close>

definition setenv ::
    "(nat \<Rightarrow> bool) \<Rightarrow> string option \<Rightarrow> string option \<Rightarrow> bool \<Rightarrow> environ \<Rightarrow> (int \<times> errno option) \<times> environ" where
  "setenv alloc name val overwrite s =
     (case env_name_ok name of
        None \<Rightarrow> ((- 1, Some EINVAL), s)
      | Some len \<Rightarrow>
          let found = env_find s (the name) len in
          if found \<noteq> None \<and> \<not> overwrite then ((0, None), s)
          else
            let v = (case val of None \<Rightarrow> [] | Some v \<Rightarrow> v);
                vlen = length v
            in if \<not> alloc (len + 1 + vlen + 1) then ((- 1, Some ENOMEM), s)
               else
                 let entry = take len (the name) @ [CHR ''=''] @ take vlen v;
                     s1 = s\<lparr>env_allocs := env_allocs s + 1\<rparr>
                 in case found of
                      None \<Rightarrow>
                        (case first_index (\<lambda>i. s_env s i = None) ENV_MAX of
                           None \<Rightarrow> ((- 1, Some ENOMEM), s1\<lparr>env_allocs := env_allocs s1 - 1\<rparr>)
                         | Some i \<Rightarrow> ((0, None), s1\<lparr>s_env := (s_env s1)(i := Some entry)\<rparr>))
                    | Some i \<Rightarrow>
                        ((0, None), s1\<lparr>env_allocs := env_allocs s1 - 1, s_env := (s_env s1)(i := Some entry)\<rparr>))"

definition unsetenv :: "string option \<Rightarrow> environ \<Rightarrow> (int \<times> errno option) \<times> environ" where
  "unsetenv name s =
     (case env_name_ok name of
        None \<Rightarrow> ((- 1, Some EINVAL), s)
      | Some len \<Rightarrow>
          (case env_find s (the name) len of
             None \<Rightarrow> ((0, None), s)
           | Some i \<Rightarrow>
               ((0, None), s\<lparr>env_allocs := env_allocs s - 1, s_env := (s_env s)(i := None)\<rparr>)))"

section \<open>Invariant\<close>

text \<open>A name POSIX accepts. Every entry is a good name, \<open>=\<close> and a value, and no name occurs twice.\<close>

definition good_name :: "string \<Rightarrow> bool" where
  "good_name n \<longleftrightarrow> n \<noteq> [] \<and> CHR ''='' \<notin> set n"

definition entry_name :: "string \<Rightarrow> string" where
  "entry_name e = takeWhile (\<lambda>c. c \<noteq> CHR ''='') e"

definition entry_ok :: "string \<Rightarrow> bool" where
  "entry_ok e \<longleftrightarrow> entry_name e \<noteq> [] \<and> CHR ''='' \<in> set e"

definition env_used :: "environ \<Rightarrow> nat set" where
  "env_used s = {i. i < ENV_MAX \<and> s_env s i \<noteq> None}"

definition env_inv :: "environ \<Rightarrow> bool" where
  "env_inv s \<longleftrightarrow>
     (\<forall>i e. s_env s i = Some e \<longrightarrow> i < ENV_MAX \<and> entry_ok e) \<and>
     (\<forall>i j e e'. s_env s i = Some e \<longrightarrow> s_env s j = Some e' \<longrightarrow> entry_name e = entry_name e' \<longrightarrow> i = j) \<and>
     env_allocs s = int (card (env_used s))"

lemma env_invD:
  assumes "env_inv s"
  shows "s_env s i = Some e \<Longrightarrow> i < ENV_MAX" and "s_env s i = Some e \<Longrightarrow> entry_ok e"
    and "s_env s i = Some e \<Longrightarrow> s_env s j = Some e' \<Longrightarrow> entry_name e = entry_name e' \<Longrightarrow> i = j"
    and "env_allocs s = int (card (env_used s))"
  using assms by (auto simp: env_inv_def)

lemma env_invI:
  assumes "\<And>i e. s_env s i = Some e \<Longrightarrow> i < ENV_MAX \<and> entry_ok e"
    and "\<And>i j e e'. s_env s i = Some e \<Longrightarrow> s_env s j = Some e' \<Longrightarrow> entry_name e = entry_name e' \<Longrightarrow> i = j"
    and "env_allocs s = int (card (env_used s))"
  shows "env_inv s"
  using assms unfolding env_inv_def by blast

lemma finite_env_used [simp]: "finite (env_used s)"
  by (simp add: env_used_def)

lemma env_inv_init: "env_inv environ_init"
  by (simp add: env_inv_def environ_init_def env_used_def)

lemma env_name_ok_iff: "env_name_ok (Some n) = (if good_name n then Some (length n) else None)"
  by (auto simp: env_name_ok_def good_name_def)

lemma strn_eq_iff: "strn_eq a b (length b) \<longleftrightarrow> take (length b) a = b"
proof (induction b arbitrary: a)
  case (Cons y b)
  then show ?case by (cases a) auto
qed simp

text \<open>What the scan tests is that the entry's name is the one asked for.\<close>

lemma entry_match:
  assumes "good_name n"
  shows "strn_eq e n (length n) \<and> char_at e (length n) = CHR ''='' \<longleftrightarrow> CHR ''='' \<in> set e \<and> entry_name e = n"
proof
  assume l: "strn_eq e n (length n) \<and> char_at e (length n) = CHR ''=''"
  then have t: "take (length n) e = n" by (simp add: strn_eq_iff)
  have len: "length n < length e" using l by (auto simp: char_at_def split: if_splits)
  then have "e = n @ CHR ''='' # drop (Suc (length n)) e"
    using l t by (metis append_take_drop_id char_at_def Cons_nth_drop_Suc)
  moreover have "takeWhile (\<lambda>c. c \<noteq> CHR ''='') (n @ CHR ''='' # ys) = n" for ys
    using assms by (subst takeWhile_append2) (auto simp: good_name_def)
  ultimately show "CHR ''='' \<in> set e \<and> entry_name e = n"
    unfolding entry_name_def by (metis in_set_conv_decomp)
next
  assume r: "CHR ''='' \<in> set e \<and> entry_name e = n"
  let ?d = "dropWhile (\<lambda>c. c \<noteq> CHR ''='') e"
  have e: "e = n @ ?d" using r takeWhile_dropWhile_id [of "\<lambda>c. c \<noteq> CHR ''=''" e] by (simp add: entry_name_def)
  have "?d \<noteq> []" "hd ?d = CHR ''=''" using r hd_dropWhile [of "\<lambda>c. c \<noteq> CHR ''=''" e] by auto
  then obtain ys where "?d = CHR ''='' # ys" by (cases ?d) auto
  with e have "e = n @ CHR ''='' # ys" by simp
  then show "strn_eq e n (length n) \<and> char_at e (length n) = CHR ''=''"
    by (simp add: strn_eq_iff char_at_def nth_append)
qed

lemma entry_name_new [simp]: "good_name n \<Longrightarrow> entry_name (n @ CHR ''='' # v) = n"
  by (subst entry_name_def, subst takeWhile_append2) (auto simp: good_name_def)

lemma entry_ok_new: "good_name n \<Longrightarrow> entry_ok (n @ CHR ''='' # v)"
  by (simp add: entry_ok_def) (simp add: good_name_def)

lemma env_find_Some:
  assumes inv: "env_inv s" and n: "good_name n"
  shows "env_find s n (length n) = Some i \<longleftrightarrow> (\<exists>e. s_env s i = Some e \<and> entry_name e = n)"
proof -
  let ?P = "\<lambda>i. case s_env s i of None \<Rightarrow> False
      | Some e \<Rightarrow> strn_eq e n (length n) \<and> char_at e (length n) = CHR ''=''"
  have P: "?P j \<longleftrightarrow> (\<exists>e. s_env s j = Some e \<and> entry_name e = n)" for j
    using entry_match [OF n] env_invD(2) [OF inv, of j] by (auto simp: entry_ok_def split: option.splits)
  show ?thesis
    unfolding env_find_def first_index_Some P using env_invD(1,3) [OF inv] by (metis less_irrefl)
qed

lemma env_find_None:
  assumes "env_inv s" and "good_name n"
  shows "env_find s n (length n) = None \<longleftrightarrow> (\<forall>i e. s_env s i = Some e \<longrightarrow> entry_name e \<noteq> n)"
  using env_find_Some [OF assms] by (metis not_None_eq)

section \<open>The abstract environment\<close>

definition env_map :: "environ \<Rightarrow> string \<Rightarrow> string option" where
  "env_map s n = getenv (Some n) s"

lemma env_map_eq:
  assumes inv: "env_inv s"
  shows "env_map s n = Some v \<longleftrightarrow> good_name n \<and> (\<exists>i. s_env s i = Some (n @ CHR ''='' # v))"
proof (cases "good_name n")
  case False
  then show ?thesis by (simp add: env_map_def getenv_def env_name_ok_iff)
next
  case True
  have split: "e = n @ CHR ''='' # drop (Suc (length n)) e" if "s_env s i = Some e" "entry_name e = n" for i e
  proof -
    have "CHR ''='' \<in> set e" using env_invD(2) [OF inv that(1)] by (simp add: entry_ok_def)
    then have m: "take (length n) e = n" "char_at e (length n) = CHR ''=''"
      using entry_match [OF True, of e] that(2) by (auto simp: strn_eq_iff)
    then have "length n < length e" by (auto simp: char_at_def split: if_splits)
    with m show ?thesis by (metis append_take_drop_id char_at_def Cons_nth_drop_Suc)
  qed
  have "env_map s n = (case env_find s n (length n) of None \<Rightarrow> None
      | Some i \<Rightarrow> Some (drop (Suc (length n)) (the (s_env s i))))"
    using True by (simp add: env_map_def getenv_def env_name_ok_iff split: option.split)
  then have look: "env_map s n = Some v \<longleftrightarrow>
      (\<exists>i. env_find s n (length n) = Some i \<and> v = drop (Suc (length n)) (the (s_env s i)))"
    by (auto split: option.splits)
  show ?thesis
  proof
    assume "env_map s n = Some v"
    then obtain i e where "s_env s i = Some e" "entry_name e = n" "v = drop (Suc (length n)) e"
      using look env_find_Some [OF inv True] by (metis option.sel)
    then show "good_name n \<and> (\<exists>i. s_env s i = Some (n @ CHR ''='' # v))" using split True by metis
  next
    assume "good_name n \<and> (\<exists>i. s_env s i = Some (n @ CHR ''='' # v))"
    then obtain i where i: "s_env s i = Some (n @ CHR ''='' # v)" by blast
    then have "env_find s n (length n) = Some i" using env_find_Some [OF inv True] entry_name_new [OF True] by blast
    then show "env_map s n = Some v" using look i by simp
  qed
qed


text \<open>The names that are set are the names of the entries, one for one.\<close>

lemma env_map_dom:
  assumes inv: "env_inv s"
  shows "dom (env_map s) = (\<lambda>i. entry_name (the (s_env s i))) ` env_used s"
    and "card (dom (env_map s)) = card (env_used s)"
proof -
  show dom: "dom (env_map s) = (\<lambda>i. entry_name (the (s_env s i))) ` env_used s"
  proof (intro set_eqI iffI)
    fix n assume "n \<in> dom (env_map s)"
    then obtain i v where "good_name n" "s_env s i = Some (n @ CHR ''='' # v)"
      using env_map_eq [OF inv] by blast
    then show "n \<in> (\<lambda>i. entry_name (the (s_env s i))) ` env_used s"
      using env_invD(1) [OF inv] by (force simp: env_used_def)
  next
    fix n assume "n \<in> (\<lambda>i. entry_name (the (s_env s i))) ` env_used s"
    then obtain i e where e: "s_env s i = Some e" "entry_name e = n" by (auto simp: env_used_def)
    have ok: "entry_ok e" using env_invD(2) [OF inv e(1)] .
    then have g: "good_name n" using e(2) by (auto simp: entry_ok_def entry_name_def good_name_def dest: set_takeWhileD)
    then have "env_find s n (length n) = Some i" using env_find_Some [OF inv] e by blast
    with g show "n \<in> dom (env_map s)" by (simp add: dom_def env_map_def getenv_def env_name_ok_iff)
  qed
  have "inj_on (\<lambda>i. entry_name (the (s_env s i))) (env_used s)"
    by (rule inj_onI) (use env_invD(3) [OF inv] in \<open>auto simp: env_used_def\<close>)
  then show "card (dom (env_map s)) = card (env_used s)" unfolding dom by (rule card_image)
qed

lemma env_used_sub: "env_used s \<subseteq> {..<ENV_MAX}"
  by (auto simp: env_used_def)

lemma env_used_card: "card (env_used s) \<le> ENV_MAX"
  using card_mono [OF finite_lessThan env_used_sub, of s] by simp

lemma env_room:
  assumes "env_inv s"
  shows "first_index (\<lambda>i. s_env s i = None) ENV_MAX = None \<longleftrightarrow> \<not> card (dom (env_map s)) < ENV_MAX"
proof -
  have "(\<forall>j<ENV_MAX. s_env s j \<noteq> None) \<longleftrightarrow> env_used s = {..<ENV_MAX}" by (auto simp: env_used_def)
  also have "\<dots> \<longleftrightarrow> card (env_used s) = ENV_MAX"
    using card_subset_eq [OF finite_lessThan env_used_sub] by (metis card_lessThan)
  finally show ?thesis using env_used_card [of s] env_map_dom(2) [OF assms] by (simp add: first_index_None)
qed

text \<open>Storing one entry for a name, in a free slot or in the slot the name already has.\<close>

lemma env_write:
  assumes inv: "env_inv s" and n: "good_name n" and i: "i < ENV_MAX"
    and slot: "s_env s i = None \<and> env_map s n = None \<or> (\<exists>e. s_env s i = Some e \<and> entry_name e = n)"
    and s': "s_env s' = (s_env s)(i := Some (n @ CHR ''='' # v))"
    and a: "env_allocs s' = env_allocs s + (if s_env s i = None then 1 else 0)"
  shows "env_inv s' \<and> env_map s' = (env_map s)(n \<mapsto> v)"
proof -
  have other: "entry_name e \<noteq> n" if "s_env s j = Some e" "j \<noteq> i" for j e
  proof
    assume "entry_name e = n"
    have "j \<in> env_used s" using that(1) env_invD(1) [OF inv that(1)] by (simp add: env_used_def)
    then have "n \<in> dom (env_map s)"
      unfolding env_map_dom(1) [OF inv] using that(1) \<open>entry_name e = n\<close> by (intro image_eqI [of _ _ j]) simp_all
    with slot obtain e' where "s_env s i = Some e'" "entry_name e' = n" by auto
    then show False using env_invD(3) [OF inv that(1), of i e'] that(2) \<open>entry_name e = n\<close> by simp
  qed
  have "env_used s' = insert i (env_used s)" using i by (auto simp: env_used_def s')
  then have "env_allocs s' = int (card (env_used s'))"
    using a env_invD(4) [OF inv] i by (auto simp: env_used_def card_insert_if)
  then have inv': "env_inv s'"
  proof (rule env_invI [rotated 2])
    fix j e assume "s_env s' j = Some e"
    then show "j < ENV_MAX \<and> entry_ok e"
      using env_invD(1,2) [OF inv, of j e] entry_ok_new [OF n] i by (cases "j = i") (auto simp: s')
  next
    fix j k e e' assume "s_env s' j = Some e" "s_env s' k = Some e'" "entry_name e = entry_name e'"
    then show "j = k"
      using env_invD(3) [OF inv, of j e k e'] other [of j e] other [of k e'] entry_name_new [OF n, of v]
      unfolding s' fun_upd_apply by (metis option.inject)
  qed
  have "env_map s' m = Some w \<longleftrightarrow> ((env_map s)(n \<mapsto> v)) m = Some w" for m w
  proof (cases "m = n")
    case True
    have "(\<exists>j. s_env s' j = Some (n @ CHR ''='' # w)) \<longleftrightarrow> w = v"
      using other [of _ "n @ CHR ''='' # w"] entry_name_new [OF n] by (auto simp: s')
    with True n show ?thesis by (auto simp: env_map_eq [OF inv'])
  next
    case False
    have "(\<exists>j. s_env s' j = Some (m @ CHR ''='' # w)) \<longleftrightarrow> (\<exists>j. s_env s j = Some (m @ CHR ''='' # w))"
      if "good_name m"
    proof -
      have ne: "m @ CHR ''='' # w \<noteq> n @ CHR ''='' # v" using that n False entry_name_new by metis
      have "s_env s i \<noteq> Some (m @ CHR ''='' # w)"
        using slot that False by auto
      with ne show ?thesis by (auto simp: s')
    qed
    with False show ?thesis by (auto simp: env_map_eq [OF inv'] env_map_eq [OF inv])
  qed
  then have "env_map s' = (env_map s)(n \<mapsto> v)" by (metis ext not_None_eq)
  with inv' show ?thesis by blast
qed

lemma env_erase:
  assumes inv: "env_inv s" and e: "s_env s i = Some e" "entry_name e = n"
    and s': "s_env s' = (s_env s)(i := None)" "env_allocs s' = env_allocs s - 1"
  shows "env_inv s' \<and> env_map s' = (env_map s)(n := None)"
proof -
  have used: "env_used s' = env_used s - {i}" "i \<in> env_used s"
    using e env_invD(1) [OF inv] by (auto simp: env_used_def s')
  then have "int (card (env_used s')) = int (card (env_used s)) - 1"
    using card_Suc_Diff1 [of "env_used s" i] by simp
  then have a: "env_allocs s' = int (card (env_used s'))" using s'(2) env_invD(4) [OF inv] by simp
  have old: "s_env s' j = Some d \<Longrightarrow> s_env s j = Some d" for j d by (simp add: s' split: if_splits)
  have inv': "env_inv s'"
    by (rule env_invI) (use old env_invD(1-3) [OF inv] a in blast)+
  have "env_map s' m = Some w \<longleftrightarrow> ((env_map s)(n := None)) m = Some w" for m w
  proof (cases "good_name m")
    case True
    have "(\<exists>j. s_env s' j = Some (m @ CHR ''='' # w)) \<longleftrightarrow> m \<noteq> n \<and> (\<exists>j. s_env s j = Some (m @ CHR ''='' # w))"
    proof -
      have "(s_env s' j = Some (m @ CHR ''='' # w)) \<longleftrightarrow> m \<noteq> n \<and> s_env s j = Some (m @ CHR ''='' # w)" for j
        using e env_invD(3) [OF inv e(1), of j "m @ CHR ''='' # w"] entry_name_new [OF True, of w]
        by (cases "j = i") (auto simp: s')
      then show ?thesis by blast
    qed
    then show ?thesis by (auto simp: env_map_eq [OF inv'] env_map_eq [OF inv])
  qed (auto simp: env_map_eq [OF inv'] env_map_eq [OF inv])
  then have "env_map s' = (env_map s)(n := None)" by (metis ext not_None_eq)
  with inv' show ?thesis by blast
qed


section \<open>The operations refine the map\<close>

definition env_assign :: "(nat \<Rightarrow> bool) \<Rightarrow> string \<Rightarrow> string \<Rightarrow> environ \<Rightarrow> environ" where
  "env_assign alloc n v s = snd (setenv alloc (Some n) (Some v) True s)"

definition env_remove :: "string \<Rightarrow> environ \<Rightarrow> environ" where
  "env_remove n s = snd (unsetenv (Some n) s)"

definition env_accepts :: "(nat \<Rightarrow> bool) \<Rightarrow> string \<Rightarrow> string \<Rightarrow> bool" where
  "env_accepts alloc n v \<longleftrightarrow> good_name n \<and> alloc (length n + 1 + length v + 1)"

lemma env_map_None:
  assumes "env_inv s" and "good_name n"
  shows "env_map s n = None \<longleftrightarrow> env_find s n (length n) = None"
  using assms(2) by (simp add: env_map_def getenv_def env_name_ok_iff split: option.split)

lemma setenv_stores:
  assumes inv: "env_inv s" and ok: "env_accepts alloc n v"
    and room: "env_map s n \<noteq> None \<or> card (dom (env_map s)) < ENV_MAX"
    and ow: "overwrite \<or> env_map s n = None"
  shows "\<exists>s'. setenv alloc (Some n) (Some v) overwrite s = ((0, None), s') \<and> env_inv s' \<and>
    env_map s' = (env_map s)(n \<mapsto> v)"
proof -
  have n: "good_name n" and a: "alloc (length n + 1 + length v + 1)" using ok by (auto simp: env_accepts_def)
  let ?e = "n @ CHR ''='' # v"
  show ?thesis
  proof (cases "env_find s n (length n)")
    case None
    then have m: "env_map s n = None" using env_map_None [OF inv n] by simp
    then obtain i where i: "first_index (\<lambda>i. s_env s i = None) ENV_MAX = Some i"
      using room env_room [OF inv] by auto
    let ?s' = "s\<lparr>env_allocs := env_allocs s + 1, s_env := (s_env s)(i := Some ?e)\<rparr>"
    have "setenv alloc (Some n) (Some v) overwrite s = ((0, None), ?s')"
      using None i n a by (simp add: setenv_def env_name_ok_iff Let_def)
    moreover have "env_inv ?s' \<and> env_map ?s' = (env_map s)(n \<mapsto> v)"
      by (rule env_write [OF inv n first_index_SomeD(1) [OF i]]) (use m first_index_SomeD(2) [OF i] in simp_all)
    ultimately show ?thesis by blast
  next
    case (Some i)
    then obtain e where e: "s_env s i = Some e" "entry_name e = n" using env_find_Some [OF inv n] by blast
    have "overwrite" using ow Some env_map_None [OF inv n] by simp
    let ?s' = "s\<lparr>env_allocs := env_allocs s, s_env := (s_env s)(i := Some ?e)\<rparr>"
    have "setenv alloc (Some n) (Some v) overwrite s = ((0, None), ?s')"
      using Some n a \<open>overwrite\<close> by (simp add: setenv_def env_name_ok_iff Let_def)
    moreover have "env_inv ?s' \<and> env_map ?s' = (env_map s)(n \<mapsto> v)"
      by (rule env_write [OF inv n env_invD(1) [OF inv e(1)]]) (use e in simp_all)
    ultimately show ?thesis by blast
  qed
qed

text \<open>Every way a set can be refused, with the error it reports.\<close>

lemma setenv_refused:
  assumes inv: "env_inv s"
    and no: "\<not> (env_accepts alloc n v \<and> (env_map s n \<noteq> None \<or> card (dom (env_map s)) < ENV_MAX))"
  shows "setenv alloc (Some n) (Some v) True s =
    ((- 1, Some (if good_name n then ENOMEM else EINVAL)), s)"
proof (cases "good_name n")
  case False
  then show ?thesis by (simp add: setenv_def env_name_ok_iff)
next
  case True
  show ?thesis
  proof (cases "alloc (length n + 1 + length v + 1)")
    case False
    then show ?thesis using True by (simp add: setenv_def env_name_ok_iff Let_def)
  next
    case a: True
    then have m: "env_map s n = None" "\<not> card (dom (env_map s)) < ENV_MAX"
      using no True by (auto simp: env_accepts_def)
    then have "env_find s n (length n) = None" "first_index (\<lambda>i. s_env s i = None) ENV_MAX = None"
      using env_map_None [OF inv True] env_room [OF inv] by auto
    then show ?thesis using True a by (simp add: setenv_def env_name_ok_iff Let_def)
  qed
qed

lemma unsetenv_removes:
  assumes inv: "env_inv s"
  shows "env_inv (env_remove n s) \<and> env_map (env_remove n s) = (env_map s)(n := None)"
proof (cases "good_name n")
  case False
  then have "env_map s n = None" by (simp add: env_map_def getenv_def env_name_ok_iff)
  with False inv show ?thesis by (simp add: env_remove_def unsetenv_def env_name_ok_iff fun_upd_idem)
next
  case True
  show ?thesis
  proof (cases "env_find s n (length n)")
    case None
    then have "env_map s n = None" using env_map_None [OF inv True] by simp
    with None True inv show ?thesis by (simp add: env_remove_def unsetenv_def env_name_ok_iff fun_upd_idem)
  next
    case (Some i)
    then obtain e where e: "s_env s i = Some e" "entry_name e = n" using env_find_Some [OF inv True] by blast
    from Some True have "env_remove n s = s\<lparr>env_allocs := env_allocs s - 1, s_env := (s_env s)(i := None)\<rparr>"
      by (simp add: env_remove_def unsetenv_def env_name_ok_iff)
    then show ?thesis using env_erase [OF inv e] by simp
  qed
qed

interpretation env: env_store env_inv env_map "env_assign alloc" env_remove "env_accepts alloc" ENV_MAX
  for alloc
proof unfold_locales
  fix t :: environ and n v
  assume "env_inv t" "env_accepts alloc n v" "env_map t n \<noteq> None \<or> card (dom (env_map t)) < ENV_MAX"
  from setenv_stores [OF this, of True]
  show "env_inv (env_assign alloc n v t) \<and> env_map (env_assign alloc n v t) = (env_map t)(n \<mapsto> v)"
    by (auto simp: env_assign_def)
next
  fix t :: environ and n v
  assume "env_inv t" "\<not> (env_accepts alloc n v \<and> (env_map t n \<noteq> None \<or> card (dom (env_map t)) < ENV_MAX))"
  from setenv_refused [OF this] show "env_assign alloc n v t = t" by (simp add: env_assign_def)
next
  fix t :: environ
  assume inv: "env_inv t"
  show "finite (dom (env_map t)) \<and> card (dom (env_map t)) \<le> ENV_MAX"
    using env_map_dom [OF inv] env_used_card [of t] by simp
qed (rule unsetenv_removes)

section \<open>Properties\<close>

datatype env_op = Set string "string option" bool | Unset string

fun env_op_step :: "(nat \<Rightarrow> bool) \<Rightarrow> env_op \<Rightarrow> environ \<Rightarrow> environ" where
  "env_op_step alloc (Set n v ow) s = snd (setenv alloc (Some n) v ow s)"
| "env_op_step alloc (Unset n) s = snd (unsetenv (Some n) s)"

text \<open>The same operation on an environment that is just a map with room for \<open>ENV_MAX\<close> names.\<close>

fun env_op_spec :: "(nat \<Rightarrow> bool) \<Rightarrow> env_op \<Rightarrow> (string \<rightharpoonup> string) \<Rightarrow> (string \<rightharpoonup> string)" where
  "env_op_spec alloc (Set n v ow) m =
     (let w = (case v of None \<Rightarrow> [] | Some x \<Rightarrow> x) in
      if env_accepts alloc n w \<and> (if m n \<noteq> None then ow else card (dom m) < ENV_MAX) then m(n \<mapsto> w) else m)"
| "env_op_spec alloc (Unset n) m = m(n := None)"

lemma setenv_null: "setenv alloc name None ow s = setenv alloc name (Some []) ow s"
  unfolding setenv_def by (simp only: option.case)

lemma setenv_kept: "env_inv s \<Longrightarrow> good_name n \<Longrightarrow> env_map s n \<noteq> None \<Longrightarrow> setenv alloc (Some n) v False s = ((0, None), s)"
  using env_map_None [of s n] by (simp add: setenv_def env_name_ok_iff Let_def)

lemma setenv_fresh: "env_inv s \<Longrightarrow> good_name n \<Longrightarrow> env_map s n = None \<Longrightarrow>
    setenv alloc (Some n) v ow s = setenv alloc (Some n) v True s"
  using env_map_None [of s n] by (simp add: setenv_def env_name_ok_iff Let_def)

lemma setenv_bad_name: "\<not> good_name n \<Longrightarrow> setenv alloc (Some n) v ow s = ((- 1, Some EINVAL), s)"
  by (simp add: setenv_def env_name_ok_iff)

lemma env_op_refines:
  assumes inv: "env_inv s"
  shows "env_inv (env_op_step alloc x s) \<and> env_map (env_op_step alloc x s) = env_op_spec alloc x (env_map s)"
proof (cases x)
  case (Unset n)
  then show ?thesis using unsetenv_removes [OF inv, of n] by (simp add: env_remove_def)
next
  case (Set n v ow)
  let ?w = "case v of None \<Rightarrow> [] | Some y \<Rightarrow> y"
  have sv: "setenv alloc (Some n) v ow s = setenv alloc (Some n) (Some ?w) ow s"
    by (simp add: setenv_null split: option.split)
  show ?thesis
  proof (cases "good_name n \<and> (ow \<or> env_map s n = None)")
    case True
    then have t: "setenv alloc (Some n) (Some ?w) ow s = setenv alloc (Some n) (Some ?w) True s"
      using setenv_fresh [OF inv] by auto
    note env.step_refines [OF inv, of alloc "(n, Some ?w)"]
    then show ?thesis
      using True by (auto simp: Set sv t env.store_step_def env.map_step_def env_assign_def Let_def)
  next
    case False
    then have "setenv alloc (Some n) (Some ?w) ow s = ((if good_name n then 0 else - 1,
        if good_name n then None else Some EINVAL), s)"
      using setenv_kept [OF inv] setenv_bad_name by auto
    then show ?thesis using False inv by (auto simp: Set sv env_accepts_def Let_def)
  qed
qed

lemma getenv_init: "getenv n environ_init = None"
proof -
  have "env_find environ_init m len = None" for m len
    by (simp add: env_find_def environ_init_def first_index_None)
  then show ?thesis by (simp add: getenv_def split: option.split)
qed

lemma env_run_refines:
  "env_inv s \<Longrightarrow> env_inv (fold (env_op_step alloc) xs s) \<and>
    env_map (fold (env_op_step alloc) xs s) = fold (env_op_spec alloc) xs (env_map s)"
  by (induction xs arbitrary: s) (use env_op_refines in auto)

lemma env_run_keeps:
  assumes "\<And>x. x \<in> set xs \<Longrightarrow> x \<noteq> Unset n \<and> (\<forall>w ow. x \<noteq> Set n w ow)"
  shows "fold (env_op_spec alloc) xs m n = m n"
  using assms
proof (induction xs arbitrary: m)
  case (Cons x xs)
  then have "env_op_spec alloc x m n = m n" by (cases x) (auto simp: Let_def)
  with Cons show ?case by simp
qed simp

text \<open>
  C18. The environment table implements a map from names to values: after any sequence of
  \<open>setenv\<close> and \<open>unsetenv\<close> calls, with any names, values and overwrite flags and any
  allocation failures, \<open>getenv\<close> of every name answers what a plain map with room for 128
  names would; and the allocations outstanding are exactly one per name that is set, so
  nothing leaks and nothing is freed twice.
\<close>

theorem environ_refines_map:
  "(\<lambda>n. getenv (Some n) (fold (env_op_step alloc) xs environ_init)) = fold (env_op_spec alloc) xs Map.empty \<and>
   env_allocs (fold (env_op_step alloc) xs environ_init) =
     int (card (dom (\<lambda>n. getenv (Some n) (fold (env_op_step alloc) xs environ_init))))"
proof -
  have "env_map environ_init = Map.empty" by (simp add: env_map_def fun_eq_iff getenv_init)
  moreover have "env_map = (\<lambda>s n. getenv (Some n) s)" by (simp add: env_map_def fun_eq_iff)
  ultimately show ?thesis
    using env_run_refines [OF env_inv_init] env_invD(4) env_map_dom(2) by metis
qed

text \<open>
  A variable that was set reads back: if the environment, after whatever calls, has room
  for the name, \<open>setenv\<close> with overwriting returns 0, and after any further calls that do
  not name it, \<open>getenv\<close> gives the value that was set.
\<close>

theorem setenv_getenv:
  assumes s: "s = fold (env_op_step alloc) xs environ_init" and ok: "env_accepts alloc n v"
    and room: "getenv (Some n) s \<noteq> None \<or> card (dom (\<lambda>m. getenv (Some m) s)) < ENV_MAX"
    and later: "\<And>x. x \<in> set ys \<Longrightarrow> x \<noteq> Unset n \<and> (\<forall>w ow. x \<noteq> Set n w ow)"
  shows "\<exists>s'. setenv alloc (Some n) (Some v) True s = ((0, None), s') \<and>
    getenv (Some n) (fold (env_op_step alloc) ys s') = Some v"
proof -
  have inv: "env_inv s" using env_run_refines [OF env_inv_init] s by simp
  have "env_map s n \<noteq> None \<or> card (dom (env_map s)) < ENV_MAX"
    using room by (simp add: env_map_def [abs_def])
  from setenv_stores [OF inv ok this, of True] obtain s' where s': "env_inv s'"
    "setenv alloc (Some n) (Some v) True s = ((0, None), s')" "env_map s' = (env_map s)(n \<mapsto> v)" by auto
  then have "env_map (fold (env_op_step alloc) ys s') n = Some v" using env_run_refines [OF s'(1)] env_run_keeps [OF later] by simp
  then show ?thesis using s'(2) by (auto simp: env_map_def)
qed

theorem setenv_getenv_witness:
  "\<exists>s'. setenv (\<lambda>_. True) (Some ''HOME'') (Some ''/app0'') True environ_init = ((0, None), s') \<and>
    getenv (Some ''HOME'') (fold (env_op_step (\<lambda>_. True)) [Unset ''PATH''] s') = Some ''/app0''"
proof -
  have "card (dom (\<lambda>m. getenv (Some m) environ_init)) < ENV_MAX" by (simp add: getenv_init dom_def ENV_MAX_def)
  with setenv_getenv [of environ_init "\<lambda>_. True" "[]" "''HOME''" "''/app0''" "[Unset ''PATH'']"]
  show ?thesis by (simp add: env_accepts_def good_name_def)
qed

end
