(* ===== verification/Calendar.thy ===== *)
theory Calendar
  imports Prelude "HOL-Library.Signed_Division"
begin

text \<open>
  \<open>localtime_r\<close> of \<open>src/src/runtime/libc_absent.c\<close>: the broken-down time computed with the
  days-to-civil method. The code's \<open>int64_t\<close> values are integers here, because nothing
  overflows for a time whose year fits in \<open>tm_year\<close>; C's \<open>/\<close> and \<open>%\<close> truncate towards zero
  and are \<open>sdiv\<close> and \<open>smod\<close>; the narrowing casts are written out. \<open>oops_time_utc_offset\<close> of
  the SDK is the parameter \<open>utc_offset\<close>, \<open>None\<close> when it fails.

  The reference is the proleptic Gregorian calendar itself: leap years, month lengths, and
  the day number of a date counted from them.
\<close>

section \<open>The computation\<close>

record tm =
  tm_sec :: int
  tm_min :: int
  tm_hour :: int
  tm_mday :: int
  tm_mon :: int
  tm_year :: int
  tm_wday :: int
  tm_yday :: int
  tm_gmtoff :: int

text \<open>The conversion of an integer to a 32-bit \<open>int\<close>.\<close>

definition to_int :: "int \<Rightarrow> int" where
  "to_int x = signed_take_bit 31 x"

definition leap_year :: "int \<Rightarrow> bool" where
  "leap_year y \<longleftrightarrow> y smod 4 = 0 \<and> y smod 100 \<noteq> 0 \<or> y smod 400 = 0"

definition before_month :: "int list" where
  "before_month = [0, 31, 59, 90, 120, 151, 181, 212, 243, 273, 304, 334]"

definition localtime_r :: "(int \<Rightarrow> int option) \<Rightarrow> int option \<Rightarrow> tm option" where
  "localtime_r utc_offset clock =
     (case clock of
        None \<Rightarrow> None
      | Some t \<Rightarrow>
          let offset = (case utc_offset t of Some ofs \<Rightarrow> ofs | None \<Rightarrow> 0);
              secs = t + offset;
              days0 = secs sdiv 86400;
              rem0 = secs smod 86400;
              rem = (if rem0 < 0 then rem0 + 86400 else rem0);
              days1 = (if rem0 < 0 then days0 - 1 else days0);
              days = days1 + 719468;
              era = (if 0 \<le> days then days else days - 146096) sdiv 146097;
              doe = days - era * 146097;
              yoe = (doe - doe sdiv 1460 + doe sdiv 36524 - doe sdiv 146096) sdiv 365;
              doy = doe - (365 * yoe + yoe sdiv 4 - yoe sdiv 100);
              mp = (5 * doy + 2) sdiv 153;
              y = yoe + era * 400 + (if 10 \<le> mp then 1 else 0);
              mday = to_int (doy - (153 * mp + 2) sdiv 5 + 1);
              mon = to_int (if mp < 10 then mp + 2 else mp - 10)
          in Some \<lparr>tm_sec = to_int (rem smod 60), tm_min = to_int (rem smod 3600 sdiv 60),
                   tm_hour = to_int (rem sdiv 3600), tm_mday = mday, tm_mon = mon,
                   tm_year = to_int (y - 1900), tm_wday = to_int ((days1 smod 7 + 11) smod 7),
                   tm_yday = before_month ! nat mon + mday - 1 + (if leap_year y \<and> 1 < mon then 1 else 0),
                   tm_gmtoff = offset\<rparr>)"

section \<open>The calendar\<close>

definition gregorian_leap :: "int \<Rightarrow> bool" where
  "gregorian_leap y \<longleftrightarrow> 4 dvd y \<and> (\<not> 100 dvd y \<or> 400 dvd y)"

definition month_length :: "int \<Rightarrow> int \<Rightarrow> int" where
  "month_length y m =
     (if m = 1 then (if gregorian_leap y then 29 else 28)
      else if m \<in> {3, 5, 8, 10} then 30 else 31)"

text \<open>Days of the year before a month, and days before a year since the year 0.\<close>

definition days_before_month :: "int \<Rightarrow> int \<Rightarrow> int" where
  "days_before_month y m = (\<Sum>k = 0..<m. month_length y k)"

definition days_before_year :: "int \<Rightarrow> int" where
  "days_before_year y = 365 * y + (y - 1) div 4 - (y - 1) div 100 + (y - 1) div 400 + 1"

definition date_valid :: "int \<Rightarrow> int \<Rightarrow> int \<Rightarrow> bool" where
  "date_valid y m d \<longleftrightarrow> 0 \<le> m \<and> m < 12 \<and> 1 \<le> d \<and> d \<le> month_length y m"

definition day_number :: "int \<Rightarrow> int \<Rightarrow> int \<Rightarrow> int" where
  "day_number y m d = days_before_year y + days_before_month y m + (d - 1)"

lemma leap_indicator:
  assumes "Q \<longrightarrow> P" and "R \<longrightarrow> Q"
  shows "(if P then 1 else 0) - (if Q then 1 else 0) + (if R then 1 else 0) =
    (if P \<and> (\<not> Q \<or> R) then 1 else 0 :: int)"
  using assms by (cases P; cases Q; cases R) simp_all

text \<open>The closed form of the days before a year counts the years' lengths.\<close>

lemma days_before_year_Suc:
  "days_before_year (y + 1) = days_before_year y + (if gregorian_leap y then 366 else 365)"
proof -
  have step: "y div k = (y - 1) div k + (if k dvd y then 1 else 0)" if "0 < k" for k :: int
  proof (cases "k dvd y")
    case True
    then obtain q where q: "y = k * q" by blast
    have "(y - 1) div k = q - 1"
      using that by (intro int_div_pos_eq [where r = "k - 1"]) (auto simp: q algebra_simps)
    then show ?thesis using True that by (simp add: q)
  next
    case False
    then have r: "0 < y mod k" "y mod k < k"
      using that by (simp_all add: dvd_eq_mod_eq_0 order_le_neq_trans [of 0])
    have "(y - 1) div k = y div k"
      using r that mult_div_mod_eq [of k y] by (intro int_div_pos_eq [where r = "y mod k - 1"]) linarith+
    then show ?thesis using False by simp
  qed
  have d: "(100 dvd y \<longrightarrow> 4 dvd y) \<and> (400 dvd y \<longrightarrow> 100 dvd y)"
    using dvd_trans [of 4 100 y] dvd_trans [of 100 400 y] by simp
  define a b c :: int where "a = (if 4 dvd y then 1 else 0)" and "b = (if 100 dvd y then 1 else 0)"
    and "c = (if 400 dvd y then 1 else 0)"
  have "y div 4 = (y - 1) div 4 + a" "y div 100 = (y - 1) div 100 + b" "y div 400 = (y - 1) div 400 + c"
    unfolding a_def b_def c_def by (rule step, simp)+
  then have "days_before_year (y + 1) = days_before_year y + 365 + (a - b + c)"
    unfolding days_before_year_def add_diff_cancel_right' by algebra
  moreover have "a - b + c = (if gregorian_leap y then 1 else 0)"
    unfolding a_def b_def c_def gregorian_leap_def by (rule leap_indicator) (use d in blast)+
  ultimately show ?thesis by simp
qed

lemma days_before_month_eq:
  assumes "0 \<le> m" and "m < 12"
  shows "days_before_month y m = before_month ! nat m + (if gregorian_leap y \<and> 1 < m then 1 else 0)"
proof -
  have "m \<in> {0, 1, 2, 3, 4, 5, 6, 7, 8, 9, 10, 11}" using assms by simp presburger
  moreover have up: "{0..<i + 1} = insert i {0..<i}" if "0 \<le> i" for i :: int using that by auto
  note up [of 0] up [of 1] up [of 2] up [of 3] up [of 4] up [of 5] up [of 6] up [of 7] up [of 8] up [of 9] up [of 10]
  ultimately show ?thesis
    by (elim insertE emptyE) (simp_all add: days_before_month_def before_month_def month_length_def)
qed


section \<open>Truncating division\<close>

lemma sdiv_nonneg [simp]: "0 \<le> x \<Longrightarrow> 0 < k \<Longrightarrow> x sdiv k = x div k" for x k :: int
  by (cases "x = 0") (simp_all add: signed_divide_int_def)

lemma smod_nonneg [simp]: "0 \<le> x \<Longrightarrow> 0 < k \<Longrightarrow> x smod k = x mod k" for x k :: int
  by (cases "x = 0") (simp_all add: smod_int_alt_def)

lemma smod_dvd: "0 < k \<Longrightarrow> x smod k = 0 \<longleftrightarrow> k dvd x" for x k :: int
  by (cases "x = 0") (simp_all add: smod_int_alt_def dvd_eq_mod_eq_0 [symmetric] sgn_0_0)

text \<open>The correction the code makes to the quotient and the remainder of a negative time.\<close>

lemma floor_from_sdiv:
  fixes x k :: int
  assumes "0 < k"
  shows "(if x smod k < 0 then x sdiv k - 1 else x sdiv k) = x div k"
    and "(if x smod k < 0 then x smod k + k else x smod k) = x mod k"
proof -
  have "x sdiv k = (if x mod k \<noteq> 0 \<and> x < 0 then x div k + 1 else x div k) \<and>
      x smod k = (if x mod k \<noteq> 0 \<and> x < 0 then x mod k - k else x mod k)"
  proof (cases "0 \<le> x")
    case False
    have s: "x sdiv k = - ((- x) div k)" using False assms by (simp add: signed_divide_int_def)
    have d: "(- x) div k = (if x mod k = 0 then - (x div k) else - (x div k) - 1)"
      using assms by (simp add: zdiv_zminus1_eq_if)
    have "x smod k = x - (x sdiv k) * k" by (simp add: minus_sdiv_mult_eq_smod)
    then show ?thesis
      using False s d mult_div_mod_eq [of k x] by (auto simp: algebra_simps)
  qed (use assms in simp)
  moreover have "x mod k \<noteq> 0 \<Longrightarrow> x mod k - k < 0" "0 \<le> x mod k" using assms by (simp_all add: pos_mod_bound)
  ultimately show "(if x smod k < 0 then x sdiv k - 1 else x sdiv k) = x div k"
    and "(if x smod k < 0 then x smod k + k else x smod k) = x mod k" by auto
qed

lemma era_floor:
  fixes d :: int
  assumes "0 < k"
  shows "(if 0 \<le> d then d else d - (k - 1)) sdiv k = d div k"
proof (cases "0 \<le> d")
  case False
  have "(d - (k - 1)) sdiv k = - ((k - 1 - d) div k)" using False assms by (simp add: signed_divide_int_def)
  also have "(k - 1 - d) div k = - (d div k)"
  proof (rule int_div_pos_eq)
    show "k - 1 - d = k * - (d div k) + (k - 1 - d mod k)" using mult_div_mod_eq [of k d] by (simp add: algebra_simps)
  qed (use assms pos_mod_bound [of k d] pos_mod_sign [of k d] in linarith)+
  finally show ?thesis using False by simp
qed (use assms in simp)

lemma to_int_id: "- (2 ^ 31) \<le> x \<Longrightarrow> x < 2 ^ 31 \<Longrightarrow> to_int x = x"
  by (simp add: to_int_def signed_take_bit_int_eq_self)

section \<open>The four-hundred-year cycle\<close>

text \<open>
  A day of the cycle is \<open>c\<close> centuries, \<open>q\<close> four-year groups and \<open>t\<close> years of 365 days after
  its start, and \<open>u\<close> days into a year that starts in March.
\<close>

definition cycle_day :: "int \<Rightarrow> int \<Rightarrow> int \<Rightarrow> int \<Rightarrow> int" where
  "cycle_day c q t u = 36524 * c + 1461 * q + 365 * t + u"

definition cycle_ok :: "int \<Rightarrow> int \<Rightarrow> int \<Rightarrow> int \<Rightarrow> bool" where
  "cycle_ok c q t u \<longleftrightarrow> 0 \<le> c \<and> c \<le> 3 \<and> 0 \<le> q \<and> q \<le> 24 \<and> 0 \<le> t \<and> t \<le> 3 \<and> 0 \<le> u \<and> u \<le> 365 \<and>
     (u = 365 \<longrightarrow> t = 3 \<and> (q < 24 \<or> c = 3))"

lemma cycle_cases:
  assumes "0 \<le> doe" and "doe < 146097"
  obtains c q t u where "cycle_ok c q t u" "doe = cycle_day c q t u"
proof -
  define c where "c = min 3 (doe div 36524)"
  define r where "r = doe - 36524 * c"
  have c: "0 \<le> c" "c \<le> 3" using assms by (auto simp: c_def pos_imp_zdiv_nonneg_iff)
  have r: "0 \<le> r" "r \<le> 36524" "r = 36524 \<longrightarrow> c = 3"
    using assms by (auto simp: r_def c_def min_def split: if_splits)
  define s where "s = r mod 1461"
  define q where "q = r div 1461"
  have q: "0 \<le> q" "q \<le> 24" "r = 1461 * q + s" "0 \<le> s" "s \<le> 1460"
    using r by (auto simp: q_def s_def pos_imp_zdiv_nonneg_iff)
  define t where "t = min 3 (s div 365)"
  define u where "u = s - 365 * t"
  have t: "0 \<le> t" "t \<le> 3" "0 \<le> u" "u \<le> 365" "u = 365 \<longrightarrow> t = 3"
    using q(4,5) by (auto simp: t_def u_def min_def pos_imp_zdiv_nonneg_iff split: if_splits)
  have "u = 365 \<longrightarrow> q < 24 \<or> c = 3"
  proof (intro impI)
    assume "u = 365"
    then have "s = 1460" using t by (auto simp: u_def)
    then show "q < 24 \<or> c = 3" using q r by linarith
  qed
  then have "cycle_ok c q t u" using c q t by (simp add: cycle_ok_def)
  moreover have "doe = cycle_day c q t u" using q(3) by (simp add: cycle_day_def r_def u_def)
  ultimately show thesis by (rule that)
qed

text \<open>The formula for the year of the cycle undoes the decomposition.\<close>

lemma year_of_cycle:
  assumes "cycle_ok c q t u" and "doe = cycle_day c q t u"
  shows "(doe - doe div 1460 + doe div 36524 - doe div 146096) div 365 = 100 * c + 4 * q + t"
proof -
  have ok: "0 \<le> c" "c \<le> 3" "0 \<le> q" "q \<le> 24" "0 \<le> t" "t \<le> 3" "0 \<le> u" "u \<le> 365"
    "u = 365 \<longrightarrow> t = 3 \<and> (q < 24 \<or> c = 3)" using assms(1) by (auto simp: cycle_ok_def)
  define w where "w = 24 * c + q + 365 * t + u"
  define e where "e = (if 1460 \<le> w then 1 else 0 :: int)"
  define x where "x = (if doe = 146096 then 1 else 0 :: int)"
  have doe: "doe = 36524 * c + 1461 * q + 365 * t + u" using assms(2) by (simp add: cycle_day_def)
  have w: "0 \<le> w - 1460 * e" "w - 1460 * e < 1460" using ok by (auto simp: w_def e_def)
  have "doe div 1460 = 25 * c + q + e"
    using w by (intro int_div_pos_eq [where r = "w - 1460 * e"]) (auto simp: doe w_def)
  moreover have "doe div 36524 = c + x"
    using ok by (intro int_div_pos_eq [where r = "doe - 36524 * c - 36524 * x"]) (auto simp: doe x_def)
  moreover have "doe div 146096 = x"
    using ok by (intro int_div_pos_eq [where r = "doe - 146096 * x"]) (auto simp: doe x_def)
  ultimately have "doe - doe div 1460 + doe div 36524 - doe div 146096 = 365 * (100 * c + 4 * q + t) + (u - e)"
    by (simp add: doe)
  moreover have "0 \<le> u - e" "u - e < 365" using ok by (auto simp: e_def w_def)
  ultimately show ?thesis by (intro int_div_pos_eq) auto
qed


lemma day_of_year_cycle:
  assumes "cycle_ok c q t u" and "y = 100 * c + 4 * q + t"
  shows "365 * y + y div 4 - y div 100 = cycle_day c q t 0"
proof -
  have ok: "0 \<le> c" "c \<le> 3" "0 \<le> q" "q \<le> 24" "0 \<le> t" "t \<le> 3" using assms(1) by (auto simp: cycle_ok_def)
  have "y div 4 = 25 * c + q" using ok by (intro int_div_pos_eq [where r = t]) (auto simp: assms(2))
  moreover have "y div 100 = c" using ok by (intro int_div_pos_eq [where r = "4 * q + t"]) (auto simp: assms(2))
  ultimately show ?thesis by (simp add: assms(2) cycle_day_def)
qed

text \<open>The years of cycle \<open>era\<close>: where the next year starts, and when it has a leap day.\<close>

lemma next_year_starts:
  assumes "cycle_ok c q t u" and "y = 100 * c + 4 * q + t + era * 400"
  shows "days_before_year (y + 1) = era * 146097 + cycle_day c q t 0 + 366"
    and "u = 365 \<Longrightarrow> gregorian_leap (y + 1)"
proof -
  have ok: "0 \<le> c" "c \<le> 3" "0 \<le> q" "q \<le> 24" "0 \<le> t" "t \<le> 3" using assms(1) by (auto simp: cycle_ok_def)
  have "y div 4 = 100 * era + 25 * c + q" using ok by (intro int_div_pos_eq [where r = t]) (auto simp: assms(2))
  moreover have "y div 100 = 4 * era + c"
    using ok by (intro int_div_pos_eq [where r = "4 * q + t"]) (auto simp: assms(2))
  moreover have "y div 400 = era"
    using ok by (intro int_div_pos_eq [where r = "100 * c + 4 * q + t"]) (auto simp: assms(2))
  ultimately show "days_before_year (y + 1) = era * 146097 + cycle_day c q t 0 + 366"
    by (simp add: days_before_year_def cycle_day_def assms(2))
  assume "u = 365"
  then have t: "t = 3" "q < 24 \<or> c = 3" using assms(1) by (auto simp: cycle_ok_def)
  then have y: "y + 1 = 4 * (100 * era + 25 * c + q + 1)" by (simp add: assms(2))
  have "\<not> 100 dvd y + 1" if "q < 24"
  proof -
    have "(y + 1) mod 100 = 4 * q + 4"
      using that ok by (intro int_mod_pos_eq [where q = "4 * era + c"]) (auto simp: assms(2) t)
    then show ?thesis using ok by (simp add: dvd_eq_mod_eq_0)
  qed
  moreover have "400 dvd y + 1" if "\<not> q < 24"
  proof -
    have "y + 1 = 400 * (era + 1)" using that t ok by (simp add: assms(2))
    then show ?thesis by simp
  qed
  ultimately show "gregorian_leap (y + 1)" unfolding gregorian_leap_def y by fastforce
qed

section \<open>Months\<close>

text \<open>
  The months of a year that starts in March: month \<open>mp\<close> starts on day \<open>(153 mp + 2) / 5\<close>, and
  the formula for the month of a day is its inverse.
\<close>

lemma month_of_day:
  fixes doy mp :: int
  assumes "0 \<le> doy" and "doy \<le> 365" and "mp = (5 * doy + 2) div 153"
  shows "0 \<le> mp \<and> mp \<le> 11 \<and> (153 * mp + 2) div 5 \<le> doy \<and>
    (mp < 11 \<longrightarrow> doy < (153 * (mp + 1) + 2) div 5)"
proof -
  have "153 * mp \<le> 5 * doy + 2" "5 * doy + 2 < 153 * mp + 153"
    using assms(3) mult_div_mod_eq [of 153 "5 * doy + 2"] pos_mod_bound [of 153 "5 * doy + 2"]
      pos_mod_sign [of 153 "5 * doy + 2"] by simp_all
  moreover from this have b: "0 \<le> mp" "mp \<le> 11" using assms(1,2) by linarith+
  moreover have "mp \<in> {0, 1, 2, 3, 4, 5, 6, 7, 8, 9, 10, 11}" using b by simp presburger
  ultimately show ?thesis by (elim insertE emptyE) simp_all
qed

lemma march_months:
  fixes mp :: int
  assumes "0 \<le> mp" and "mp \<le> 11"
  shows "mp < 10 \<Longrightarrow> before_month ! nat (mp + 2) = (153 * mp + 2) div 5 + 59 \<and>
      (\<forall>y. (153 * (mp + 1) + 2) div 5 - (153 * mp + 2) div 5 = month_length y (mp + 2))"
    and "mp = 10 \<Longrightarrow> (153 * mp + 2) div 5 = 306" and "mp = 11 \<Longrightarrow> (153 * mp + 2) div 5 = 337"
proof -
  assume m: "mp < 10"
  then have "mp \<in> {0, 1, 2, 3, 4, 5, 6, 7, 8, 9}" using assms by simp presburger
  then show "before_month ! nat (mp + 2) = (153 * mp + 2) div 5 + 59 \<and>
      (\<forall>y. (153 * (mp + 1) + 2) div 5 - (153 * mp + 2) div 5 = month_length y (mp + 2))"
    by (elim insertE emptyE) (simp_all add: before_month_def month_length_def)
qed simp_all


section \<open>The date of a day\<close>

text \<open>
  The steps of the computation on day \<open>days\<close> after 0000-03-01, in floor division: the date it
  gives is valid and is that day (0000-03-01 is day 60 of the year 0).
\<close>

lemma civil_from_days:
  fixes days :: int
  defines "era \<equiv> days div 146097"
  defines "doe \<equiv> days - era * 146097"
  defines "yoe \<equiv> (doe - doe div 1460 + doe div 36524 - doe div 146096) div 365"
  defines "doy \<equiv> doe - (365 * yoe + yoe div 4 - yoe div 100)"
  defines "mp \<equiv> (5 * doy + 2) div 153"
  defines "y \<equiv> yoe + era * 400 + (if 10 \<le> mp then 1 else 0)"
  defines "m \<equiv> if mp < 10 then mp + 2 else mp - 10"
  defines "d \<equiv> doy - (153 * mp + 2) div 5 + 1"
  shows "date_valid y m d" and "day_number y m d = days + 60"
    and "0 \<le> doe" "doe < 146097" "0 \<le> yoe" "yoe < 400" "0 \<le> doy" "doy \<le> 365" "0 \<le> mp" "mp \<le> 11"
proof -
  have doe': "doe = days mod 146097" using minus_div_mult_eq_mod [of days 146097] by (simp add: doe_def era_def)
  then show doe: "0 \<le> doe" "doe < 146097" by simp_all
  obtain c q t u where ok: "cycle_ok c q t u" and day: "doe = cycle_day c q t u" using cycle_cases [OF doe] .
  have yoe: "yoe = 100 * c + 4 * q + t" unfolding yoe_def by (rule year_of_cycle [OF ok day])
  have "doy = u" using day_of_year_cycle [OF ok yoe] by (simp add: doy_def day cycle_day_def)
  moreover have "0 \<le> u" "u \<le> 365" "0 \<le> yoe" "yoe < 400" using ok by (auto simp: cycle_ok_def yoe)
  ultimately show doy: "0 \<le> doy" "doy \<le> 365" and y: "0 \<le> yoe" "yoe < 400" by simp_all
  note M = month_of_day [OF doy, of mp, OF meta_eq_to_obj_eq [OF mp_def]]
  then show mp: "0 \<le> mp" "mp \<le> 11" by simp_all
  let ?Y = "yoe + era * 400"
  have Y: "?Y = 100 * c + 4 * q + t + era * 400" by (simp add: yoe)
  note N = next_year_starts(1) [OF ok Y] and leap = next_year_starts(2) [OF ok Y]
  have days: "days = era * 146097 + cycle_day c q t 0 + doy"
    using day \<open>doy = u\<close> by (simp add: doe_def cycle_day_def)
  note suc = days_before_year_Suc [of ?Y]
  have "date_valid y m d \<and> day_number y m d = days + 60"
  proof (cases "mp < 10")
    case True
    note mm = march_months(1) [OF mp True]
    have m: "y = ?Y" "m = mp + 2" "0 \<le> m" "m < 12" "1 < m" using True mp by (simp_all add: y_def m_def)
    have "d \<le> month_length y m" "1 \<le> d" using M mm True mp unfolding d_def m(2) by auto
    moreover have "days_before_month y m = (153 * mp + 2) div 5 + 59 + (if gregorian_leap y then 1 else 0)"
      using days_before_month_eq [OF m(3,4), of y] mm m(2,5) by simp
    ultimately show ?thesis
      using m(3,4) N suc unfolding date_valid_def day_number_def d_def days m(1) by (auto split: if_splits)
  next
    case False
    have m: "y = ?Y + 1" "m = mp - 10" "0 \<le> m" "m < 12" "m \<le> 1" using False mp by (simp_all add: y_def m_def)
    have "mp = 10 \<or> mp = 11" using False mp by linarith
    then have bm: "before_month ! nat m = (153 * mp + 2) div 5 - 306"
      using m(2) march_months(2,3) [OF mp] by (auto simp: before_month_def)
    have "1 \<le> d" using M by (simp add: d_def)
    moreover have "d \<le> month_length y m"
    proof (cases "mp = 10")
      case True
      then have "doy < 337" using M by simp
      then show ?thesis using True m(2) by (simp add: d_def month_length_def)
    next
      case F: False
      then have "mp = 11" using \<open>mp = 10 \<or> mp = 11\<close> by simp
      then show ?thesis
        using leap doy \<open>doy = u\<close> m(1,2) by (cases "u = 365") (auto simp: d_def month_length_def)
    qed
    moreover have "days_before_month y m = (153 * mp + 2) div 5 - 306"
      using days_before_month_eq [OF m(3,4), of y] bm m(5) by simp
    ultimately show ?thesis
      using m(3,4) N unfolding date_valid_def day_number_def d_def days m(1) by simp
  qed
  then show "date_valid y m d" and "day_number y m d = days + 60" by blast+
qed


section \<open>Correctness\<close>

lemma leap_year_iff: "leap_year y \<longleftrightarrow> gregorian_leap y"
proof -
  have "400 dvd y \<longrightarrow> 100 dvd y" "100 dvd y \<longrightarrow> 4 dvd y"
    using dvd_trans [of 100 400 y] dvd_trans [of 4 100 y] by simp_all
  then show ?thesis unfolding leap_year_def gregorian_leap_def by (simp only: smod_dvd zero_less_numeral) blast
qed

lemma weekday: "(d smod 7 + 11) smod 7 = (d + 4) mod 7" for d :: int
proof -
  have d: "d smod 7 = (if d smod 7 < 0 then d mod 7 - 7 else d mod 7)"
    using floor_from_sdiv(2) [of 7 d] by (auto split: if_splits)
  have "0 \<le> d smod 7 + 11" using d by (simp split: if_splits)
  then have "(d smod 7 + 11) smod 7 = (d smod 7 + 11) mod 7" by simp
  also have "\<dots> = (d mod 7 + 4) mod 7"
  proof (cases "d smod 7 < 0")
    case True
    then have "d smod 7 + 11 = d mod 7 + 4" using d by simp
    then show ?thesis by (simp only:)
  next
    case False
    then have "d smod 7 + 11 = d mod 7 + 4 + 7" using d by simp
    then show ?thesis by (simp only: mod_add_self2)
  qed
  finally show ?thesis by (simp add: mod_simps)
qed

lemma year_small:
  fixes secs :: int
  assumes "\<bar>secs\<bar> \<le> 2 ^ 55" and "days = secs div 86400 + 719468" and "era = days div 146097"
    and "0 \<le> yoe" and "yoe < 400" and "e = 0 \<or> e = 1"
  shows "to_int (yoe + era * 400 + e - 1900) = yoe + era * 400 + e - 1900"
proof (rule to_int_id)
  have "- 36028797018963968 \<le> secs" "secs \<le> 36028797018963968" using assms(1) by (simp_all add: abs_le_iff)
  moreover have "86400 * (secs div 86400) \<le> secs" "secs < 86400 * (secs div 86400) + 86400"
    using mult_div_mod_eq [of 86400 secs] pos_mod_bound [of 86400 secs] pos_mod_sign [of 86400 secs] by linarith+
  ultimately have "- 416999965500 \<le> secs div 86400" "secs div 86400 \<le> 416999965500" by linarith+
  then have "- 416999965500 \<le> days" "days \<le> 417000684968" unfolding assms(2) by linarith+
  moreover have "146097 * era \<le> days" "days < 146097 * era + 146097"
    using mult_div_mod_eq [of 146097 days] pos_mod_bound [of 146097 days] pos_mod_sign [of 146097 days]
    unfolding assms(3) by linarith+
  ultimately have "- 2854269 \<le> era" "era \<le> 2854273" by linarith+
  moreover have "0 \<le> e" "e \<le> 1" using assms(6) by auto
  ultimately have "- 2147483648 \<le> yoe + era * 400 + e - 1900" "yoe + era * 400 + e - 1900 < 2147483648"
    using assms(4,5) by linarith+
  then show "- (2 ^ 31) \<le> yoe + era * 400 + e - 1900" "yoe + era * 400 + e - 1900 < 2 ^ 31" by simp_all
qed


text \<open>The computation with the truncating divisions replaced by floor divisions.\<close>

lemma localtime_floor:
  fixes t :: int
  assumes "secs = t + (case utc t of Some ofs \<Rightarrow> ofs | None \<Rightarrow> 0)" and "\<bar>secs\<bar> \<le> 2 ^ 55"
    and "days = secs div 86400 + 719468" and "era = days div 146097" and "doe = days - era * 146097"
    and "yoe = (doe - doe div 1460 + doe div 36524 - doe div 146096) div 365"
    and "doy = doe - (365 * yoe + yoe div 4 - yoe div 100)" and "mp = (5 * doy + 2) div 153"
    and "y = yoe + era * 400 + (if 10 \<le> mp then 1 else 0)" and "m = (if mp < 10 then mp + 2 else mp - 10)"
    and "d = doy - (153 * mp + 2) div 5 + 1" and "s = secs mod 86400"
  shows "localtime_r utc (Some t) = Some \<lparr>tm_sec = s mod 60, tm_min = s mod 3600 div 60, tm_hour = s div 3600,
    tm_mday = d, tm_mon = m, tm_year = y - 1900, tm_wday = (secs div 86400 + 4) mod 7,
    tm_yday = before_month ! nat m + d - 1 + (if gregorian_leap y \<and> 1 < m then 1 else 0),
    tm_gmtoff = (case utc t of Some ofs \<Rightarrow> ofs | None \<Rightarrow> 0)\<rparr>"
proof -
  note C = civil_from_days [of days, folded assms(4), folded assms(5), folded assms(6), folded assms(7),
      folded assms(8), folded assms(9), folded assms(10), folded assms(11)]
  have fl: "(if secs smod 86400 < 0 then secs sdiv 86400 - 1 else secs sdiv 86400) = secs div 86400"
    "(if secs smod 86400 < 0 then secs smod 86400 + 86400 else secs smod 86400) = s"
    using floor_from_sdiv [of 86400 secs] assms(12) by simp_all
  have er: "(if 0 \<le> days then days else days - 146096) sdiv 146097 = era"
    using era_floor [of 146097 days] assms(4) by (cases "0 \<le> days") simp_all
  have dv: "0 \<le> x \<Longrightarrow> x sdiv numeral k = x div numeral k" "0 \<le> x \<Longrightarrow> x smod numeral k = x mod numeral k"
    for x :: int and k by simp_all
  have dm: "date_valid y m d" by (rule C(1))
  have small: "to_int m = m" "to_int d = d" "0 \<le> m"
    using dm by (auto simp: date_valid_def month_length_def split: if_splits intro!: to_int_id)
  have s: "0 \<le> s" "s < 86400" by (simp_all add: assms(12))
  then have "0 \<le> s div 3600" "s div 3600 < 24" "0 \<le> s mod 3600 div 60" "s mod 3600 div 60 < 60"
    by (simp_all add: pos_imp_zdiv_nonneg_iff div_int_pos_iff)
  then have clock: "to_int (s div 3600) = s div 3600" "to_int (s mod 3600 div 60) = s mod 3600 div 60"
    "to_int (s mod 60) = s mod 60" "to_int ((secs div 86400 + 4) mod 7) = (secs div 86400 + 4) mod 7"
    by (simp_all add: to_int_id pos_mod_bound order_less_trans [OF pos_mod_bound])
  have yr: "to_int (y - 1900) = y - 1900"
    using year_small [OF assms(2,3,4) C(5,6)] unfolding assms(9) by auto
  have yoe0: "0 \<le> doe - doe div 1460 + doe div 36524 - doe div 146096"
    using C(5) unfolding assms(6) by (simp add: pos_imp_zdiv_nonneg_iff)
  have pos: "0 \<le> 5 * doy + 2" "0 \<le> 153 * mp + 2" using C(7,9) by simp_all
  have "0 \<le> s mod 3600" by simp
  show ?thesis
    unfolding localtime_r_def option.case Let_def assms(1) [symmetric] fl assms(3) [symmetric] er
      assms(5) [symmetric] dv [OF C(3)] dv [OF yoe0] assms(6) [symmetric] dv [OF C(5)] assms(7) [symmetric]
      dv [OF pos(1)] assms(8) [symmetric] dv [OF pos(2)] assms(9) [symmetric] assms(10) [symmetric]
      assms(11) [symmetric] weekday leap_year_iff small yr dv [OF s(1)] dv [OF \<open>0 \<le> s mod 3600\<close>] clock ..
qed

lemma clock_parts: "s div 3600 * 3600 + s mod 3600 div 60 * 60 + s mod 60 = s" for s :: int
proof -
  have "s mod 3600 mod 60 = s mod 60" by (simp add: mod_mod_cancel)
  then show ?thesis using div_mult_mod_eq [of s 3600] div_mult_mod_eq [of "s mod 3600" 60] by linarith
qed

text \<open>
  C19. \<open>localtime_r\<close> is correct for every time within \<open>2^55\<close> seconds of 1970 (more than a
  thousand million years either way): with the zone's offset added, the date it gives is a
  valid date of the Gregorian calendar and is exactly the day the time falls on, counted in
  whole days since 1970-01-01; hours, minutes and seconds are in range and give the rest;
  the day of the year counts from the first of January and the weekday advances with the
  days from the Thursday 1970-01-01 was.
\<close>

theorem localtime_correct:
  assumes "localtime_r utc (Some t) = Some r" and "secs = t + (case utc t of Some ofs \<Rightarrow> ofs | None \<Rightarrow> 0)"
    and "\<bar>secs\<bar> \<le> 2 ^ 55"
  shows "date_valid (tm_year r + 1900) (tm_mon r) (tm_mday r) \<and>
    day_number (tm_year r + 1900) (tm_mon r) (tm_mday r) - day_number 1970 0 1 = secs div 86400 \<and>
    tm_hour r * 3600 + tm_min r * 60 + tm_sec r = secs mod 86400 \<and>
    0 \<le> tm_hour r \<and> tm_hour r < 24 \<and> 0 \<le> tm_min r \<and> tm_min r < 60 \<and> 0 \<le> tm_sec r \<and> tm_sec r < 60 \<and>
    days_before_year (tm_year r + 1900) + tm_yday r = day_number (tm_year r + 1900) (tm_mon r) (tm_mday r) \<and>
    tm_wday r = (4 + secs div 86400) mod 7"
proof -
  let ?s = "secs mod 86400"
  define days where "days = secs div 86400 + 719468"
  define era where "era = days div 146097"
  define doe where "doe = days - era * 146097"
  define yoe where "yoe = (doe - doe div 1460 + doe div 36524 - doe div 146096) div 365"
  define doy where "doy = doe - (365 * yoe + yoe div 4 - yoe div 100)"
  define mp where "mp = (5 * doy + 2) div 153"
  define y where "y = yoe + era * 400 + (if 10 \<le> mp then 1 else 0)"
  define m where "m = (if mp < 10 then mp + 2 else mp - 10)"
  define d where "d = doy - (153 * mp + 2) div 5 + 1"
  note L = localtime_floor [where utc = utc and t = t, OF assms(2,3) days_def era_def doe_def yoe_def doy_def mp_def y_def m_def d_def refl]
  note C = civil_from_days [of days, folded era_def, folded doe_def, folded yoe_def, folded doy_def,
      folded mp_def, folded y_def, folded m_def, folded d_def]
  have base: "day_number 1970 0 1 = 719528"
    by (simp add: day_number_def days_before_year_def days_before_month_def)
  have r: "?s mod 60 = tm_sec r" "?s mod 3600 div 60 = tm_min r" "?s div 3600 = tm_hour r"
    "tm_wday r = (4 + secs div 86400) mod 7" using L assms(1) by (auto simp: add.commute)
  have date: "date_valid (tm_year r + 1900) (tm_mon r) (tm_mday r)"
    "day_number (tm_year r + 1900) (tm_mon r) (tm_mday r) = secs div 86400 + 719468 + 60"
    using L assms(1) C(1,2) days_def by auto
  have yd: "tm_yday r = before_month ! nat (tm_mon r) + tm_mday r - 1 +
      (if gregorian_leap (tm_year r + 1900) \<and> 1 < tm_mon r then 1 else 0)" using L assms(1) by auto
  have mon: "0 \<le> tm_mon r" "tm_mon r < 12" using date(1) by (simp_all add: date_valid_def)
  have "?s div 3600 * 3600 + ?s mod 3600 div 60 * 60 + ?s mod 60 = ?s" by (rule clock_parts)
  moreover have "0 \<le> ?s div 3600" "?s div 3600 < 24" "0 \<le> ?s mod 3600 div 60" "?s mod 3600 div 60 < 60"
    by (simp_all add: pos_imp_zdiv_nonneg_iff div_int_pos_iff)
  moreover have "0 \<le> ?s mod 60" "?s mod 60 < 60" by simp_all
  moreover have "days_before_year (tm_year r + 1900) + tm_yday r = day_number (tm_year r + 1900) (tm_mon r) (tm_mday r)"
    unfolding day_number_def days_before_month_eq [OF mon] yd by simp
  moreover have "day_number (tm_year r + 1900) (tm_mon r) (tm_mday r) - day_number 1970 0 1 = secs div 86400"
    unfolding date(2) base by simp
  ultimately show ?thesis using date(1) unfolding r(1-3) r(4) by blast
qed

text \<open>The leap day that ends a four-hundred-year cycle, 2000-02-29, in a zone an hour west.\<close>

theorem localtime_correct_witness:
  "\<exists>r. localtime_r (\<lambda>_. Some (- 3600)) (Some 951786000) = Some r \<and>
    tm_year r = 100 \<and> tm_mon r = 1 \<and> tm_mday r = 29 \<and> tm_wday r = 2 \<and>
    date_valid (tm_year r + 1900) (tm_mon r) (tm_mday r) \<and>
    day_number (tm_year r + 1900) (tm_mon r) (tm_mday r) - day_number 1970 0 1 = 11016"
proof -
  let ?r = "\<lparr>tm_sec = 0 mod 60, tm_min = 0 mod 3600 div 60, tm_hour = 0 div 3600, tm_mday = 29, tm_mon = 1,
      tm_year = 2000 - 1900, tm_wday = (951782400 div 86400 + 4) mod 7,
      tm_yday = before_month ! nat 1 + 29 - 1 + (if gregorian_leap 2000 \<and> 1 < (1 :: int) then 1 else 0),
      tm_gmtoff = (case Some (- 3600) of Some ofs \<Rightarrow> ofs | None \<Rightarrow> 0)\<rparr>"
  have r: "localtime_r (\<lambda>_. Some (- 3600)) (Some 951786000) = Some ?r"
    by (rule localtime_floor [where secs = 951782400 and days = 730484 and era = 4 and doe = 146096 and yoe = 399
          and doy = 365 and mp = 11]) simp_all
  let ?d = "day_number (tm_year ?r + 1900) (tm_mon ?r) (tm_mday ?r)"
  have c: "date_valid (tm_year ?r + 1900) (tm_mon ?r) (tm_mday ?r)" "?d - day_number 1970 0 1 = 951782400 div 86400"
    using localtime_correct [OF r, of 951782400] by simp_all
  have "tm_year ?r = 100 \<and> tm_mon ?r = 1 \<and> tm_mday ?r = 29 \<and> tm_wday ?r = 2" by simp
  with r c show ?thesis by (intro exI [of _ ?r]) simp
qed

end
