(* ===== verification/CStrings.thy ===== *)
theory CStrings
  imports Prelude "HOL-Library.List_Lexorder"
begin

text \<open>
  The string and byte functions of \<open>src/src/runtime/libc_absent.c\<close>, on a byte-addressed
  memory: an address is a number and memory is a function from addresses to bytes, so that
  aliasing and what a copy leaves alone can be stated. The loops are the code's. A loop over
  a string that is not terminated need not end, which is the result \<open>None\<close>.
\<close>

type_synonym memory = "nat \<Rightarrow> u8"

section \<open>Comparison and scanning\<close>

partial_function (option) strcmp :: "memory \<Rightarrow> nat \<Rightarrow> nat \<Rightarrow> int option" where
  "strcmp m p q =
     (if m p \<noteq> 0 \<and> m p = m q then strcmp m (p + 1) (q + 1)
      else Some (uint (m p) - uint (m q)))"

partial_function (option) strspn_member :: "memory \<Rightarrow> nat \<Rightarrow> u8 \<Rightarrow> nat option" where
  "strspn_member m a c = (if m a \<noteq> 0 \<and> m a \<noteq> c then strspn_member m (a + 1) c else Some a)"

partial_function (option) strspn_from :: "memory \<Rightarrow> nat \<Rightarrow> nat \<Rightarrow> nat \<Rightarrow> nat option" where
  "strspn_from m s accept n =
     (if m (s + n) \<noteq> 0
      then (case strspn_member m accept (m (s + n)) of
              None \<Rightarrow> None
            | Some a \<Rightarrow> if m a = 0 then Some n else strspn_from m s accept (n + 1))
      else Some n)"

definition strspn :: "memory \<Rightarrow> nat \<Rightarrow> nat \<Rightarrow> nat option" where
  "strspn m s accept = strspn_from m s accept 0"

text \<open>The loop \<open>while (n < maxlen && s[n] != 0) n++\<close>, with \<open>k\<close> steps left.\<close>

fun strnlen_from :: "memory \<Rightarrow> nat \<Rightarrow> nat \<Rightarrow> nat \<Rightarrow> nat" where
  "strnlen_from m s n 0 = n"
| "strnlen_from m s n (Suc k) = (if m (s + n) \<noteq> 0 then strnlen_from m s (n + 1) k else n)"

definition strnlen :: "memory \<Rightarrow> nat \<Rightarrow> nat \<Rightarrow> nat" where
  "strnlen m s maxlen = strnlen_from m s 0 maxlen"

fun bcmp_from :: "memory \<Rightarrow> nat \<Rightarrow> nat \<Rightarrow> nat \<Rightarrow> nat \<Rightarrow> int" where
  "bcmp_from m p q i 0 = 0"
| "bcmp_from m p q i (Suc k) =
     (if m (p + i) \<noteq> m (q + i) then uint (m (p + i)) - uint (m (q + i)) else bcmp_from m p q (i + 1) k)"

definition bcmp :: "memory \<Rightarrow> nat \<Rightarrow> nat \<Rightarrow> nat \<Rightarrow> int" where
  "bcmp m a b n = bcmp_from m a b 0 n"

section \<open>Writing\<close>

definition bzero :: "nat \<Rightarrow> nat \<Rightarrow> memory \<Rightarrow> memory" where
  "bzero s n m = fold (\<lambda>i m. m(s + i := 0)) [0..<n] m"

text \<open>The loop \<open>while ((*dst = *src++) != 0) dst++\<close>: the end and the memory.\<close>

partial_function (option) copy_string :: "nat \<Rightarrow> nat \<Rightarrow> memory \<Rightarrow> (nat \<times> memory) option" where
  "copy_string dst src m =
     (let m1 = m(dst := m src) in
      if m1 dst \<noteq> 0 then copy_string (dst + 1) (src + 1) m1 else Some (dst, m1))"

definition strcpy :: "nat \<Rightarrow> nat \<Rightarrow> memory \<Rightarrow> (nat \<times> memory) option" where
  "strcpy dst src m = map_option (\<lambda>(e, m1). (dst, m1)) (copy_string dst src m)"

definition stpcpy :: "nat \<Rightarrow> nat \<Rightarrow> memory \<Rightarrow> (nat \<times> memory) option" where
  "stpcpy dst src m = copy_string dst src m"

partial_function (option) string_end :: "nat \<Rightarrow> memory \<Rightarrow> nat option" where
  "string_end p m = (if m p \<noteq> 0 then string_end (p + 1) m else Some p)"

definition strcat :: "nat \<Rightarrow> nat \<Rightarrow> memory \<Rightarrow> (nat \<times> memory) option" where
  "strcat dst src m =
     (case string_end dst m of
        None \<Rightarrow> None
      | Some e \<Rightarrow> map_option (\<lambda>(x, m1). (dst, m1)) (copy_string e src m))"

text \<open>\<open>malloc\<close> gives an address or 0; the copy loop writes one byte at a time.\<close>

definition strndup :: "(nat \<Rightarrow> nat) \<Rightarrow> nat \<Rightarrow> nat \<Rightarrow> memory \<Rightarrow> nat \<times> memory" where
  "strndup malloc s n m =
     (let len = strnlen_from m s 0 n;
          out = malloc (len + 1)
      in if out = 0 then (0, m)
         else let m1 = fold (\<lambda>i m. m(out + i := m (s + i))) [0..<len] m
              in (out, m1(out + len := 0)))"

section \<open>Strings in memory\<close>

text \<open>\<open>cstr m p s\<close>: the string \<open>s\<close>, which has no zero byte, is at \<open>p\<close>, terminated.\<close>

fun cstr :: "memory \<Rightarrow> nat \<Rightarrow> u8 list \<Rightarrow> bool" where
  "cstr m p [] \<longleftrightarrow> m p = 0"
| "cstr m p (c # s) \<longleftrightarrow> c \<noteq> 0 \<and> m p = c \<and> cstr m (p + 1) s"

lemma cstr_iff:
  "cstr m p s \<longleftrightarrow> (\<forall>i<length s. m (p + i) = s ! i) \<and> 0 \<notin> set s \<and> m (p + length s) = 0"
proof (induction s arbitrary: p)
  case (Cons c s)
  have "(\<forall>i<Suc (length s). m (p + i) = (c # s) ! i) \<longleftrightarrow> m p = c \<and> (\<forall>i<length s. m (Suc p + i) = s ! i)"
    by (auto simp: less_Suc_eq_0_disj all_conj_distrib)
  with Cons show ?case by auto
qed simp

lemma cstr_end: "cstr m p s \<Longrightarrow> m (p + length s) = 0"
  by (simp add: cstr_iff)

lemma cstr_cong:
  assumes "\<And>a. p \<le> a \<Longrightarrow> a \<le> p + length s \<Longrightarrow> m' a = m a"
  shows "cstr m' p s = cstr m p s"
  using assms by (simp add: cstr_iff)

lemma cstr_append:
  "cstr m p (a @ b) \<longleftrightarrow> (\<forall>i<length a. m (p + i) = a ! i) \<and> 0 \<notin> set a \<and> cstr m (p + length a) b"
proof (induction a arbitrary: p)
  case (Cons c a)
  have "(\<forall>i<Suc (length a). m (p + i) = (c # a) ! i) \<longleftrightarrow> m p = c \<and> (\<forall>i<length a. m (Suc p + i) = a ! i)"
    by (auto simp: less_Suc_eq_0_disj all_conj_distrib)
  with Cons show ?case by auto
qed simp

section \<open>Reading\<close>

lemma uint_pos: "x \<noteq> 0 \<Longrightarrow> 0 < uint x"
  using uint_0_iff [of x] uint_ge_0 [of x] by linarith

lemma strcmp_eq:
  assumes "cstr m p a" and "cstr m q b"
  shows "\<exists>r. strcmp m p q = Some r \<and> (r = 0 \<longleftrightarrow> a = b) \<and> (r < 0 \<longleftrightarrow> a < b)"
  using assms
proof (induction a arbitrary: p q b)
  case Nil
  then show ?case
    by (cases b) (auto simp: strcmp.simps [of m p q] uint_0_iff uint_pos)
next
  case (Cons c a)
  show ?case
  proof (cases b)
    case Nil
    then show ?thesis
      using Cons.prems by (simp add: strcmp.simps [of m p q] uint_0_iff)
  next
    case (Cons d b')
    show ?thesis
    proof (cases "c = d")
      case True
      then show ?thesis
        using Cons.prems Cons Cons.IH [of "p + 1" "q + 1" b'] by (simp add: strcmp.simps [of m p q])
    next
      case False
      then show ?thesis
        using Cons.prems Cons by (auto simp: strcmp.simps [of m p q] word_less_def word_uint_eq_iff)
    qed
  qed
qed

lemma strspn_member_eq:
  assumes "cstr m a s" and "c \<noteq> 0"
  shows "\<exists>b. strspn_member m a c = Some b \<and> (m b = 0 \<longleftrightarrow> c \<notin> set s)"
  using assms(1)
proof (induction s arbitrary: a)
  case Nil
  then show ?case by (simp add: strspn_member.simps [of m a])
next
  case (Cons x s)
  then show ?case using Cons.IH [of "a + 1"] assms(2) by (cases "x = c") (auto simp: strspn_member.simps [of m a])
qed

lemma strspn_from_eq:
  assumes acc: "cstr m accept acc"
  shows "cstr m (s + n) str \<Longrightarrow>
    strspn_from m s accept n = Some (n + length (takeWhile (\<lambda>c. c \<in> set acc) str))"
proof (induction str arbitrary: n)
  case Nil
  then show ?case by (simp add: strspn_from.simps [of m s accept n])
next
  case (Cons c str)
  then have c: "m (s + n) = c" "c \<noteq> 0" by auto
  obtain b where b: "strspn_member m accept c = Some b" "m b = 0 \<longleftrightarrow> c \<notin> set acc"
    using strspn_member_eq [OF acc c(2)] by blast
  show ?case
    using Cons c b by (subst strspn_from.simps) simp
qed

lemma strnlen_from_eq:
  "cstr m (s + n) str \<Longrightarrow> strnlen_from m s n k = n + min k (length str)"
  by (induction k arbitrary: n str) (case_tac str; auto)+


section \<open>Writing\<close>

text \<open>
  A copy whose destination does not reach into the source: the string arrives whole, nothing
  else is written, and the end the loop stops at is the terminator.
\<close>

lemma copy_string_eq:
  assumes "cstr m src s" and "dst + length s < src \<or> src + length s < dst"
  shows "\<exists>m'. copy_string dst src m = Some (dst + length s, m') \<and> cstr m' dst s \<and>
    (\<forall>a. a < dst \<or> dst + length s < a \<longrightarrow> m' a = m a)"
  using assms
proof (induction s arbitrary: dst src m)
  case Nil
  then show ?case by (simp add: copy_string.simps [of dst src m])
next
  case (Cons c s)
  let ?m = "m(dst := c)"
  have c: "c \<noteq> 0" "m src = c" using Cons.prems by auto
  have "cstr ?m (src + 1) s = cstr m (src + 1) s"
    using Cons.prems(2) by (intro cstr_cong) auto
  then have src: "cstr ?m (src + 1) s" using Cons.prems(1) by simp
  have "dst + 1 + length s < src + 1 \<or> src + 1 + length s < dst + 1" using Cons.prems(2) by auto
  from Cons.IH [OF src this] obtain m' where m': "copy_string (dst + 1) (src + 1) ?m = Some (dst + 1 + length s, m')"
    "cstr m' (dst + 1) s" "\<forall>a. a < dst + 1 \<or> dst + 1 + length s < a \<longrightarrow> m' a = ?m a"
    by blast
  have "copy_string dst src m = copy_string (dst + 1) (src + 1) ?m"
    by (subst copy_string.simps) (simp add: c Let_def)
  with m' c show ?case by auto
qed

lemma string_end_eq: "cstr m p s \<Longrightarrow> string_end p m = Some (p + length s)"
proof (induction s arbitrary: p)
  case Nil
  then show ?case by (simp add: string_end.simps [of p m])
next
  case (Cons c s)
  then show ?case using Cons.IH [of "p + 1"] by (simp add: string_end.simps [of p m])
qed

lemma fold_copy:
  assumes "out + len \<le> s \<or> s + len \<le> out"
  shows "fold (\<lambda>i m. m(out + i := m (s + i))) [0..<len] m a =
    (if out \<le> a \<and> a < out + len then m (s + (a - out)) else m a)"
  using assms
proof (induction len arbitrary: a)
  case (Suc len)
  then show ?case by (auto simp: less_Suc_eq)
qed auto

lemma bzero_eq: "bzero s n m a = (if s \<le> a \<and> a < s + n then 0 else m a)"
  by (induction n arbitrary: a) (auto simp: bzero_def less_Suc_eq)

lemma bcmp_from_eq:
  "bcmp_from m p q i k = 0 \<longleftrightarrow> (\<forall>j<k. m (p + i + j) = m (q + i + j))"
proof (induction k arbitrary: i)
  case (Suc k)
  have "(\<forall>j<Suc k. m (p + i + j) = m (q + i + j)) \<longleftrightarrow>
      m (p + i) = m (q + i) \<and> (\<forall>j<k. m (p + (i + 1) + j) = m (q + (i + 1) + j))"
    by (auto simp: less_Suc_eq_0_disj)
  with Suc show ?case by (simp add: word_uint_eq_iff)
qed simp

text \<open>
  \<open>bcmp\<close> answers 0 exactly when the two ranges hold the same bytes, and \<open>bzero\<close> clears its
  range and nothing else, so that a range compares equal to a cleared one exactly when it is
  zero.
\<close>

lemma byte_ranges_correct:
  "(bcmp m a b n = 0 \<longleftrightarrow> (\<forall>i<n. m (a + i) = m (b + i))) \<and>
   (\<forall>x. bzero a n m x = (if a \<le> x \<and> x < a + n then 0 else m x)) \<and>
   (b + n \<le> a \<or> a + n \<le> b \<longrightarrow> (bcmp (bzero a n m) a b n = 0 \<longleftrightarrow> (\<forall>i<n. m (b + i) = 0)))"
  by (auto simp: bcmp_def bcmp_from_eq bzero_eq)

section \<open>Properties\<close>

text \<open>
  C20. \<open>strcmp\<close> returns for every pair of terminated strings and compares them as the C
  standard says: 0 exactly for equal strings, and a negative number exactly when the first
  comes before the second in the lexicographic order of unsigned bytes.
\<close>

theorem strcmp_correct:
  assumes "cstr m p a" and "cstr m q b"
  shows "\<exists>r. strcmp m p q = Some r \<and> (r = 0 \<longleftrightarrow> a = b) \<and> (r < 0 \<longleftrightarrow> a < b)"
  using strcmp_eq [OF assms] .

theorem strcmp_correct_witness:
  "\<exists>r. strcmp (\<lambda>a. if a = 0 then 65 else if a = 2 then 200 else 0) 0 2 = Some r \<and> r < 0"
proof -
  let ?m = "\<lambda>a :: nat. if a = 0 then 65 else if a = 2 then 200 else 0 :: u8"
  have "cstr ?m 0 [65]" "cstr ?m 2 [200]" by simp_all
  from strcmp_correct [OF this] show ?thesis by (auto simp: word_less_def)
qed



text \<open>
  The scans measure what they should: \<open>strspn\<close> gives the length of the longest prefix
  made of accepted bytes, \<open>strnlen\<close> the length of the string or the limit, whichever is
  smaller, and \<open>strndup\<close>, when \<open>malloc\<close> gives memory that does not overlap the source, a
  terminated copy of that much of the string and nothing else; out of memory it writes
  nothing.
\<close>

theorem string_scans_correct:
  assumes "cstr m s str" and "cstr m accept acc"
  shows "strspn m s accept = Some (length (takeWhile (\<lambda>c. c \<in> set acc) str)) \<and>
    strnlen m s n = min n (length str) \<and>
    (case strndup malloc s n m of (out, m') \<Rightarrow>
       if out = 0 then m' = m
       else out + min n (length str) < s \<or> s + length str < out \<longrightarrow>
         cstr m' out (take n str) \<and> (\<forall>a. a < out \<or> out + min n (length str) < a \<longrightarrow> m' a = m a))"
proof (intro conjI)
  show "strspn m s accept = Some (length (takeWhile (\<lambda>c. c \<in> set acc) str))"
    using strspn_from_eq [OF assms(2), of s 0 str] assms(1) by (simp add: strspn_def)
  define len where "len = min n (length str)"
  define out where "out = malloc (len + 1)"
  define m1 where "m1 = (fold (\<lambda>i m. m(out + i := m (s + i))) [0..<len] m)(out + len := 0)"
  have l: "strnlen_from m s 0 n = len" using strnlen_from_eq [of m s 0 str n] assms(1) by (simp add: len_def)
  then show "strnlen m s n = min n (length str)" by (simp add: strnlen_def len_def)
  have eq: "strndup malloc s n m = (if out = 0 then (0, m) else (out, m1))"
    by (simp add: strndup_def l Let_def out_def m1_def)
  have "cstr m1 out (take n str) \<and> (\<forall>a. a < out \<or> out + len < a \<longrightarrow> m1 a = m a)"
    if apart: "out + len < s \<or> s + length str < out"
  proof -
    have "out + len \<le> s \<or> s + len \<le> out" using apart by (auto simp: len_def)
    from fold_copy [OF this, of m]
    have f: "m1 a = (if a = out + len then 0 else if out \<le> a \<and> a < out + len then m (s + (a - out)) else m a)"
      for a by (simp add: m1_def)
    have "length (take n str) = len" "0 \<notin> set (take n str)"
      using assms(1) by (auto simp: len_def cstr_iff dest: in_set_takeD)
    then have "cstr m1 out (take n str)" using assms(1) by (simp add: cstr_iff f)
    then show ?thesis by (simp add: f)
  qed
  then show "case strndup malloc s n m of (out, m') \<Rightarrow>
       if out = 0 then m' = m
       else out + min n (length str) < s \<or> s + length str < out \<longrightarrow>
         cstr m' out (take n str) \<and> (\<forall>a. a < out \<or> out + min n (length str) < a \<longrightarrow> m' a = m a)"
    unfolding eq len_def [symmetric] by simp
qed

theorem string_scans_correct_witness:
  "strspn (\<lambda>a. if a < 3 then 44 else if a = 3 then 65 else if a = 8 then 44 else 0) 0 8 = Some 3"
proof -
  let ?m = "\<lambda>a :: nat. if a < 3 then 44 else if a = 3 then 65 else if a = 8 then 44 else 0 :: u8"
  have "cstr ?m 0 [44, 44, 44, 65]" "cstr ?m 8 [44]" by simp_all
  from string_scans_correct [OF this] show ?thesis by simp
qed

end
