(* ===== verification/Files.thy ===== *)
theory Files
  imports Prelude
begin

text \<open>
  The working directory, \<open>stat\<close> and the directory walk of \<open>src/src/runtime/libc_absent.c\<close>.
  The SDK's file calls are the parameter \<open>fs\<close>: which paths exist, which can be opened for
  reading, the size of a file, and the canonical form of an absolute path; \<open>fs_path_max\<close> is
  the platform's \<open>PATH_MAX\<close> and \<open>fs_name_max\<close> the room for a name in a \<open>dirent\<close>, without its
  terminator. An error is the \<open>errno\<close> the call sets. The static buffers hold C strings.
\<close>

record fs =
  fs_exists :: "string \<Rightarrow> bool"
  fs_opens :: "string \<Rightarrow> bool"
  fs_file_size :: "string \<Rightarrow> int"
  fs_resolve_path :: "string \<Rightarrow> string"
  fs_path_max :: nat
  fs_name_max :: nat

section \<open>The working directory\<close>

definition cwd_init :: string where
  "cwd_init = ''/app0''"

text \<open>\<open>snprintf\<close> into a buffer of \<open>PATH_MAX\<close> bytes: the text, or \<open>None\<close> when it is cut.\<close>

definition snprintf_path :: "fs \<Rightarrow> string \<Rightarrow> string option" where
  "snprintf_path f s = (if fs_path_max f \<le> length s then None else Some s)"

definition oops_mesa_absolute_path :: "fs \<Rightarrow> string \<Rightarrow> string \<Rightarrow> string" where
  "oops_mesa_absolute_path f s_cwd path =
     (if path = [] \<or> hd path \<noteq> CHR ''/''
      then (case snprintf_path f (s_cwd @ ''/'' @ path) of
              None \<Rightarrow> path
            | Some joined \<Rightarrow> fs_resolve_path f joined)
      else fs_resolve_path f path)"

text \<open>
  \<open>getcwd(buf, size)\<close>: the text stored and the bytes of a fresh allocation, if one is made.
  \<open>buf\<close> is whether the caller gives a buffer and \<open>alloc\<close> whether \<open>malloc\<close> gives that many bytes.
\<close>

definition getcwd :: "(nat \<Rightarrow> bool) \<Rightarrow> bool \<Rightarrow> nat \<Rightarrow> string \<Rightarrow> errno + string \<times> nat option" where
  "getcwd alloc buf sz s_cwd =
     (let len = length s_cwd + 1 in
      if \<not> buf then (let n = (if len < sz then sz else len) in
                     if alloc n then Inr (s_cwd, Some n) else Inl ENOMEM)
      else if sz = 0 then Inl EINVAL
      else if sz < len then Inl ERANGE
      else Inr (s_cwd, None))"

definition stat_is_directory :: "fs \<Rightarrow> string \<Rightarrow> bool" where
  "stat_is_directory f path =
     (case snprintf_path f (path @ ''/.'') of None \<Rightarrow> False | Some dot \<Rightarrow> fs_opens f dot)"

definition chdir :: "fs \<Rightarrow> string option \<Rightarrow> string \<Rightarrow> errno option \<times> string" where
  "chdir f path s_cwd =
     (case path of
        None \<Rightarrow> (Some ENOENT, s_cwd)
      | Some p \<Rightarrow>
          if p = [] then (Some ENOENT, s_cwd)
          else
            let canon = oops_mesa_absolute_path f s_cwd p in
            if \<not> fs_exists f canon then (Some ENOENT, s_cwd)
            else if \<not> stat_is_directory f canon then (Some ENOTDIR, s_cwd)
            else if fs_path_max f \<le> length canon then (Some ENAMETOOLONG, s_cwd)
            else (None, canon))"

section \<open>stat\<close>

datatype file_type = S_IFDIR | S_IFREG

record stat_buf =
  st_nlink :: nat
  st_type :: file_type
  st_perm :: nat
  st_size :: int

definition stat :: "fs \<Rightarrow> string \<Rightarrow> string option \<Rightarrow> errno + stat_buf" where
  "stat f s_cwd path =
     (case path of
        None \<Rightarrow> Inl EFAULT
      | Some p0 \<Rightarrow>
          let p = oops_mesa_absolute_path f s_cwd p0 in
          if \<not> fs_exists f p then Inl ENOENT
          else if stat_is_directory f p
          then Inr \<lparr>st_nlink = 1, st_type = S_IFDIR, st_perm = 493, st_size = 0\<rparr>
          else let sz = fs_file_size f p
               in Inr \<lparr>st_nlink = 1, st_type = S_IFREG, st_perm = 420, st_size = (if 0 < sz then sz else 0)\<rparr>)"


section \<open>The directory walk\<close>

text \<open>
  The SDK's reader is a function \<open>rd\<close> from a handle to the next result and the handle
  afterwards. A \<open>DIR\<close> owns its handle, the count of entries so far and the entry the last call
  returned.
\<close>

datatype readdir_result = Entry string bool | EndOfDir | ReadError

datatype dirent_type = DT_DIR | DT_REG

record dirent =
  d_fileno :: u64
  d_type :: dirent_type
  d_namlen :: nat
  d_name :: string

record 'h dirdesc =
  dd_dir :: 'h
  dd_ent :: "dirent option"
  dd_next :: u64

definition opendir ::
    "fs \<Rightarrow> (string \<Rightarrow> 'h option) \<Rightarrow> bool \<Rightarrow> string \<Rightarrow> string option \<Rightarrow> errno + 'h dirdesc" where
  "opendir f open_dir alloc s_cwd name =
     (case name of
        None \<Rightarrow> Inl EFAULT
      | Some n \<Rightarrow>
          if \<not> alloc then Inl ENOMEM
          else (case open_dir (oops_mesa_absolute_path f s_cwd n) of
                  None \<Rightarrow> Inl ENOENT
                | Some h \<Rightarrow> Inr \<lparr>dd_dir = h, dd_ent = None, dd_next = 0\<rparr>))"

text \<open>The entry returned, the \<open>errno\<close> set, and the \<open>DIR\<close> afterwards.\<close>

definition readdir ::
    "fs \<Rightarrow> ('h \<Rightarrow> readdir_result \<times> 'h) \<Rightarrow> 'h dirdesc \<Rightarrow> (dirent option \<times> errno option) \<times> 'h dirdesc" where
  "readdir f rd d =
     (let (res, h) = rd (dd_dir d); d1 = d\<lparr>dd_dir := h\<rparr> in
      case res of
        EndOfDir \<Rightarrow> ((None, None), d1)
      | ReadError \<Rightarrow> ((None, Some EIO), d1)
      | Entry name is_dir \<Rightarrow>
          let len = min (length name) (fs_name_max f);
              e = \<lparr>d_fileno = dd_next d + 1, d_type = (if is_dir then DT_DIR else DT_REG),
                   d_namlen = len, d_name = take len name\<rparr>
          in ((Some e, None), d1\<lparr>dd_next := dd_next d + 1, dd_ent := Some e\<rparr>))"

text \<open>\<open>close_dir\<close> is the SDK's call; the descriptor is freed whatever it answers.\<close>

definition closedir :: "('h \<Rightarrow> int) \<Rightarrow> 'h dirdesc option \<Rightarrow> int \<times> errno option" where
  "closedir close_dir dirp = (case dirp of None \<Rightarrow> (- 1, Some EBADF) | Some d \<Rightarrow> (close_dir (dd_dir d), None))"

text \<open>The walk every caller makes: read until there is nothing, at most \<open>k\<close> times.\<close>

fun walk :: "fs \<Rightarrow> ('h \<Rightarrow> readdir_result \<times> 'h) \<Rightarrow> nat \<Rightarrow> 'h dirdesc \<Rightarrow> dirent list \<times> errno option" where
  "walk f rd 0 d = ([], None)"
| "walk f rd (Suc k) d =
     (case readdir f rd d of
        ((None, e), d') \<Rightarrow> ([], e)
      | ((Some x, e), d') \<Rightarrow> let (xs, e') = walk f rd k d' in (x # xs, e'))"

text \<open>A reader that gives the entries \<open>es\<close> and then the end.\<close>

fun gives :: "('h \<Rightarrow> readdir_result \<times> 'h) \<Rightarrow> 'h \<Rightarrow> (string \<times> bool) list \<Rightarrow> bool" where
  "gives rd h [] \<longleftrightarrow> fst (rd h) = EndOfDir"
| "gives rd h ((n, b) # es) \<longleftrightarrow> fst (rd h) = Entry n b \<and> gives rd (snd (rd h)) es"

fun dirents :: "fs \<Rightarrow> u64 \<Rightarrow> (string \<times> bool) list \<Rightarrow> dirent list" where
  "dirents f i [] = []"
| "dirents f i ((n, b) # es) = \<lparr>d_fileno = i + 1, d_type = (if b then DT_DIR else DT_REG),
     d_namlen = min (length n) (fs_name_max f), d_name = take (fs_name_max f) n\<rparr> # dirents f (i + 1) es"

lemma walk_dirents:
  assumes "gives rd (dd_dir d) es" and "length es < k"
  shows "walk f rd k d = (dirents f (dd_next d) es, None)"
  using assms
proof (induction es arbitrary: d k)
  case Nil
  then obtain j where "k = Suc j" by (cases k) auto
  with Nil show ?case by (cases "rd (dd_dir d)") (simp add: readdir_def)
next
  case (Cons x es)
  obtain n b where x: "x = (n, b)" by fastforce
  obtain j where k: "k = Suc j" "length es < j" using Cons.prems(2) by (cases k) auto
  obtain h where h: "rd (dd_dir d) = (Entry n b, h)" "gives rd h es"
    using Cons.prems(1) x by (cases "rd (dd_dir d)") auto
  let ?e = "\<lparr>d_fileno = dd_next d + 1, d_type = (if b then DT_DIR else DT_REG),
      d_namlen = min (length n) (fs_name_max f), d_name = take (fs_name_max f) n\<rparr>"
  let ?d = "d\<lparr>dd_dir := h, dd_next := dd_next d + 1, dd_ent := Some ?e\<rparr>"
  have "readdir f rd d = ((Some ?e, None), ?d)" using h(1) by (simp add: readdir_def Let_def min_def)
  moreover have "walk f rd j ?d = (dirents f (dd_next d + 1) es, None)" using Cons.IH [of ?d j] h(2) k(2) by simp
  ultimately show ?case by (simp add: k x)
qed

lemma dirents_fields:
  "map d_name (dirents f i es) = map (take (fs_name_max f) \<circ> fst) es"
  "map d_type (dirents f i es) = map ((\<lambda>b. if b then DT_DIR else DT_REG) \<circ> snd) es"
  "map d_fileno (dirents f i es) = map (\<lambda>k. i + 1 + of_nat k) [0..<length es]"
proof (induction es arbitrary: i)
  case (Cons x es)
  {
    case 3
    have "[0..<Suc (length es)] = 0 # map Suc [0..<length es]" by (metis map_Suc_upt upt_conv_Cons zero_less_Suc)
    then show ?case using Cons(3) [of "i + 1"] by (cases x) (simp add: ac_simps)
  }
qed auto

section \<open>Properties\<close>

definition absolute :: "string \<Rightarrow> bool" where
  "absolute p \<longleftrightarrow> p \<noteq> [] \<and> hd p = CHR ''/''"

text \<open>
  What the SDK documents of its calls: the canonical form of an absolute path is absolute, and
  a relative path names nothing (the platform keeps no working directory).
\<close>

definition fs_ok :: "fs \<Rightarrow> bool" where
  "fs_ok f \<longleftrightarrow> (\<forall>p. absolute p \<longrightarrow> absolute (fs_resolve_path f p)) \<and> (\<forall>p. fs_exists f p \<longrightarrow> absolute p) \<and>
     6 \<le> fs_path_max f"

definition cwd_ok :: "fs \<Rightarrow> string \<Rightarrow> bool" where
  "cwd_ok f s_cwd \<longleftrightarrow> absolute s_cwd \<and> length s_cwd < fs_path_max f"

text \<open>A file system with the directories \<open>/app0\<close> and \<open>/app0/data\<close>.\<close>

definition sample_fs :: fs where
  "sample_fs = \<lparr>fs_exists = (\<lambda>p. p \<in> {''/app0'', ''/app0/data''}),
     fs_opens = (\<lambda>p. p \<in> {''/app0/.'', ''/app0/data/.''}), fs_file_size = (\<lambda>_. 0),
     fs_resolve_path = (\<lambda>p. p), fs_path_max = 1024, fs_name_max = 255\<rparr>"

lemma sample_fs_ok: "fs_ok sample_fs"
  by (auto simp: fs_ok_def sample_fs_def absolute_def)

lemma sample_absolute: "oops_mesa_absolute_path sample_fs cwd_init ''data'' = ''/app0/data''"
  by (simp add: oops_mesa_absolute_path_def snprintf_path_def sample_fs_def cwd_init_def)

lemma sample_chdir: "chdir sample_fs (Some ''data'') cwd_init = (None, ''/app0/data'')"
  by (simp add: chdir_def oops_mesa_absolute_path_def stat_is_directory_def snprintf_path_def sample_fs_def
      cwd_init_def)

lemma chdir_result:
  "chdir f path s_cwd = (e, s') \<Longrightarrow> e \<noteq> None \<and> s' = s_cwd \<or>
     e = None \<and> (\<exists>p. path = Some p \<and> s' = oops_mesa_absolute_path f s_cwd p) \<and> fs_exists f s' \<and>
       stat_is_directory f s' \<and> length s' < fs_path_max f"
  by (auto simp: chdir_def Let_def split: option.splits if_splits)

lemma chdir_cwd_ok:
  assumes "fs_ok f" and "cwd_ok f s_cwd"
  shows "cwd_ok f (snd (chdir f path s_cwd))"
  using chdir_result [of f path s_cwd] assms by (cases "chdir f path s_cwd") (auto simp: cwd_ok_def fs_ok_def)



text \<open>
  A relative name is taken against the working directory: after \<open>chdir\<close> into a
  directory, \<open>stat\<close> and \<open>opendir\<close> of a bare name answer what they answer for the
  directory's path, a slash and the name, for every name that is not absolute and short
  enough to join.
\<close>

theorem relative_names_follow_chdir:
  assumes "fs_ok f" and "chdir f (Some dir) s0 = (None, s)" and "\<not> absolute name"
    and "length s + 1 + length name < fs_path_max f"
  shows "stat f s (Some name) = stat f s' (Some (s @ ''/'' @ name)) \<and>
    opendir f od alloc s (Some name) = opendir f od alloc s' (Some (s @ ''/'' @ name))"
proof -
  have "absolute s" using chdir_result [OF assms(2)] assms(1) by (auto simp: fs_ok_def)
  then have a: "absolute (s @ ''/'' @ name)" by (simp add: absolute_def)
  have "oops_mesa_absolute_path f s name = fs_resolve_path f (s @ ''/'' @ name)"
    using assms(3,4) by (simp add: oops_mesa_absolute_path_def absolute_def snprintf_path_def)
  moreover have "oops_mesa_absolute_path f s' (s @ ''/'' @ name) = fs_resolve_path f (s @ ''/'' @ name)"
    using a by (simp add: oops_mesa_absolute_path_def absolute_def)
  ultimately show ?thesis by (simp add: stat_def opendir_def)
qed

theorem relative_names_follow_chdir_witness:
  "stat sample_fs ''/app0/data'' (Some ''x'') = stat sample_fs ''/app0'' (Some ''/app0/data/x'')"
  using relative_names_follow_chdir [OF sample_fs_ok sample_chdir, of "''x''" "''/app0''" "\<lambda>_. None :: nat option" True]
  by (simp add: absolute_def sample_fs_def)



text \<open>A reader over a list of names.\<close>

definition list_reader :: "(string \<times> bool) list \<Rightarrow> readdir_result \<times> (string \<times> bool) list" where
  "list_reader h = (case h of [] \<Rightarrow> (EndOfDir, []) | (n, b) # h' \<Rightarrow> (Entry n b, h'))"


end
