(* ===== verification/Emutls.thy ===== *)
theory Emutls
  imports Prelude
begin

text \<open>
  The emulated thread-local storage of \<open>src/src/runtime/emutls.c\<close>. The heap holds the arrays
  of object pointers and the objects; a pointer is a number and 0 is null. The allocator and
  \<open>pthread_setspecific\<close> are parameters. \<open>None\<close> is a run that reads memory that is not a live
  array. An access is one step: the index of a control record is assigned under
  \<open>s_index_lock\<close>, and everything else an access touches belongs to the calling thread.
  \<open>uintptr_t\<close> indices are natural numbers: one is used per control record of the program.
\<close>

section \<open>State\<close>

datatype block = Words "nat list" | Bytes "u8 list"

type_synonym heap = "nat \<Rightarrow> block option"

record emutls_control =
  ct_size :: nat
  ct_align :: nat
  ct_value :: "u8 list option"

record emutls =
  em_heap :: heap
  em_key :: "nat \<Rightarrow> nat"
  em_index :: "nat \<Rightarrow> nat"
  em_next_index :: nat

definition emutls_init :: emutls where
  "emutls_init = \<lparr>em_heap = (\<lambda>_. None), em_key = (\<lambda>_. 0), em_index = (\<lambda>_. 0), em_next_index = 0\<rparr>"

text \<open>
  \<open>al_realloc h p n\<close> and \<open>al_memalign h a n\<close> give an address or 0; \<open>al_setspecific h\<close> is whether
  \<open>pthread_setspecific\<close> succeeds.
\<close>

record allocator =
  al_realloc :: "heap \<Rightarrow> nat \<Rightarrow> nat \<Rightarrow> nat"
  al_memalign :: "heap \<Rightarrow> nat \<Rightarrow> nat \<Rightarrow> nat"
  al_setspecific :: "heap \<Rightarrow> bool"

section \<open>Operations\<close>

definition emutls_array_for :: "allocator \<Rightarrow> nat \<Rightarrow> nat \<Rightarrow> emutls \<Rightarrow> (nat \<times> emutls) option" where
  "emutls_array_for al t index s =
     (let array = em_key s t in
      case (if array \<noteq> 0 then (case em_heap s array of Some (Words ws) \<Rightarrow> Some ws | _ \<Rightarrow> None) else Some [0]) of
        None \<Rightarrow> None
      | Some ws \<Rightarrow>
          let have_n = hd ws in
          if index \<le> have_n then Some (array, s)
          else
            let grown = al_realloc al (em_heap s) array ((index + 1) * 8) in
            if grown = 0 then Some (0, s)
            else
              let ws1 = index # take have_n (tl ws) @ replicate (index - have_n) 0;
                  h1 = (em_heap s)(array := None, grown := Some (Words ws1))
              in if \<not> al_setspecific al h1 then Some (0, s\<lparr>em_heap := h1(grown := None)\<rparr>)
                 else Some (grown, s\<lparr>em_heap := h1, em_key := (em_key s)(t := grown)\<rparr>))"

definition emutls_allocate :: "allocator \<Rightarrow> emutls_control \<Rightarrow> heap \<Rightarrow> nat \<times> heap" where
  "emutls_allocate al control h =
     (let align = (if ct_align control < 8 then 8 else ct_align control);
          object = al_memalign al h align (if ct_size control \<noteq> 0 then ct_size control else 1)
      in if object = 0 then (0, h)
         else (object, h(object := Some (Bytes
                (case ct_value control of
                   Some v \<Rightarrow> take (ct_size control) v
                 | None \<Rightarrow> replicate (ct_size control) 0)))))"

text \<open>\<open>ctl\<close> reads the constant part of a control record; \<open>c\<close> is its address, 0 when null.\<close>

definition emutls_get_address ::
    "allocator \<Rightarrow> (nat \<Rightarrow> emutls_control) \<Rightarrow> nat \<Rightarrow> nat \<Rightarrow> emutls \<Rightarrow> (nat \<times> emutls) option" where
  "emutls_get_address al ctl t c s =
     (if c = 0 then Some (0, s)
      else
        let s1 = (if em_index s c = 0
                  then s\<lparr>em_next_index := em_next_index s + 1, em_index := (em_index s)(c := em_next_index s + 1)\<rparr>
                  else s);
            index = em_index s1 c
        in case emutls_array_for al t index s1 of
             None \<Rightarrow> None
           | Some (array, s2) \<Rightarrow>
               if array = 0 then Some (0, s2)
               else (case em_heap s2 array of
                       Some (Words ws) \<Rightarrow>
                         if ws ! index = 0
                         then let (object, h) = emutls_allocate al (ctl c) (em_heap s2) in
                              if object = 0 then Some (0, s2\<lparr>em_heap := h\<rparr>)
                              else Some (object, s2\<lparr>em_heap := h(array := Some (Words (ws[index := object])))\<rparr>)
                         else Some (ws ! index, s2)
                     | _ \<Rightarrow> None))"

text \<open>\<open>free(0)\<close> does nothing. The key is cleared by the platform before the destructor runs.\<close>

definition free_block :: "nat \<Rightarrow> heap \<Rightarrow> heap" where
  "free_block p h = (if p = 0 then h else h(p := None))"

definition emutls_thread_cleanup :: "nat \<Rightarrow> emutls \<Rightarrow> emutls option" where
  "emutls_thread_cleanup t s =
     (let array = em_key s t in
      if array = 0 then Some s
      else (case em_heap s array of
              Some (Words ws) \<Rightarrow>
                let h1 = fold (\<lambda>i h. free_block (ws ! i) h) [1..<hd ws + 1] (em_heap s)
                in Some (s\<lparr>em_heap := free_block array h1, em_key := (em_key s)(t := 0)\<rparr>)
            | _ \<Rightarrow> None))"

section \<open>Invariant\<close>

text \<open>The object pointer a thread holds at an index, 0 when it has none.\<close>

definition slot :: "emutls \<Rightarrow> nat \<Rightarrow> nat \<Rightarrow> nat" where
  "slot s t i =
     (case em_heap s (em_key s t) of
        Some (Words ws) \<Rightarrow> if em_key s t \<noteq> 0 \<and> 0 < i \<and> i < length ws then ws ! i else 0
      | _ \<Rightarrow> 0)"

lemma slot_cong:
  assumes "em_key s' t = em_key s t" and "em_heap s' (em_key s t) = em_heap s (em_key s t)"
  shows "slot s' t i = slot s t i"
  unfolding slot_def assms ..

definition em_inv :: "emutls \<Rightarrow> bool" where
  "em_inv s \<longleftrightarrow>
     em_heap s 0 = None \<and>
     (\<forall>t. em_key s t \<noteq> 0 \<longrightarrow> (\<exists>ws. em_heap s (em_key s t) = Some (Words (length ws # ws)))) \<and>
     (\<forall>t t'. em_key s t \<noteq> 0 \<longrightarrow> em_key s t = em_key s t' \<longrightarrow> t = t') \<and>
     (\<forall>t i. slot s t i \<noteq> 0 \<longrightarrow> (\<exists>bs. em_heap s (slot s t i) = Some (Bytes bs))) \<and>
     (\<forall>t i t' j. slot s t i \<noteq> 0 \<longrightarrow> slot s t i = slot s t' j \<longrightarrow> t = t' \<and> i = j) \<and>
     (\<forall>p ws. em_heap s p = Some (Words ws) \<longrightarrow> (\<exists>t. em_key s t = p)) \<and>
     (\<forall>p bs. em_heap s p = Some (Bytes bs) \<longrightarrow> (\<exists>t i. slot s t i = p)) \<and>
     (\<forall>c. em_index s c \<le> em_next_index s) \<and>
     (\<forall>c d. em_index s c \<noteq> 0 \<longrightarrow> em_index s c = em_index s d \<longrightarrow> c = d) \<and>
     (\<forall>t i. slot s t i \<noteq> 0 \<longrightarrow> i \<le> em_next_index s)"

lemma em_invD:
  assumes "em_inv s"
  shows "em_heap s 0 = None"
    and "em_key s t \<noteq> 0 \<Longrightarrow> \<exists>ws. em_heap s (em_key s t) = Some (Words (length ws # ws))"
    and "em_key s t \<noteq> 0 \<Longrightarrow> em_key s t = em_key s t' \<Longrightarrow> t = t'"
    and "slot s t i \<noteq> 0 \<Longrightarrow> \<exists>bs. em_heap s (slot s t i) = Some (Bytes bs)"
    and "slot s t i \<noteq> 0 \<Longrightarrow> slot s t i = slot s t' j \<Longrightarrow> t = t' \<and> i = j"
    and "em_heap s p = Some (Words ws) \<Longrightarrow> \<exists>t. em_key s t = p"
    and "em_heap s p = Some (Bytes bs) \<Longrightarrow> \<exists>t i. slot s t i = p"
    and "em_index s c \<le> em_next_index s"
    and "em_index s c \<noteq> 0 \<Longrightarrow> em_index s c = em_index s d \<Longrightarrow> c = d"
    and "slot s t i \<noteq> 0 \<Longrightarrow> i \<le> em_next_index s"
  using assms unfolding em_inv_def by (blast, blast, blast, blast, blast, blast, blast, blast, blast, blast)

lemma em_invI:
  assumes "em_heap s 0 = None"
    and "\<And>t. em_key s t \<noteq> 0 \<Longrightarrow> \<exists>ws. em_heap s (em_key s t) = Some (Words (length ws # ws))"
    and "\<And>t t'. em_key s t \<noteq> 0 \<Longrightarrow> em_key s t = em_key s t' \<Longrightarrow> t = t'"
    and "\<And>t i. slot s t i \<noteq> 0 \<Longrightarrow> \<exists>bs. em_heap s (slot s t i) = Some (Bytes bs)"
    and "\<And>t i t' j. slot s t i \<noteq> 0 \<Longrightarrow> slot s t i = slot s t' j \<Longrightarrow> t = t' \<and> i = j"
    and "\<And>p ws. em_heap s p = Some (Words ws) \<Longrightarrow> \<exists>t. em_key s t = p"
    and "\<And>p bs. em_heap s p = Some (Bytes bs) \<Longrightarrow> \<exists>t i. slot s t i = p"
    and "\<And>c. em_index s c \<le> em_next_index s"
    and "\<And>c d. em_index s c \<noteq> 0 \<Longrightarrow> em_index s c = em_index s d \<Longrightarrow> c = d"
    and "\<And>t i. slot s t i \<noteq> 0 \<Longrightarrow> i \<le> em_next_index s"
  shows "em_inv s"
  unfolding em_inv_def using assms by (intro conjI allI impI) blast+

lemma em_inv_init: "em_inv emutls_init"
  by (rule em_invI) (simp_all add: emutls_init_def slot_def)

text \<open>What the C library documents of its allocator: a block is fresh, or \<open>realloc\<close> grew it in place.\<close>

definition allocator_ok :: "allocator \<Rightarrow> bool" where
  "allocator_ok al \<longleftrightarrow>
     (\<forall>h p n. al_realloc al h p n \<noteq> 0 \<longrightarrow> h (al_realloc al h p n) = None \<or> al_realloc al h p n = p) \<and>
     (\<forall>h a n. al_memalign al h a n \<noteq> 0 \<longrightarrow> h (al_memalign al h a n) = None)"

section \<open>Growing a thread's array\<close>

lemma array_for_ok:
  assumes inv: "em_inv s" and ok: "allocator_ok al" and key: "\<And>h. al_setspecific al h" and index: "0 < index"
  obtains (no_memory) "emutls_array_for al t index s = Some (0, s)"
  | (array) a s' ws where "emutls_array_for al t index s = Some (a, s')" "a \<noteq> 0" "em_inv s'" "em_key s' t = a"
      "em_heap s' a = Some (Words (length ws # ws))" "index \<le> length ws" "slot s' = slot s"
      "em_index s' = em_index s" "\<And>p bs. em_heap s' p = Some (Bytes bs) \<longleftrightarrow> em_heap s p = Some (Bytes bs)"
proof -
  let ?a = "em_key s t"
  obtain old where old: "?a \<noteq> 0 \<longrightarrow> em_heap s ?a = Some (Words (length old # old))" "?a = 0 \<longrightarrow> old = []"
    using em_invD(2) [OF inv, of t] by (cases "?a = 0") auto
  have ws: "(if ?a \<noteq> 0 then (case em_heap s ?a of Some (Words ws) \<Rightarrow> Some ws | _ \<Rightarrow> None) else Some [0]) =
      Some (length old # old)" using old by simp
  show thesis
  proof (cases "index \<le> length old")
    case True
    then have "?a \<noteq> 0" using old index by auto
    moreover from True have "emutls_array_for al t index s = Some (?a, s)"
      unfolding emutls_array_for_def Let_def ws by simp
    ultimately show thesis using array [of ?a s old] inv old True by simp
  next
    case False
    let ?g = "al_realloc al (em_heap s) ?a ((index + 1) * 8)"
    let ?new = "old @ replicate (index - length old) 0"
    let ?h = "(em_heap s)(?a := None, ?g := Some (Words (index # ?new)))"
    let ?s = "s\<lparr>em_heap := ?h, em_key := (em_key s)(t := ?g)\<rparr>"
    show thesis
    proof (cases "?g = 0")
      case True
      then have "emutls_array_for al t index s = Some (0, s)"
        unfolding emutls_array_for_def Let_def ws using False by simp
      then show thesis by (rule no_memory)
    next
      case g: False
      have fresh: "em_heap s ?g = None \<or> ?g = ?a" using ok g by (auto simp: allocator_ok_def)
      have res: "emutls_array_for al t index s = Some (?g, ?s)"
        unfolding emutls_array_for_def Let_def ws using False g key by simp
      have len: "length ?new = index" using False by simp
      have gk: "em_key s t' \<noteq> ?g" if "t' \<noteq> t" for t'
        using that fresh g em_invD(2,3) [OF inv, of t'] by fastforce
      have ak: "em_key s t' \<noteq> ?a" if "t' \<noteq> t" "?a \<noteq> 0" for t' using that em_invD(3) [OF inv] by metis
      have other: "em_heap ?s (em_key s t') = em_heap s (em_key s t')" if "t' \<noteq> t" for t'
        using gk [OF that] ak [OF that] em_invD(1) [OF inv] by (cases "?a = 0") auto
      have slot: "slot ?s t' i = slot s t' i" for t' i
      proof (cases "t' = t")
        case True
        have "slot ?s t i = (if 0 < i \<and> i < Suc index then (index # ?new) ! i else 0)"
          using g len by (simp add: slot_def)
        also have "\<dots> = (if 0 < i \<and> i < Suc (length old) then (length old # old) ! i else 0)"
          using False by (auto simp: nth_append nth_Cons split: nat.splits)
        also have "\<dots> = slot s t i" using old by (cases "?a = 0") (auto simp: slot_def em_invD(1) [OF inv])
        finally show ?thesis using True by simp
      next
        case False
        then show ?thesis using other [OF False] by (intro slot_cong) simp_all
      qed
      have bytes: "em_heap ?s p = Some (Bytes bs) \<longleftrightarrow> em_heap s p = Some (Bytes bs)" for p bs
        using fresh old(1) em_invD(1) [OF inv] by (cases "?a = 0") auto
      have inv': "em_inv ?s"
      proof (rule em_invI)
        show "em_heap ?s 0 = None" using g em_invD(1) [OF inv] by simp
        show "\<exists>ws. em_heap ?s (em_key ?s t') = Some (Words (length ws # ws))" if "em_key ?s t' \<noteq> 0" for t'
        proof (cases "t' = t")
          case True
          have "em_heap ?s (em_key ?s t) = Some (Words (length ?new # ?new))" using len by simp
          then show ?thesis unfolding True by blast
        next
          case False
          then show ?thesis using that em_invD(2) [OF inv, of t'] other [OF False] by simp
        qed
        show "t1 = t2" if "em_key ?s t1 \<noteq> 0" "em_key ?s t1 = em_key ?s t2" for t1 t2
          using that gk [of t1] gk [of t2] em_invD(3) [OF inv, of t1 t2] by (cases "t1 = t"; cases "t2 = t") auto
        show "\<exists>bs. em_heap ?s (slot ?s t' i) = Some (Bytes bs)" if "slot ?s t' i \<noteq> 0" for t' i
          using em_invD(4) [OF inv, of t' i] that bytes unfolding slot by blast
        show "t1 = t2 \<and> i = j" if "slot ?s t1 i \<noteq> 0" "slot ?s t1 i = slot ?s t2 j" for t1 i t2 j
          using em_invD(5) [OF inv, of t1 i t2 j] that unfolding slot by blast
        show "\<exists>t'. em_key ?s t' = p" if "em_heap ?s p = Some (Words ws)" for p ws
        proof (cases "p = ?g")
          case True
          then show ?thesis by (intro exI [of _ t]) simp
        next
          case False
          then have "p \<noteq> ?a" "em_heap s p = Some (Words ws)" using that by (auto split: if_splits)
          then obtain t' where "em_key s t' = p" "t' \<noteq> t" using em_invD(6) [OF inv] by blast
          then show ?thesis by (intro exI [of _ t']) simp
        qed
        show "\<exists>t' i. slot ?s t' i = p" if "em_heap ?s p = Some (Bytes bs)" for p bs
          using em_invD(7) [OF inv] that bytes unfolding slot by blast
        show "i \<le> em_next_index ?s" if "slot ?s t' i \<noteq> 0" for t' i
          using em_invD(10) [OF inv, of t' i] that unfolding slot by simp
      qed (use em_invD(8,9) [OF inv] in simp_all)
      show thesis
        by (rule array [of ?g ?s ?new]) (use res g inv' len bytes slot in \<open>simp_all add: fun_eq_iff\<close>)
    qed
  qed
qed


section \<open>Accesses\<close>

text \<open>Storing a fresh object at an index of a thread's array.\<close>

lemma store_object:
  assumes inv: "em_inv s" and a: "em_key s t = a" "a \<noteq> 0" "em_heap s a = Some (Words (length ws # ws))"
    and i: "0 < index" "index \<le> length ws" "(length ws # ws) ! index = 0" "index \<le> em_next_index s"
    and o: "ob \<noteq> 0" "em_heap s ob = None"
    and s': "s' = s\<lparr>em_heap := (em_heap s)(ob := Some (Bytes bs), a := Some (Words ((length ws # ws)[index := ob])))\<rparr>"
  shows "em_inv s'" and "slot s' t' j = (if t' = t \<and> j = index then ob else slot s t' j)"
proof -
  have oa: "ob \<noteq> a" using o a by auto
  have upd: "(length ws # ws)[index := ob] = length ws # ws[index - 1 := ob]" using i by (cases index) simp_all
  have slot: "slot s' t' j = (if t' = t \<and> j = index then ob else slot s t' j)" for t' j
  proof (cases "t' = t")
    case True
    have "slot s t j = (if 0 < j \<and> j < Suc (length ws) then (length ws # ws) ! j else 0)"
      using a by (simp add: slot_def)
    moreover have "slot s' t j = (if 0 < j \<and> j < Suc (length ws) then ((length ws # ws)[index := ob]) ! j else 0)"
      using a oa by (simp add: slot_def s' del: list_update.simps)
    ultimately show ?thesis using True i by (auto simp: nth_list_update simp del: list_update.simps)
  next
    case False
    then have "em_key s t' \<noteq> a \<or> em_key s t' = 0" using em_invD(3) [OF inv, of t t'] a by auto
    moreover have "em_key s t' \<noteq> ob" if "em_key s t' \<noteq> 0" using em_invD(2) [OF inv that] o(2) by auto
    ultimately have "slot s' t' j = slot s t' j"
      using a(2) o(1) by (intro slot_cong) (auto simp: s')
    then show ?thesis using False by simp
  qed
  then show "slot s' t' j = (if t' = t \<and> j = index then ob else slot s t' j)" .
  have s0: "slot s t index = 0" using a i by (simp add: slot_def)
  have nob: "slot s t' j \<noteq> ob" for t' j using em_invD(4) [OF inv, of t' j] o by auto
  have na: "slot s t' j \<noteq> a" for t' j using em_invD(4) [OF inv, of t' j] a by auto
  show "em_inv s'"
  proof (rule em_invI)
    show "em_heap s' 0 = None" using o(1) a(2) em_invD(1) [OF inv] by (simp add: s')
    show "\<exists>ws. em_heap s' (em_key s' t') = Some (Words (length ws # ws))" if "em_key s' t' \<noteq> 0" for t'
    proof (cases "em_key s t' = a")
      case True
      then show ?thesis by (intro exI [of _ "ws[index - 1 := ob]"]) (simp add: s' upd [unfolded One_nat_def] del: list_update.simps)
    next
      case False
      then show ?thesis using that em_invD(2) [OF inv, of t'] o(2) by (auto simp: s')
    qed
    show "t1 = t2" if "em_key s' t1 \<noteq> 0" "em_key s' t1 = em_key s' t2" for t1 t2
      using that em_invD(3) [OF inv, of t1 t2] by (simp add: s')
    show "\<exists>bs. em_heap s' (slot s' t' j) = Some (Bytes bs)" if "slot s' t' j \<noteq> 0" for t' j
      using that em_invD(4) [OF inv, of t' j] nob [of t' j] na [of t' j] oa unfolding slot by (auto simp: s')
    show "t1 = t2 \<and> j1 = j2" if "slot s' t1 j1 \<noteq> 0" "slot s' t1 j1 = slot s' t2 j2" for t1 j1 t2 j2
      using that em_invD(5) [OF inv, of t1 j1 t2 j2] nob [of t1 j1] nob [of t2 j2] unfolding slot
      by (auto split: if_splits)
    show "\<exists>t'. em_key s' t' = p" if "em_heap s' p = Some (Words vs)" for p vs
      using that em_invD(6) [OF inv, of p] a(1) by (auto simp: s' split: if_splits)
    show "\<exists>t' j. slot s' t' j = p" if "em_heap s' p = Some (Bytes cs)" for p cs
    proof (cases "p = ob")
      case True
      then show ?thesis by (intro exI [of _ t] exI [of _ index]) (simp add: slot)
    next
      case False
      then have "em_heap s p = Some (Bytes cs)" using that by (auto simp: s' split: if_splits)
      then obtain t' j where "slot s t' j = p" using em_invD(7) [OF inv] by blast
      moreover have "p \<noteq> 0" using \<open>em_heap s p = Some (Bytes cs)\<close> em_invD(1) [OF inv] by (metis option.distinct(1))
      ultimately show ?thesis using s0 by (intro exI [of _ t'] exI [of _ j]) (auto simp: slot)
    qed
    show "j \<le> em_next_index s'" if "slot s' t' j \<noteq> 0" for t' j
      using that em_invD(10) [OF inv, of t' j] i(4) unfolding slot by (auto simp: s' split: if_splits)
  qed (use em_invD(8,9) [OF inv] in \<open>simp_all add: s'\<close>)
qed

text \<open>What an access sees of the state: the address a thread has for a control record.\<close>

definition tls :: "emutls \<Rightarrow> nat \<times> nat \<Rightarrow> nat option" where
  "tls s = (\<lambda>(t, c). if em_index s c = 0 \<or> slot s t (em_index s c) = 0 then None else Some (slot s t (em_index s c)))"

definition object_of :: "emutls \<Rightarrow> nat \<Rightarrow> u8 list option" where
  "object_of s p = (case em_heap s p of Some (Bytes bs) \<Rightarrow> Some bs | _ \<Rightarrow> None)"

definition initial_value :: "emutls_control \<Rightarrow> u8 list" where
  "initial_value ct = (case ct_value ct of Some v \<Rightarrow> take (ct_size ct) v | None \<Rightarrow> replicate (ct_size ct) 0)"

lemma object_of_Some: "object_of s p = Some bs \<longleftrightarrow> em_heap s p = Some (Bytes bs)"
  by (simp add: object_of_def split: option.split block.split)

lemma object_of_cong:
  assumes "\<And>p bs. em_heap s' p = Some (Bytes bs) \<longleftrightarrow> em_heap s p = Some (Bytes bs)"
  shows "object_of s' = object_of s"
proof
  fix p
  have "object_of s' p = Some bs \<longleftrightarrow> object_of s p = Some bs" for bs unfolding object_of_Some by (rule assms)
  then show "object_of s' p = object_of s p" by (metis option.exhaust)
qed

lemma assign_index:
  assumes inv: "em_inv s" and c: "em_index s c = 0"
    and s': "s' = s\<lparr>em_next_index := em_next_index s + 1, em_index := (em_index s)(c := em_next_index s + 1)\<rparr>"
  shows "em_inv s'" and "slot s' = slot s" and "tls s' = tls s"
proof -
  show slot: "slot s' = slot s" by (intro ext slot_cong) (simp_all add: s')
  have heap: "em_heap s' = em_heap s" "em_key s' = em_key s" by (simp_all add: s')
  have le: "em_index s d < em_next_index s + 1" for d using em_invD(8) [OF inv, of d] by simp
  show "em_inv s'"
  proof (rule em_invI)
    show "em_index s' d \<le> em_next_index s'" for d using em_invD(8) [OF inv, of d] by (simp add: s')
    show "d = e" if "em_index s' d \<noteq> 0" "em_index s' d = em_index s' e" for d e
      using that em_invD(9) [OF inv, of d e] le [of d] le [of e] by (auto simp: s' split: if_splits)
    show "i \<le> em_next_index s'" if "slot s' t i \<noteq> 0" for t i
      using that em_invD(10) [OF inv, of t i] unfolding slot by (simp add: s')
  qed (unfold slot heap, use em_invD(1-7) [OF inv] in \<open>blast+\<close>)
  have "slot s t (em_next_index s + 1) = 0" for t using em_invD(10) [OF inv, of t "em_next_index s + 1"] by auto
  moreover have "em_index s' = (em_index s)(c := em_next_index s + 1)" by (simp add: s')
  ultimately show "tls s' = tls s" using c unfolding tls_def slot by (auto simp: fun_eq_iff)
qed


lemma tls_cong: "slot s' = slot s \<Longrightarrow> em_index s' = em_index s \<Longrightarrow> tls s' = tls s"
  unfolding tls_def by (simp only:)

lemma allocate_result:
  assumes "allocator_ok al" and "emutls_allocate al ct h = (ob, h')"
  shows "ob = 0 \<and> h' = h \<or> ob \<noteq> 0 \<and> h ob = None \<and> h' = h(ob := Some (Bytes (initial_value ct)))"
  using assms by (auto simp: emutls_allocate_def allocator_ok_def initial_value_def Let_def split: if_splits)

text \<open>
  One access: it returns; it gives null and keeps every object where it was, or it gives the
  thread's object for the record, which is the one it had, or a fresh one with the record's
  initial value.
\<close>

lemma get_address_step:
  assumes inv: "em_inv s" and ok: "allocator_ok al" and key: "\<And>h. al_setspecific al h" and c: "c \<noteq> 0"
  obtains (null) s' where "emutls_get_address al ctl t c s = Some (0, s')" "em_inv s'" "tls s' = tls s"
      "object_of s' = object_of s"
  | (old) p s' where "emutls_get_address al ctl t c s = Some (p, s')" "em_inv s'" "tls s' = tls s"
      "tls s (t, c) = Some p" "object_of s' = object_of s"
  | (new) p s' where "emutls_get_address al ctl t c s = Some (p, s')" "em_inv s'" "tls s' = (tls s)((t, c) \<mapsto> p)"
      "tls s (t, c) = None" "object_of s p = None" "object_of s' = (object_of s)(p \<mapsto> initial_value (ctl c))"
proof -
  define s1 where "s1 = (if em_index s c = 0
      then s\<lparr>em_next_index := em_next_index s + 1, em_index := (em_index s)(c := em_next_index s + 1)\<rparr> else s)"
  have s1: "em_inv s1" "slot s1 = slot s" "tls s1 = tls s" "em_index s1 c \<noteq> 0" "em_heap s1 = em_heap s"
    using assign_index [OF inv _ refl, of c] inv by (auto simp: s1_def)
  let ?i = "em_index s1 c"
  have run: "emutls_get_address al ctl t c s = (case emutls_array_for al t ?i s1 of
      None \<Rightarrow> None | Some (array, s2) \<Rightarrow> if array = 0 then Some (0, s2)
        else (case em_heap s2 array of
           Some (Words ws) \<Rightarrow>
             if ws ! ?i = 0
             then let (object, h) = emutls_allocate al (ctl c) (em_heap s2) in
                  if object = 0 then Some (0, s2\<lparr>em_heap := h\<rparr>)
                  else Some (object, s2\<lparr>em_heap := h(array := Some (Words (ws[?i := object])))\<rparr>)
             else Some (ws ! ?i, s2)
         | _ \<Rightarrow> None))"
    using c unfolding emutls_get_address_def Let_def s1_def [symmetric] by simp
  have i: "0 < ?i" using s1(4) by simp
  show thesis
  proof (cases rule: array_for_ok [OF s1(1) ok key i, where t = t])
    case 1
    then show thesis using run s1 by (intro null [of s1]) (simp_all add: object_of_def [abs_def])
  next
    case (2 a s2 ws)
    have slot2: "slot s2 t ?i = (length ws # ws) ! ?i" using 2(2,4,5,6) i by (simp add: slot_def)
    have t2: "tls s2 = tls s" using tls_cong [OF 2(7,8)] s1(3) by simp
    have tc: "tls s (t, c) = (if (length ws # ws) ! ?i = 0 then None else Some ((length ws # ws) ! ?i))"
      using slot2 s1(4) 2(8) unfolding t2 [symmetric] by (simp add: tls_def)
    have by2: "object_of s2 = object_of s" using 2(9) s1(5) by (intro object_of_cong) simp
    show thesis
    proof (cases "(length ws # ws) ! ?i = 0")
      case False
      then have "emutls_get_address al ctl t c s = Some ((length ws # ws) ! ?i, s2)" using run 2 by simp
      then show thesis using 2(3) t2 tc False by2 by (intro old [of _ s2]) simp_all
    next
      case True
      obtain ob h where o: "emutls_allocate al (ctl c) (em_heap s2) = (ob, h)" by fastforce
      show thesis
      proof (cases "ob = 0")
        case z: True
        then have "h = em_heap s2" using allocate_result [OF ok o] by simp
        then have "emutls_get_address al ctl t c s = Some (0, s2)" using run 2 True o z by simp
        then show thesis using 2(3) t2 by2 by (intro null [of s2]) simp_all
      next
        case nz: False
        let ?bs = "initial_value (ctl c)"
        have o': "em_heap s2 ob = None" "h = (em_heap s2)(ob := Some (Bytes ?bs))"
          using allocate_result [OF ok o] nz by simp_all
        let ?s3 = "s2\<lparr>em_heap := (em_heap s2)(ob := Some (Bytes ?bs), a := Some (Words ((length ws # ws)[?i := ob])))\<rparr>"
        have nx: "?i \<le> em_next_index s2" using em_invD(8) [OF 2(3), of c] 2(8) by simp
        note S = store_object [OF 2(3) 2(4) 2(2) 2(5) i 2(6) True nx nz o'(1) refl, of ?bs]
        have r: "emutls_get_address al ctl t c s = Some (ob, ?s3)"
          using run 2 True o nz o'(2) by (simp del: list_update.simps)
        have oa: "ob \<noteq> a" using o'(1) 2(5) by auto
        have inj: "em_index s1 d = ?i \<longleftrightarrow> d = c" for d
          using em_invD(9) [OF s1(1) s1(4), of d] by metis
        have ix: "em_index ?s3 = em_index s1" "em_index s2 = em_index s1" using 2(8) by simp_all
        have "tls ?s3 (t', d) = (if t' = t \<and> d = c then Some ob else tls s2 (t', d))" for t' d
          unfolding tls_def prod.case ix S(2) inj using s1(4) nz by simp
        then have "tls ?s3 (t', d) = ((tls s)((t, c) \<mapsto> ob)) (t', d)" for t' d unfolding t2 by simp
        then have t3: "tls ?s3 = (tls s)((t, c) \<mapsto> ob)" by auto
        have "object_of ?s3 = (object_of s2)(ob \<mapsto> ?bs)" "object_of s2 ob = None"
          using oa 2(5) o'(1) by (auto simp: object_of_def fun_eq_iff)
        then have "object_of ?s3 = (object_of s)(ob \<mapsto> ?bs)" "object_of s ob = None" unfolding by2 .
        then show thesis using r S(1) t3 tc True by (intro new [of ob ?s3]) (simp_all del: list_update.simps)
      qed
    qed
  qed
qed

end
