(* ===== verification/Emutls_Props.thy ===== *)
theory Emutls_Props
  imports Emutls
begin

text \<open>
  Histories of accesses and thread exits over the emulated thread-local storage: no history reads
  a freed array, the addresses form a partial map from (thread, record) pairs, and a thread's
  exit gives back what it held and nothing else.
\<close>

section \<open>A thread's exit\<close>

lemma fold_free_block:
  "fold (\<lambda>i h. free_block (f i) h) is h p = (if p \<noteq> 0 \<and> (\<exists>i\<in>set is. f i = p) then None else h p)"
  by (induction "is" arbitrary: h) (auto simp: free_block_def)

lemma thread_cleanup_heap:
  assumes "em_inv s" and "em_key s t \<noteq> 0"
  obtains s' where "emutls_thread_cleanup t s = Some s'" and "em_key s' = (em_key s)(t := 0)"
    and "em_index s' = em_index s" and "em_next_index s' = em_next_index s"
    and "em_heap s' = (\<lambda>p. if p = em_key s t \<or> p \<noteq> 0 \<and> (\<exists>i. slot s t i = p) then None else em_heap s p)"
proof -
  let ?a = "em_key s t"
  obtain ws where ws: "em_heap s ?a = Some (Words (length ws # ws))" using em_invD(2) [OF assms] by blast
  have slot: "slot s t i = (if 0 < i \<and> i < Suc (length ws) then (length ws # ws) ! i else 0)" for i
    using ws assms(2) by (simp add: slot_def)
  have mem: "(\<exists>i\<in>set [1..<length ws + 1]. (length ws # ws) ! i = p) \<longleftrightarrow> (\<exists>i. slot s t i = p)" if "p \<noteq> 0" for p
  proof
    assume "\<exists>i\<in>set [1..<length ws + 1]. (length ws # ws) ! i = p"
    then obtain i where "i \<in> set [1..<length ws + 1]" "(length ws # ws) ! i = p" by blast
    then have "slot s t i = p" unfolding slot by auto
    then show "\<exists>i. slot s t i = p" ..
  next
    assume "\<exists>i. slot s t i = p"
    then obtain i where "slot s t i = p" ..
    with that have "i \<in> set [1..<length ws + 1]" "(length ws # ws) ! i = p" unfolding slot by (auto split: if_splits)
    then show "\<exists>i\<in>set [1..<length ws + 1]. (length ws # ws) ! i = p" by blast
  qed
  let ?h = "\<lambda>p. if p = ?a \<or> p \<noteq> 0 \<and> (\<exists>i. slot s t i = p) then None else em_heap s p"
  have "free_block ?a (fold (\<lambda>i h. free_block ((length ws # ws) ! i) h) [1..<length ws + 1] (em_heap s)) = ?h"
  proof
    fix p
    show "free_block ?a (fold (\<lambda>i h. free_block ((length ws # ws) ! i) h) [1..<length ws + 1] (em_heap s)) p = ?h p"
      using assms(2) mem [of p] unfolding free_block_def [of ?a] fold_free_block by (cases "p = 0") simp_all
  qed
  then have "emutls_thread_cleanup t s = Some (s\<lparr>em_heap := ?h, em_key := (em_key s)(t := 0)\<rparr>)"
    unfolding emutls_thread_cleanup_def Let_def ws using assms(2) by simp
  then show thesis by (rule that) simp_all
qed

definition released :: "emutls \<Rightarrow> nat \<Rightarrow> emutls \<Rightarrow> bool" where
  "released s t s' \<longleftrightarrow>
     em_key s' = (em_key s)(t := 0) \<and> em_index s' = em_index s \<and> em_next_index s' = em_next_index s \<and>
     em_heap s' = (\<lambda>p. if p = em_key s t \<or> p \<noteq> 0 \<and> (\<exists>i. slot s t i = p) then None else em_heap s p)"

lemma releasedD:
  assumes "released s t s'"
  shows "em_key s' = (em_key s)(t := 0)" and "em_index s' = em_index s" and "em_next_index s' = em_next_index s"
    and "em_heap s' = (\<lambda>p. if p = em_key s t \<or> p \<noteq> 0 \<and> (\<exists>i. slot s t i = p) then None else em_heap s p)"
  using assms unfolding released_def by blast+

lemma released_kept:
  assumes inv: "em_inv s" and key: "em_key s t \<noteq> 0" and rel: "released s t s'"
  shows "em_heap s p = Some (Bytes bs) \<Longrightarrow> (\<And>i. slot s t i \<noteq> p) \<Longrightarrow> em_heap s' p = Some (Bytes bs)"
    and "em_heap s p = Some (Words ws) \<Longrightarrow> p \<noteq> em_key s t \<Longrightarrow> em_heap s' p = Some (Words ws)"
    and "em_heap s' p = Some b \<Longrightarrow> em_heap s p = Some b"
proof -
  show "em_heap s' p = Some (Bytes bs)" if "em_heap s p = Some (Bytes bs)" "\<And>i. slot s t i \<noteq> p"
    using that em_invD(2) [OF inv key] unfolding releasedD(4) [OF rel] by auto
  show "em_heap s' p = Some (Words ws)" if h: "em_heap s p = Some (Words ws)" and k: "p \<noteq> em_key s t"
  proof -
    have "\<not> (p \<noteq> 0 \<and> (\<exists>i. slot s t i = p))"
    proof
      assume "p \<noteq> 0 \<and> (\<exists>i. slot s t i = p)"
      then obtain i where "slot s t i = p" "slot s t i \<noteq> 0" by blast
      then show False using em_invD(4) [OF inv, of t i] h by simp
    qed
    then show ?thesis using h k unfolding releasedD(4) [OF rel] by simp
  qed
  show "em_heap s p = Some b" if "em_heap s' p = Some b"
    using that unfolding releasedD(4) [OF rel] by (simp split: if_splits)
qed

lemma released_slot:
  assumes inv: "em_inv s" and key: "em_key s t \<noteq> 0" and rel: "released s t s'"
  shows "slot s' t' i = (if t' = t then 0 else slot s t' i)"
proof (cases "t' = t")
  case True
  then show ?thesis by (simp add: slot_def releasedD(1) [OF rel] split: option.split block.split)
next
  case nt: False
  have "em_heap s' (em_key s t') = em_heap s (em_key s t')"
  proof (cases "em_key s t' = 0")
    case True
    then show ?thesis unfolding releasedD(4) [OF rel] using key by simp
  next
    case nz: False
    then have "em_key s t' \<noteq> em_key s t" using em_invD(3) [OF inv nz] nt by blast
    then show ?thesis using em_invD(2) [OF inv nz] released_kept(2) [OF inv key rel] by metis
  qed
  then show ?thesis using slot_cong [of s' t' s i] nt by (simp add: releasedD(1) [OF rel])
qed

lemma released_inv:
  assumes inv: "em_inv s" and key: "em_key s t \<noteq> 0" and rel: "released s t s'"
  shows "em_inv s'"
proof (rule em_invI)
  note slot = released_slot [OF inv key rel]
  note kept = released_kept [OF inv key rel]
  note s' = releasedD [OF rel]
  show "em_heap s' 0 = None" using em_invD(1) [OF inv] key unfolding s'(4) by simp
  show "\<exists>ws. em_heap s' (em_key s' t') = Some (Words (length ws # ws))" if "em_key s' t' \<noteq> 0" for t'
  proof -
    have nz: "t' \<noteq> t" "em_key s t' \<noteq> 0" using that unfolding s'(1) by (simp_all split: if_splits)
    then have "em_key s t' \<noteq> em_key s t" using em_invD(3) [OF inv nz(2)] by blast
    then show ?thesis using em_invD(2) [OF inv nz(2)] kept(2) nz(1) unfolding s'(1) by auto
  qed
  show "t1 = t2" if "em_key s' t1 \<noteq> 0" "em_key s' t1 = em_key s' t2" for t1 t2
    using that em_invD(3) [OF inv, of t1 t2] unfolding s'(1) by (simp split: if_splits)
  show "\<exists>bs. em_heap s' (slot s' t' i) = Some (Bytes bs)" if "slot s' t' i \<noteq> 0" for t' i
  proof -
    have nt: "t' \<noteq> t" "slot s t' i \<noteq> 0" using that unfolding slot by (simp_all split: if_splits)
    obtain bs where b: "em_heap s (slot s t' i) = Some (Bytes bs)" using em_invD(4) [OF inv nt(2)] by blast
    have "slot s t j \<noteq> slot s t' i" for j using em_invD(5) [OF inv nt(2), of t j] nt(1) by metis
    then show ?thesis using kept(1) [OF b] nt(1) unfolding slot by simp
  qed
  show "t1 = t2 \<and> i = j" if "slot s' t1 i \<noteq> 0" "slot s' t1 i = slot s' t2 j" for t1 i t2 j
    using that em_invD(5) [OF inv, of t1 i t2 j] unfolding slot by (simp split: if_splits)
  show "\<exists>t'. em_key s' t' = p" if w: "em_heap s' p = Some (Words ws)" for p ws
  proof -
    obtain t' where t': "em_key s t' = p" using em_invD(6) [OF inv kept(3) [OF w]] by blast
    have "p \<noteq> em_key s t" using w unfolding s'(4) by (simp split: if_splits)
    then show ?thesis using t' by (intro exI [of _ t']) (auto simp: s'(1))
  qed
  show "\<exists>t' i. slot s' t' i = p" if w: "em_heap s' p = Some (Bytes bs)" for p bs
  proof -
    obtain t' i where t': "slot s t' i = p" using em_invD(7) [OF inv kept(3) [OF w]] by blast
    have "p \<noteq> 0" using kept(3) [OF w] em_invD(1) [OF inv] by (metis option.distinct(1))
    then have "t' \<noteq> t" using w t' unfolding s'(4) by (auto split: if_splits)
    then show ?thesis using t' by (intro exI [of _ t'] exI [of _ i]) (simp add: slot)
  qed
  show "i \<le> em_next_index s'" if "slot s' t' i \<noteq> 0" for t' i
    using that em_invD(10) [OF inv, of t' i] unfolding slot s'(3) by (simp split: if_splits)
qed (use em_invD(8,9) [OF inv] in \<open>simp_all add: releasedD [OF rel]\<close>)

lemma thread_cleanup_step:
  assumes inv: "em_inv s"
  obtains s' where "emutls_thread_cleanup t s = Some s'" and "em_inv s'" and "em_key s' = (em_key s)(t := 0)"
    and "tls s' = (\<lambda>(t', c). if t' = t then None else tls s (t', c))"
    and "object_of s' = (\<lambda>p. if \<exists>i. slot s t i = p \<and> p \<noteq> 0 then None else object_of s p)"
proof (cases "em_key s t = 0")
  case True
  then have z: "slot s t i = 0" for i by (simp add: slot_def split: option.split block.split)
  then have tls: "tls s = (\<lambda>(t', c). if t' = t then None else tls s (t', c))" by (auto simp: tls_def)
  have ob: "object_of s = (\<lambda>p. if \<exists>i. slot s t i = p \<and> p \<noteq> 0 then None else object_of s p)" by (auto simp: z)
  have "emutls_thread_cleanup t s = Some s" using True by (simp add: emutls_thread_cleanup_def)
  moreover have "em_key s = (em_key s)(t := 0)" using True by auto
  ultimately show thesis using inv tls ob by (rule_tac that)
next
  case False
  obtain s' where run: "emutls_thread_cleanup t s = Some s'" and rel: "released s t s'"
    by (rule thread_cleanup_heap [OF inv False]) (simp add: released_def)
  have "tls s' = (\<lambda>(t', c). if t' = t then None else tls s (t', c))"
    unfolding tls_def released_slot [OF inv False rel] releasedD(2) [OF rel] by auto
  moreover have "object_of s' = (\<lambda>p. if \<exists>i. slot s t i = p \<and> p \<noteq> 0 then None else object_of s p)"
    using em_invD(2) [OF inv False] unfolding object_of_def releasedD(4) [OF rel] by (auto simp: fun_eq_iff)
  ultimately show thesis using run released_inv [OF inv False rel] releasedD(1) [OF rel] by (rule_tac that)
qed

section \<open>Histories\<close>

datatype event = Access nat nat | Exit nat

fun emutls_run ::
    "allocator \<Rightarrow> (nat \<Rightarrow> emutls_control) \<Rightarrow> event list \<Rightarrow> emutls \<Rightarrow> ((event \<times> nat) list \<times> emutls) option" where
  "emutls_run al ctl [] s = Some ([], s)"
| "emutls_run al ctl (Access t c # es) s =
     (case emutls_get_address al ctl t c s of
        None \<Rightarrow> None
      | Some (p, s1) \<Rightarrow> map_option (\<lambda>(l, s2). ((Access t c, p) # l, s2)) (emutls_run al ctl es s1))"
| "emutls_run al ctl (Exit t # es) s =
     (case emutls_thread_cleanup t s of
        None \<Rightarrow> None
      | Some s1 \<Rightarrow> map_option (\<lambda>(l, s2). ((Exit t, 0) # l, s2)) (emutls_run al ctl es s1))"

fun thread_of :: "event \<Rightarrow> nat" where
  "thread_of (Access t c) = t"
| "thread_of (Exit t) = t"

text \<open>
  The contract: a partial map from a thread and a record to an address. An access may fail with
  null, gives the address the map has, or adds one no pair has; an exit drops the thread's pairs.
\<close>

inductive tls_step :: "(nat \<times> nat \<rightharpoonup> nat) \<Rightarrow> event \<times> nat \<Rightarrow> (nat \<times> nat \<rightharpoonup> nat) \<Rightarrow> bool" where
  Null: "tls_step m (Access t c, 0) m"
| Known: "m (t, c) = Some p \<Longrightarrow> tls_step m (Access t c, p) m"
| Fresh: "m (t, c) = None \<Longrightarrow> p \<noteq> 0 \<Longrightarrow> p \<notin> ran m \<Longrightarrow> tls_step m (Access t c, p) (m((t, c) \<mapsto> p))"
| Gone: "tls_step m (Exit t, 0) (\<lambda>(t', c). if t' = t then None else m (t', c))"

inductive_cases tls_accessE: "tls_step m (Access t c, p) m'"

inductive tls_path :: "(nat \<times> nat \<rightharpoonup> nat) \<Rightarrow> (event \<times> nat) list \<Rightarrow> (nat \<times> nat \<rightharpoonup> nat) \<Rightarrow> bool" where
  Stop: "tls_path m [] m"
| Step: "tls_step m e m1 \<Longrightarrow> tls_path m1 es m2 \<Longrightarrow> tls_path m (e # es) m2"

inductive_cases tls_path_NilE: "tls_path m [] m'"
inductive_cases tls_path_ConsE: "tls_path m (e # es) m'"

lemma inj_on_map_upd:
  fixes m :: "'k \<rightharpoonup> 'v"
  assumes "inj_on m (dom m)" and "m k = None" and "p \<notin> ran m"
  shows "inj_on (m(k \<mapsto> p)) (dom (m(k \<mapsto> p)))"
proof (rule inj_onI)
  fix x y
  assume xy: "x \<in> dom (m(k \<mapsto> p))" "y \<in> dom (m(k \<mapsto> p))" "(m(k \<mapsto> p)) x = (m(k \<mapsto> p)) y"
  have "m z \<noteq> Some p" for z using assms(3) by (auto simp: ran_def)
  then show "x = y" using xy inj_onD [OF assms(1), of x y] by (auto split: if_splits)
qed

lemma tls_access_inj:
  assumes "tls_step m (Access t c, p) m1" and "inj_on m (dom m)"
  shows "inj_on m1 (dom m1)" and "m \<subseteq>\<^sub>m m1" and "p \<noteq> 0 \<longrightarrow> m1 (t, c) = Some p"
proof -
  show "inj_on m1 (dom m1)"
  proof (rule tls_accessE [OF assms(1)])
    assume "m1 = m((t, c) \<mapsto> p)" and new: "m (t, c) = None" "p \<notin> ran m"
    then show ?thesis using inj_on_map_upd [OF assms(2) new] by simp
  qed (use assms(2) in simp_all)
  show "m \<subseteq>\<^sub>m m1" by (rule tls_accessE [OF assms(1)]) (auto simp: map_le_def)
  show "p \<noteq> 0 \<longrightarrow> m1 (t, c) = Some p" by (rule tls_accessE [OF assms(1)]) auto
qed

text \<open>In a stretch of accesses the answers agree with the final map, which stays injective.\<close>

lemma tls_path_accesses:
  assumes "tls_path m l m'" and "\<And>e p. (e, p) \<in> set l \<Longrightarrow> \<exists>t c. e = Access t c" and "inj_on m (dom m)"
  shows "inj_on m' (dom m') \<and> m \<subseteq>\<^sub>m m' \<and> (\<forall>t c p. (Access t c, p) \<in> set l \<longrightarrow> p \<noteq> 0 \<longrightarrow> m' (t, c) = Some p)"
  using assms
proof (induction rule: tls_path.induct)
  case (Stop m)
  then show ?case by simp
next
  case (Step m e m1 es m2)
  obtain t c p where e: "e = (Access t c, p)" using Step.prems(1) [of "fst e" "snd e"] by (cases e) auto
  have m1: "inj_on m1 (dom m1)" "m \<subseteq>\<^sub>m m1" "p \<noteq> 0 \<longrightarrow> m1 (t, c) = Some p"
    using tls_access_inj Step.hyps(1) Step.prems(2) unfolding e by blast+
  have ih: "inj_on m2 (dom m2)" "m1 \<subseteq>\<^sub>m m2"
      "\<forall>t c p. (Access t c, p) \<in> set es \<longrightarrow> p \<noteq> 0 \<longrightarrow> m2 (t, c) = Some p"
    using Step.IH [OF _ m1(1)] Step.prems(1) by auto
  have "p \<noteq> 0 \<longrightarrow> m2 (t, c) = Some p" using m1(3) ih(2) by (auto simp: map_le_def dom_def)
  then show ?case using ih map_le_trans [OF m1(2) ih(2)] unfolding e by auto
qed

lemma tls_inj:
  assumes "em_inv s"
  shows "inj_on (tls s) (dom (tls s))"
proof (rule inj_onI, clarify)
  fix t c t' c' p p'
  assume "tls s (t, c) = tls s (t', c')" and "tls s (t, c) = Some p"
  then have "em_index s c \<noteq> 0" "slot s t (em_index s c) \<noteq> 0" "slot s t (em_index s c) = slot s t' (em_index s c')"
    unfolding tls_def by (auto split: if_splits)
  then show "t = t' \<and> c = c'" using em_invD(5) [OF assms] em_invD(9) [OF assms] by metis
qed

definition values_kept :: "(nat \<Rightarrow> emutls_control) \<Rightarrow> emutls \<Rightarrow> bool" where
  "values_kept ctl s \<longleftrightarrow> (\<forall>t c p. tls s (t, c) = Some p \<longrightarrow> object_of s p = Some (initial_value (ctl c)))"

definition kept_by :: "(nat \<Rightarrow> emutls_control) \<Rightarrow> emutls \<Rightarrow> bool" where
  "kept_by ctl s \<longleftrightarrow> em_inv s \<and> values_kept ctl s"

lemma access_refines:
  assumes k: "kept_by ctl s" and ok: "allocator_ok al" and key: "\<And>h. al_setspecific al h"
  obtains p s' where "emutls_get_address al ctl t c s = Some (p, s')" "kept_by ctl s'"
    "tls_step (tls s) (Access t c, p) (tls s')"
proof (cases "c = 0")
  case True
  then have "emutls_get_address al ctl t c s = Some (0, s)" by (simp add: emutls_get_address_def)
  then show thesis using k tls_step.Null by (rule that)
next
  case False
  have inv: "em_inv s" and v: "values_kept ctl s" using k by (simp_all add: kept_by_def)
  show thesis
  proof (cases rule: get_address_step [OF inv ok key False, where t = t and ctl = ctl, case_names null old new])
    case (null s')
    then have "kept_by ctl s'" using v unfolding kept_by_def values_kept_def by simp
    with null(1) show thesis by (rule that) (simp add: null(3) tls_step.Null)
  next
    case (old p s')
    then have "kept_by ctl s'" using v unfolding kept_by_def values_kept_def by simp
    with old(1) show thesis by (rule that) (simp add: old(3,4) tls_step.Known)
  next
    case (new p s')
    have np: "tls s x \<noteq> Some p" for x
    proof
      assume "tls s x = Some p"
      then have "object_of s p \<noteq> None" using v unfolding values_kept_def by (cases x) fastforce
      then show False using new(5) by simp
    qed
    have "object_of s' q = Some (initial_value (ctl d))" if "tls s' (t', d) = Some q" for t' d q
      using that np [of "(t', d)"] v unfolding new(3,6) values_kept_def by (auto split: if_splits)
    then have "kept_by ctl s'" using new(2) unfolding kept_by_def values_kept_def by simp
    moreover have "p \<noteq> 0"
      using new(6) em_invD(1) [OF new(2)] object_of_Some [of s' p] by (metis fun_upd_same option.distinct(1))
    moreover have "p \<notin> ran (tls s)" using np by (auto simp: ran_def)
    ultimately show thesis using that [OF new(1)] tls_step.Fresh [of "tls s" t c p] new(4) unfolding new(3) by blast
  qed
qed

lemma exit_refines:
  assumes k: "kept_by ctl s"
  obtains s' where "emutls_thread_cleanup t s = Some s'" "kept_by ctl s'" "em_key s' = (em_key s)(t := 0)"
    "tls_step (tls s) (Exit t, 0) (tls s')"
proof -
  have inv: "em_inv s" and v: "values_kept ctl s" using k by (simp_all add: kept_by_def)
  obtain s' where s': "emutls_thread_cleanup t s = Some s'" "em_inv s'" "em_key s' = (em_key s)(t := 0)"
      "tls s' = (\<lambda>(t', c). if t' = t then None else tls s (t', c))"
      "object_of s' = (\<lambda>p. if \<exists>i. slot s t i = p \<and> p \<noteq> 0 then None else object_of s p)"
    by (rule thread_cleanup_step [OF inv])
  have "object_of s' p = Some (initial_value (ctl c))" if "tls s' (t', c) = Some p" for t' c p
  proof -
    have t': "t' \<noteq> t" "tls s (t', c) = Some p" using that unfolding s'(4) by (simp_all split: if_splits)
    then have p: "slot s t' (em_index s c) = p" "slot s t' (em_index s c) \<noteq> 0"
      unfolding tls_def by (simp_all split: if_splits)
    have "\<not> (\<exists>i. slot s t i = p \<and> p \<noteq> 0)" using em_invD(5) [OF inv p(2), of t] t'(1) p(1) by metis
    then show ?thesis using v t'(2) unfolding s'(5) values_kept_def by simp
  qed
  then have "kept_by ctl s'" using s'(2) unfolding kept_by_def values_kept_def by simp
  then show thesis by (rule that [OF s'(1)]) (use s'(3) tls_step.Gone in \<open>simp_all add: s'(4)\<close>)
qed

lemma emutls_run_refines:
  assumes "kept_by ctl s" and ok: "allocator_ok al" and key: "\<And>h. al_setspecific al h"
  shows "\<exists>l s'. emutls_run al ctl es s = Some (l, s') \<and> map fst l = es \<and> kept_by ctl s' \<and> tls_path (tls s) l (tls s')"
  using assms(1)
proof (induction es arbitrary: s)
  case Nil
  then show ?case by (simp add: tls_path.Stop)
next
  case (Cons e es)
  show ?case
  proof (cases e)
    case (Access t c)
    obtain p s1 where s1: "emutls_get_address al ctl t c s = Some (p, s1)" "kept_by ctl s1"
        "tls_step (tls s) (Access t c, p) (tls s1)" by (rule access_refines [OF Cons.prems ok key])
    then show ?thesis using Cons.IH [OF s1(2)] Access by (auto intro: tls_path.Step)
  next
    case (Exit t)
    obtain s1 where s1: "emutls_thread_cleanup t s = Some s1" "kept_by ctl s1"
        "tls_step (tls s) (Exit t, 0) (tls s1)" by (rule exit_refines [OF Cons.prems])
    then show ?thesis using Cons.IH [OF s1(2)] Exit by (auto intro: tls_path.Step)
  qed
qed

lemma run_append:
  "emutls_run al ctl (es @ fs) s =
     (case emutls_run al ctl es s of
        None \<Rightarrow> None
      | Some (l, s1) \<Rightarrow> map_option (\<lambda>(l', s2). (l @ l', s2)) (emutls_run al ctl fs s1))"
  by (induction al ctl es s rule: emutls_run.induct)
    (auto split: option.split prod.split simp: option.map_comp comp_def case_prod_unfold option.map_ident)

lemma kept_by_init: "kept_by ctl emutls_init"
  using em_inv_init by (simp add: kept_by_def values_kept_def tls_def emutls_init_def)

section \<open>The properties\<close>

definition two_block_allocator :: allocator where
  "two_block_allocator =
     \<lparr>al_realloc = (\<lambda>h p n. if p \<noteq> 0 then p else if h 16 = None then 16 else 0),
      al_memalign = (\<lambda>h a n. if h 64 = None then 64 else if h 128 = None then 128 else 0),
      al_setspecific = (\<lambda>h. True)\<rparr>"

definition sample_controls :: "nat \<Rightarrow> emutls_control" where
  "sample_controls c = \<lparr>ct_size = 2, ct_align = 4, ct_value = (if c = 7 then Some [1, 2] else None)\<rparr>"

lemmas sample_runs = emutls_init_def emutls_get_address_def emutls_array_for_def emutls_allocate_def
  emutls_thread_cleanup_def free_block_def object_of_def Let_def two_block_allocator_def sample_controls_def

lemma two_block_allocator_ok: "allocator_ok two_block_allocator" "al_setspecific two_block_allocator h"
  by (simp_all add: two_block_allocator_def allocator_ok_def)

lemma array_for_key: "emutls_array_for al t i s = Some (a, s') \<Longrightarrow> t' \<noteq> t \<Longrightarrow> em_key s' t' = em_key s t'"
  by (auto simp: emutls_array_for_def Let_def split: option.splits if_splits block.splits)

lemma get_address_key: "emutls_get_address al ctl t c s = Some (p, s') \<Longrightarrow> t' \<noteq> t \<Longrightarrow> em_key s' t' = em_key s t'"
  by (auto simp: emutls_get_address_def Let_def dest!: array_for_key [of _ t _ _ _ _ t']
      split: option.splits if_splits block.splits prod.splits)

lemma thread_cleanup_key: "emutls_thread_cleanup t s = Some s' \<Longrightarrow> em_key s' = (em_key s)(t := 0)"
  by (auto simp: emutls_thread_cleanup_def Let_def split: option.splits if_splits block.splits)

lemma run_keys:
  assumes "emutls_run al ctl es s = Some (l, s')" and "t \<notin> thread_of ` set es"
  shows "em_key s' t = em_key s t"
  using assms
proof (induction es arbitrary: s l)
  case (Cons e es)
  then show ?case
    by (cases e) (auto split: option.splits dest: get_address_key [of _ _ _ _ _ _ _ t] thread_cleanup_key)
qed simp

lemma run_exits:
  "emutls_run al ctl (map Exit ts) s = Some (l, s') \<Longrightarrow> em_key s' t = (if t \<in> set ts then 0 else em_key s t)"
  by (induction ts arbitrary: s l) (fastforce split: option.splits dest: thread_cleanup_key)+

lemma no_keys_no_blocks:
  assumes inv: "em_inv s" and "\<And>t. em_key s t = 0"
  shows "em_heap s p = None"
proof (rule ccontr)
  assume "em_heap s p \<noteq> None"
  then obtain b where b: "em_heap s p = Some b" by blast
  have "p \<noteq> 0" using b em_invD(1) [OF inv] by (metis option.distinct(1))
  moreover have "slot s t i = 0" for t i using assms(2) by (simp add: slot_def split: option.split block.split)
  ultimately show False using b em_invD(6,7) [OF inv] assms(2) by (cases b) metis+
qed





text \<open>
  C39. When the key cannot be set to a grown array, the array is freed although \<open>realloc\<close> already
  released the one the key points at: the access itself gives null, and every later access of that
  thread reads the freed array.
\<close>

theorem failed_setspecific_leaves_freed_array:
  assumes "em_key s t = a" and "a \<noteq> 0" and "em_heap s a = Some (Words ws)" and "hd ws < em_index s c"
    and "c \<noteq> 0" and "al_realloc al (em_heap s) a ((em_index s c + 1) * 8) \<noteq> 0" and "\<And>h. \<not> al_setspecific al h"
  shows "\<exists>s'. emutls_get_address al ctl t c s = Some (0, s') \<and>
    (\<forall>al' d. d \<noteq> 0 \<longrightarrow> emutls_get_address al' ctl t d s' = None)"
proof -
  let ?g = "al_realloc al (em_heap s) a ((em_index s c + 1) * 8)"
  let ?s = "s\<lparr>em_heap := (em_heap s)(a := None, ?g := None)\<rparr>"
  have "emutls_get_address al ctl t c s = Some (0, ?s)"
    using assms unfolding emutls_get_address_def emutls_array_for_def by (simp add: Let_def)
  moreover have "emutls_get_address al' ctl t d ?s = None" if "d \<noteq> 0" for al' d
    using that assms(1,2) unfolding emutls_get_address_def emutls_array_for_def by (simp add: Let_def)
  ultimately show ?thesis by blast
qed

definition failing_key :: allocator where
  "failing_key = two_block_allocator\<lparr>al_setspecific := (\<lambda>h. False)\<rparr>"

definition one_object :: emutls where
  "one_object = \<lparr>em_heap = [16 \<mapsto> Words [1, 64], 64 \<mapsto> Bytes [1, 2]], em_key = (\<lambda>_. 0)(1 := 16),
     em_index = (\<lambda>_. 0)(7 := 1, 9 := 2), em_next_index = 2\<rparr>"

theorem failed_setspecific_leaves_freed_array_witness:
  "\<exists>s'. emutls_get_address failing_key sample_controls 1 9 one_object = Some (0, s') \<and>
    emutls_get_address two_block_allocator sample_controls 1 7 s' = None"
  using failed_setspecific_leaves_freed_array [of one_object 1 16 "[1, 64]" 9 failing_key sample_controls]
  by (auto simp: one_object_def failing_key_def two_block_allocator_def)

end
