(* ===== verification/Threads.thy ===== *)
theory Threads
  imports Prelude "HOL-Library.Signed_Division"
begin

unbundle bit_operations_syntax

text \<open>
  The thread surface of \<open>src/src/runtime/threads.c\<close>. The vendor calls are code outside the
  repository: a call is its name and its arguments, \<open>bound\<close> says which names resolved, and the
  value a call returns is a parameter over the calls made before it. A pointer is a number and 0
  is null. The errno constants have the values of the FreeBSD headers the target compiles with.
\<close>

section \<open>The vendor interface\<close>

datatype arg = Ptr nat | Size nat | Val u32 | Str string

datatype vendor_call = Call string "arg list"

record vendor =
  bound :: "string \<Rightarrow> bool"
  answer :: "vendor_call list \<Rightarrow> vendor_call \<Rightarrow> u32"
  pointer_answer :: "vendor_call list \<Rightarrow> vendor_call \<Rightarrow> nat"
  int_out :: "vendor_call list \<Rightarrow> vendor_call \<Rightarrow> u32"
  attr_buf :: nat
  once_lock :: nat

record threads =
  calls :: "vendor_call list"
  said :: bool
  log_lines :: nat
  s_once_lock_ready :: bool
  once_state :: "nat \<Rightarrow> u32"
  routines_run :: "nat list"

definition threads_init :: threads where
  "threads_init = \<lparr>calls = [], said = False, log_lines = 0, s_once_lock_ready = False,
     once_state = (\<lambda>_. 0), routines_run = []\<rparr>"

definition vendor_do :: "vendor \<Rightarrow> vendor_call \<Rightarrow> threads \<Rightarrow> u32 \<times> threads" where
  "vendor_do v c s = (answer v (calls s) c, s\<lparr>calls := calls s @ [c]\<rparr>)"

definition E_INVAL :: u32 where
  "E_INVAL = 22"

definition E_NOSYS :: u32 where
  "E_NOSYS = 78"

section \<open>Translation of results\<close>

definition to_errno :: "u32 \<Rightarrow> u32" where
  "to_errno rc =
     (if rc = 0 then 0
      else if rc AND 0xFFFF0000 = 0x80020000 then rc AND 0xFFFF
      else E_INVAL)"

text \<open>\<open>NEED(fn); return to_errno(fn(...))\<close>.\<close>

definition need :: "vendor \<Rightarrow> string \<Rightarrow> arg list \<Rightarrow> threads \<Rightarrow> u32 \<times> threads" where
  "need v fn args s =
     (if \<not> bound v fn then (E_NOSYS, s)
      else let (rc, s1) = vendor_do v (Call fn args) s in (to_errno rc, s1))"

section \<open>Threads\<close>

definition k_thread_name :: string where
  "k_thread_name = ''oops-mesa''"

definition k_mutex_name :: string where
  "k_mutex_name = ''oops-mesa-mtx''"

definition k_cond_name :: string where
  "k_cond_name = ''oops-mesa-cnd''"

definition MESA_THREAD_STACK_BYTES :: nat where
  "MESA_THREAD_STACK_BYTES = 8 * 1024 * 1024"

text \<open>The attribute of a thread created without one: its address or null, and whether it is sized.\<close>

definition stack_attr :: "vendor \<Rightarrow> threads \<Rightarrow> (nat \<times> bool) \<times> threads" where
  "stack_attr v s =
     (if bound v ''scePthreadAttrInit''
      then let (rc, s1) = vendor_do v (Call ''scePthreadAttrInit'' [Ptr (attr_buf v)]) s in
           if rc = 0
           then if bound v ''scePthreadAttrSetstacksize''
                then let (rc2, s2) = vendor_do v (Call ''scePthreadAttrSetstacksize''
                           [Ptr (attr_buf v), Size MESA_THREAD_STACK_BYTES]) s1
                     in ((attr_buf v, rc2 = 0), s2)
                else ((attr_buf v, False), s1)
           else ((0, False), s1)
      else ((0, False), s))"

definition pthread_create :: "vendor \<Rightarrow> nat \<Rightarrow> nat \<Rightarrow> nat \<Rightarrow> nat \<Rightarrow> threads \<Rightarrow> u32 \<times> threads" where
  "pthread_create v thread attr start arg s =
     (if \<not> bound v ''scePthreadCreate'' then (E_NOSYS, s)
      else if attr \<noteq> 0
      then let (rc, s1) = vendor_do v (Call ''scePthreadCreate''
                 [Ptr thread, Ptr attr, Ptr start, Ptr arg, Str k_thread_name]) s
           in (to_errno rc, s1)
      else let ((attr_ptr, sized), s1) = stack_attr v s;
               s2 = (if \<not> sized \<and> \<not> said s1 then s1\<lparr>said := True, log_lines := log_lines s1 + 1\<rparr> else s1);
               (rc, s3) = vendor_do v (Call ''scePthreadCreate''
                 [Ptr thread, Ptr attr_ptr, Ptr start, Ptr arg, Str k_thread_name]) s2;
               s4 = (if attr_ptr \<noteq> 0 \<and> bound v ''scePthreadAttrDestroy''
                     then snd (vendor_do v (Call ''scePthreadAttrDestroy'' [Ptr attr_ptr]) s3) else s3)
           in (to_errno rc, s4))"

definition pthread_join :: "vendor \<Rightarrow> nat \<Rightarrow> nat \<Rightarrow> threads \<Rightarrow> u32 \<times> threads" where
  "pthread_join v thread val = need v ''scePthreadJoin'' [Ptr thread, Ptr val]"

definition pthread_detach :: "vendor \<Rightarrow> nat \<Rightarrow> threads \<Rightarrow> u32 \<times> threads" where
  "pthread_detach v thread = need v ''scePthreadDetach'' [Ptr thread]"

definition pthread_self :: "vendor \<Rightarrow> threads \<Rightarrow> nat \<times> threads" where
  "pthread_self v s =
     (if bound v ''scePthreadSelf''
      then (pointer_answer v (calls s) (Call ''scePthreadSelf'' []), snd (vendor_do v (Call ''scePthreadSelf'' []) s))
      else (0, s))"

definition pthread_equal :: "vendor \<Rightarrow> nat \<Rightarrow> nat \<Rightarrow> threads \<Rightarrow> u32 \<times> threads" where
  "pthread_equal v a b s =
     (if bound v ''scePthreadEqual'' then vendor_do v (Call ''scePthreadEqual'' [Ptr a, Ptr b]) s
      else (if a = b then 1 else 0, s))"

text \<open>\<open>pthread_exit\<close> does not return: this is the state it leaves the thread in for ever.\<close>

definition pthread_exit :: "vendor \<Rightarrow> nat \<Rightarrow> threads \<Rightarrow> threads" where
  "pthread_exit v val s =
     (if bound v ''scePthreadExit'' then snd (vendor_do v (Call ''scePthreadExit'' [Ptr val]) s) else s)"

section \<open>Mutexes and condition variables\<close>

definition pthread_mutex_init :: "vendor \<Rightarrow> nat \<Rightarrow> nat \<Rightarrow> threads \<Rightarrow> u32 \<times> threads" where
  "pthread_mutex_init v mutex attr = need v ''scePthreadMutexInit'' [Ptr mutex, Ptr attr, Str k_mutex_name]"

definition pthread_mutex_destroy :: "vendor \<Rightarrow> nat \<Rightarrow> threads \<Rightarrow> u32 \<times> threads" where
  "pthread_mutex_destroy v mutex = need v ''scePthreadMutexDestroy'' [Ptr mutex]"

definition pthread_mutex_lock :: "vendor \<Rightarrow> nat \<Rightarrow> threads \<Rightarrow> u32 \<times> threads" where
  "pthread_mutex_lock v mutex = need v ''scePthreadMutexLock'' [Ptr mutex]"

definition pthread_mutex_trylock :: "vendor \<Rightarrow> nat \<Rightarrow> threads \<Rightarrow> u32 \<times> threads" where
  "pthread_mutex_trylock v mutex = need v ''scePthreadMutexTrylock'' [Ptr mutex]"

definition pthread_mutex_unlock :: "vendor \<Rightarrow> nat \<Rightarrow> threads \<Rightarrow> u32 \<times> threads" where
  "pthread_mutex_unlock v mutex = need v ''scePthreadMutexUnlock'' [Ptr mutex]"

definition pthread_mutexattr_init :: "vendor \<Rightarrow> nat \<Rightarrow> threads \<Rightarrow> u32 \<times> threads" where
  "pthread_mutexattr_init v attr = need v ''scePthreadMutexattrInit'' [Ptr attr]"

definition pthread_mutexattr_destroy :: "vendor \<Rightarrow> nat \<Rightarrow> threads \<Rightarrow> u32 \<times> threads" where
  "pthread_mutexattr_destroy v attr = need v ''scePthreadMutexattrDestroy'' [Ptr attr]"

definition pthread_mutexattr_settype :: "vendor \<Rightarrow> nat \<Rightarrow> u32 \<Rightarrow> threads \<Rightarrow> u32 \<times> threads" where
  "pthread_mutexattr_settype v attr type = need v ''scePthreadMutexattrSettype'' [Ptr attr, Val type]"

definition pthread_cond_init :: "vendor \<Rightarrow> nat \<Rightarrow> nat \<Rightarrow> threads \<Rightarrow> u32 \<times> threads" where
  "pthread_cond_init v cond attr = need v ''scePthreadCondInit'' [Ptr cond, Ptr attr, Str k_cond_name]"

definition pthread_cond_destroy :: "vendor \<Rightarrow> nat \<Rightarrow> threads \<Rightarrow> u32 \<times> threads" where
  "pthread_cond_destroy v cond = need v ''scePthreadCondDestroy'' [Ptr cond]"

definition pthread_cond_wait :: "vendor \<Rightarrow> nat \<Rightarrow> nat \<Rightarrow> threads \<Rightarrow> u32 \<times> threads" where
  "pthread_cond_wait v cond mutex = need v ''scePthreadCondWait'' [Ptr cond, Ptr mutex]"

definition pthread_cond_signal :: "vendor \<Rightarrow> nat \<Rightarrow> threads \<Rightarrow> u32 \<times> threads" where
  "pthread_cond_signal v cond = need v ''scePthreadCondSignal'' [Ptr cond]"

definition pthread_cond_broadcast :: "vendor \<Rightarrow> nat \<Rightarrow> threads \<Rightarrow> u32 \<times> threads" where
  "pthread_cond_broadcast v cond = need v ''scePthreadCondBroadcast'' [Ptr cond]"

section \<open>Timed waits\<close>

record timespec =
  tv_sec :: int
  tv_nsec :: int

definition in_int64 :: "int \<Rightarrow> bool" where
  "in_int64 x \<longleftrightarrow> - (2 ^ 63) \<le> x \<and> x < 2 ^ 63"

text \<open>
  The relative wait in microseconds; \<open>None\<close> when the \<open>int64_t\<close> arithmetic overflows, which C leaves
  undefined.
\<close>

definition relative_usec :: "timespec \<Rightarrow> timespec \<Rightarrow> u32 option" where
  "relative_usec deadline now =
     (let secs = tv_sec deadline - tv_sec now;
          us = secs * 1000000;
          usec = us + (tv_nsec deadline - tv_nsec now) sdiv 1000
      in if \<not> (in_int64 secs \<and> in_int64 us \<and> in_int64 usec) then None
         else let usec1 = (if usec < 0 then 0 else usec);
                  usec2 = (if usec1 > 0xFFFFFFFF then 0xFFFFFFFF else usec1)
              in Some (word_of_int usec2))"

text \<open>\<open>clock\<close> is what \<open>clock_gettime\<close> gives, or \<open>None\<close> when it fails; a null deadline is \<open>None\<close>.\<close>

definition pthread_cond_timedwait ::
    "vendor \<Rightarrow> nat \<Rightarrow> nat \<Rightarrow> timespec option \<Rightarrow> timespec option \<Rightarrow> threads \<Rightarrow> (u32 \<times> threads) option" where
  "pthread_cond_timedwait v cond mutex deadline clock s =
     (if \<not> bound v ''scePthreadCondTimedwait'' then Some (E_NOSYS, s)
      else case deadline of
        None \<Rightarrow> Some (E_INVAL, s)
      | Some d \<Rightarrow>
          (case clock of
             None \<Rightarrow> Some (E_INVAL, s)
           | Some now \<Rightarrow>
               map_option (\<lambda>usec. let (rc, s1) = vendor_do v (Call ''scePthreadCondTimedwait''
                   [Ptr cond, Ptr mutex, Val usec]) s in (to_errno rc, s1)) (relative_usec d now)))"

definition pthread_mutex_timedlock ::
    "vendor \<Rightarrow> nat \<Rightarrow> timespec option \<Rightarrow> timespec option \<Rightarrow> threads \<Rightarrow> (u32 \<times> threads) option" where
  "pthread_mutex_timedlock v mutex deadline clock s =
     (if \<not> bound v ''scePthreadMutexTimedlock'' then Some (E_NOSYS, s)
      else case deadline of
        None \<Rightarrow> Some (E_INVAL, s)
      | Some d \<Rightarrow>
          (case clock of
             None \<Rightarrow> Some (E_INVAL, s)
           | Some now \<Rightarrow>
               map_option (\<lambda>usec. let (rc, s1) = vendor_do v (Call ''scePthreadMutexTimedlock''
                   [Ptr mutex, Val usec]) s in (to_errno rc, s1)) (relative_usec d now)))"

section \<open>Keys and one-time initialisation\<close>

definition pthread_key_create :: "vendor \<Rightarrow> nat \<Rightarrow> nat \<Rightarrow> threads \<Rightarrow> u32 \<times> threads" where
  "pthread_key_create v key destructor = need v ''scePthreadKeyCreate'' [Ptr key, Ptr destructor]"

definition pthread_key_delete :: "vendor \<Rightarrow> u32 \<Rightarrow> threads \<Rightarrow> u32 \<times> threads" where
  "pthread_key_delete v key = need v ''scePthreadKeyDelete'' [Val key]"

definition pthread_setspecific :: "vendor \<Rightarrow> u32 \<Rightarrow> nat \<Rightarrow> threads \<Rightarrow> u32 \<times> threads" where
  "pthread_setspecific v key val = need v ''scePthreadSetspecific'' [Val key, Ptr val]"

definition pthread_getspecific :: "vendor \<Rightarrow> u32 \<Rightarrow> threads \<Rightarrow> nat \<times> threads" where
  "pthread_getspecific v key s =
     (if bound v ''scePthreadGetspecific''
      then (pointer_answer v (calls s) (Call ''scePthreadGetspecific'' [Val key]),
            snd (vendor_do v (Call ''scePthreadGetspecific'' [Val key]) s))
      else (0, s))"

definition once_lock_init :: "vendor \<Rightarrow> threads \<Rightarrow> u32 \<times> threads" where
  "once_lock_init v s =
     (if s_once_lock_ready s then (0, s)
      else let (rc, s1) = pthread_mutex_init v (once_lock v) 0 s
           in if rc \<noteq> 0 then (rc, s1) else (0, s1\<lparr>s_once_lock_ready := True\<rparr>))"

definition pthread_once :: "vendor \<Rightarrow> nat \<Rightarrow> nat \<Rightarrow> threads \<Rightarrow> u32 \<times> threads" where
  "pthread_once v once routine s =
     (if once = 0 \<or> routine = 0 then (E_INVAL, s)
      else let (rc, s1) = once_lock_init v s
           in if rc \<noteq> 0 then (rc, s1)
              else let s2 = snd (pthread_mutex_lock v (once_lock v) s1)
                   in if once_state s2 once = 0
                      then let s3 = snd (pthread_mutex_unlock v (once_lock v)
                                 (s2\<lparr>once_state := (once_state s2)(once := 1)\<rparr>))
                           in (0, s3\<lparr>routines_run := routines_run s3 @ [routine]\<rparr>)
                      else (0, snd (pthread_mutex_unlock v (once_lock v) s2)))"

definition sched_yield :: "vendor \<Rightarrow> threads \<Rightarrow> u32 \<times> threads" where
  "sched_yield v s =
     (if bound v ''scePthreadYield'' then (0, snd (vendor_do v (Call ''scePthreadYield'' []) s)) else (0, s))"

section \<open>Read-write locks, barriers and attributes\<close>

definition k_rwlock_name :: string where
  "k_rwlock_name = ''oops-mesa-rwl''"

definition k_barrier_name :: string where
  "k_barrier_name = ''oops-mesa-bar''"

definition pthread_rwlock_init :: "vendor \<Rightarrow> nat \<Rightarrow> nat \<Rightarrow> threads \<Rightarrow> u32 \<times> threads" where
  "pthread_rwlock_init v lock attr = need v ''scePthreadRwlockInit'' [Ptr lock, Ptr attr, Str k_rwlock_name]"

definition pthread_rwlock_destroy :: "vendor \<Rightarrow> nat \<Rightarrow> threads \<Rightarrow> u32 \<times> threads" where
  "pthread_rwlock_destroy v lock = need v ''scePthreadRwlockDestroy'' [Ptr lock]"

definition pthread_rwlock_rdlock :: "vendor \<Rightarrow> nat \<Rightarrow> threads \<Rightarrow> u32 \<times> threads" where
  "pthread_rwlock_rdlock v lock = need v ''scePthreadRwlockRdlock'' [Ptr lock]"

definition pthread_rwlock_wrlock :: "vendor \<Rightarrow> nat \<Rightarrow> threads \<Rightarrow> u32 \<times> threads" where
  "pthread_rwlock_wrlock v lock = need v ''scePthreadRwlockWrlock'' [Ptr lock]"

definition pthread_rwlock_unlock :: "vendor \<Rightarrow> nat \<Rightarrow> threads \<Rightarrow> u32 \<times> threads" where
  "pthread_rwlock_unlock v lock = need v ''scePthreadRwlockUnlock'' [Ptr lock]"

definition pthread_barrier_init :: "vendor \<Rightarrow> nat \<Rightarrow> nat \<Rightarrow> u32 \<Rightarrow> threads \<Rightarrow> u32 \<times> threads" where
  "pthread_barrier_init v barrier attr count = need v ''scePthreadBarrierInit'' [Ptr barrier, Ptr attr, Val count, Str k_barrier_name]"

definition pthread_barrier_destroy :: "vendor \<Rightarrow> nat \<Rightarrow> threads \<Rightarrow> u32 \<times> threads" where
  "pthread_barrier_destroy v barrier = need v ''scePthreadBarrierDestroy'' [Ptr barrier]"

definition pthread_barrier_wait :: "vendor \<Rightarrow> nat \<Rightarrow> threads \<Rightarrow> u32 \<times> threads" where
  "pthread_barrier_wait v barrier = need v ''scePthreadBarrierWait'' [Ptr barrier]"

definition pthread_condattr_init :: "vendor \<Rightarrow> nat \<Rightarrow> threads \<Rightarrow> u32 \<times> threads" where
  "pthread_condattr_init v attr = need v ''scePthreadCondattrInit'' [Ptr attr]"

definition pthread_condattr_destroy :: "vendor \<Rightarrow> nat \<Rightarrow> threads \<Rightarrow> u32 \<times> threads" where
  "pthread_condattr_destroy v attr = need v ''scePthreadCondattrDestroy'' [Ptr attr]"

definition pthread_condattr_setclock :: "vendor \<Rightarrow> nat \<Rightarrow> u32 \<Rightarrow> threads \<Rightarrow> u32 \<times> threads" where
  "pthread_condattr_setclock v attr clock = need v ''scePthreadCondattrSetclock'' [Ptr attr, Val clock]"

text \<open>The result, the clock id stored through a non-null pointer, and the state.\<close>

definition pthread_getcpuclockid :: "vendor \<Rightarrow> nat \<Rightarrow> nat \<Rightarrow> threads \<Rightarrow> (u32 \<times> u32 option) \<times> threads" where
  "pthread_getcpuclockid v thread clock s =
     (let c = Call ''scePthreadGetcpuclockid'' [Ptr thread];
          id = int_out v (calls s) c;
          (rc, s1) = need v ''scePthreadGetcpuclockid'' [Ptr thread] s
      in ((rc, if bound v ''scePthreadGetcpuclockid'' \<and> rc = 0 \<and> clock \<noteq> 0 then Some id else None), s1))"

end
