(* ===== verification/Threads_Props.thy ===== *)
theory Threads_Props
  imports Threads
begin

unbundle bit_operations_syntax

text \<open>
  What the thread surface guarantees: the translation of vendor results, the clamped waits, the
  stack of a thread created without an attribute, and one-time initialisation, sequentially and
  under every interleaving of callers.
\<close>

section \<open>Results\<close>

lemma split_halves:
  fixes x :: u32
  shows "(x AND 0xFFFF0000) OR (x AND 0xFFFF) = x"
proof -
  have "(x AND 0xFFFF0000) OR (x AND 0xFFFF) = x AND (0xFFFF0000 OR 0xFFFF)"
    by (rule bit.conj_disj_distrib [symmetric])
  also have "(0xFFFF0000 OR 0xFFFF :: u32) = - 1" by simp
  finally show ?thesis by (simp only: and_minus_numerals bit.conj_one_right)
qed

lemma errno_parts:
  fixes e :: u32
  assumes "e AND 0xFFFF0000 = 0"
  shows "(0x80020000 OR e) AND 0xFFFF0000 = 0x80020000" and "(0x80020000 OR e) AND 0xFFFF = e"
  using split_halves [of e] assms by (simp_all add: bit.conj_disj_distrib2)

lemma small_high_bits:
  assumes "unat (e :: u32) < 2 ^ 16"
  shows "e AND 0xFFFF0000 = 0"
proof -
  have "take_bit 16 e = e" using assms by (simp add: word_unat_eq_iff unsigned_take_bit_eq take_bit_nat_eq_self)
  then have "e AND 0xFFFF = e" by (simp add: take_bit_eq_mask mask_eq_exp_minus_1)
  then have "e AND 0xFFFF0000 = e AND (0xFFFF AND 0xFFFF0000)" by (metis and.assoc)
  then show ?thesis by simp
qed

text \<open>
  A vendor error carries its errno through unchanged, anything that is neither success nor
  of that shape is \<open>EINVAL\<close>, and a call that succeeds is reported as 0. The error
  \<open>0x80020000\<close>, whose errno part is empty, is the one failure also reported as 0.
\<close>

theorem to_errno_roundtrip:
  "(unat e < 2 ^ 16 \<longrightarrow> to_errno (0x80020000 OR e) = e) \<and>
   (to_errno rc = 0 \<longleftrightarrow> rc = 0 \<or> rc = 0x80020000) \<and>
   (rc \<noteq> 0 \<longrightarrow> rc AND 0xFFFF0000 \<noteq> 0x80020000 \<longrightarrow> to_errno rc = E_INVAL)"
proof (intro conjI impI)
  show "to_errno (0x80020000 OR e) = e" if "unat e < 2 ^ 16"
  proof -
    note p = errno_parts [OF small_high_bits [OF that]]
    have "0x80020000 OR e \<noteq> 0" using p(1) by auto
    then show ?thesis using p by (simp add: to_errno_def)
  qed
  show "to_errno rc = 0 \<longleftrightarrow> rc = 0 \<or> rc = 0x80020000"
    using split_halves [of rc] by (auto simp: to_errno_def E_INVAL_def split: if_splits)
  show "to_errno rc = E_INVAL" if "rc \<noteq> 0" "rc AND 0xFFFF0000 \<noteq> 0x80020000"
    using that by (simp add: to_errno_def)
qed

theorem to_errno_roundtrip_witness:
  "to_errno (0x80020000 OR 60) = 60 \<and> to_errno 0xFFFFFFFF = E_INVAL \<and> to_errno 0x80020000 = 0"
  using to_errno_roundtrip [of 60 "0xFFFFFFFF"] to_errno_roundtrip [of 0 "0x80020000"] by simp

section \<open>Timed waits\<close>

definition instant :: "timespec \<Rightarrow> int" where
  "instant ts = tv_sec ts * 1000000000 + tv_nsec ts"

lemma sdiv_1000_bounds: "k sdiv (1000 :: int) * 1000 \<le> k + 999" "k - 999 \<le> k sdiv (1000 :: int) * 1000"
  by (auto simp: signed_divide_int_def sgn_if)

text \<open>
  C30. A timed wait asks the vendor for the time left until the deadline, up to a microsecond: 0
  for a deadline that has passed, and otherwise the remaining time, unless that exceeds
  \<open>UINT32_MAX\<close> microseconds (about 71 minutes), when the vendor is asked for \<open>UINT32_MAX\<close> and
  reports a timeout before the deadline.
\<close>

theorem timed_wait_clamped:
  assumes "bound v ''scePthreadCondTimedwait''" and "\<bar>tv_sec d - tv_sec now\<bar> < 2 ^ 43"
    and "0 \<le> tv_nsec d" "tv_nsec d < 1000000000" "0 \<le> tv_nsec now" "tv_nsec now < 1000000000"
  shows "\<exists>usec s'. pthread_cond_timedwait v cond mutex (Some d) (Some now) s =
      Some (to_errno (answer v (calls s) (Call ''scePthreadCondTimedwait'' [Ptr cond, Ptr mutex, Val usec])), s') \<and>
    calls s' = calls s @ [Call ''scePthreadCondTimedwait'' [Ptr cond, Ptr mutex, Val usec]] \<and>
    (instant d \<le> instant now \<longrightarrow> usec = 0) \<and>
    (instant now \<le> instant d \<and> instant d - instant now \<le> 0xFFFFFFFF * 1000 \<longrightarrow>
       \<bar>instant d - instant now - uint usec * 1000\<bar> < 1000) \<and>
    (0x100000000 * 1000 \<le> instant d - instant now \<longrightarrow> uint usec = 0xFFFFFFFF)"
proof -
  let ?k = "tv_nsec d - tv_nsec now"
  let ?u = "(tv_sec d - tv_sec now) * 1000000 + ?k sdiv 1000"
  let ?c = "if ?u < 0 then 0 else if ?u > 0xFFFFFFFF then 0xFFFFFFFF else ?u"
  have b: "?k sdiv 1000 * 1000 \<le> ?k + 999" "?k - 999 \<le> ?k sdiv 1000 * 1000" by (rule sdiv_1000_bounds)+
  have "in_int64 (tv_sec d - tv_sec now)" "in_int64 ((tv_sec d - tv_sec now) * 1000000)" "in_int64 ?u"
    using assms(2-) b by (auto simp: in_int64_def)
  then have r: "relative_usec d now = Some (word_of_int ?c)" by (simp add: relative_usec_def Let_def)
  have c: "uint (word_of_int ?c :: u32) = ?c" by (simp add: uint_word_of_int)
  have diff: "instant d - instant now = (tv_sec d - tv_sec now) * 1000000000 + ?k" by (simp add: instant_def algebra_simps)
  have "instant d \<le> instant now \<Longrightarrow> ?c = 0" using b diff by (auto split: if_splits)
  moreover have "instant now \<le> instant d \<and> instant d - instant now \<le> 0xFFFFFFFF * 1000 \<Longrightarrow>
      \<bar>instant d - instant now - ?c * 1000\<bar> < 1000" using b diff by (auto split: if_splits)
  moreover have "0x100000000 * 1000 \<le> instant d - instant now \<Longrightarrow> ?c = 0xFFFFFFFF" using b diff by auto
  ultimately show ?thesis using r assms(1) c
    by (intro exI [of _ "word_of_int ?c"]) (simp add: pthread_cond_timedwait_def vendor_do_def)
qed

definition quiet_vendor :: vendor where
  "quiet_vendor = \<lparr>bound = (\<lambda>_. True), answer = (\<lambda>_ _. 0), pointer_answer = (\<lambda>_ _. 0),
     int_out = (\<lambda>_ _. 0), attr_buf = 4096, once_lock = 8192\<rparr>"

theorem timed_wait_clamped_witness:
  "\<exists>usec s'. pthread_cond_timedwait quiet_vendor 1 2 (Some \<lparr>tv_sec = 10000, tv_nsec = 0\<rparr>) (Some \<lparr>tv_sec = 0, tv_nsec = 0\<rparr>) threads_init =
     Some (0, s') \<and> calls s' = [Call ''scePthreadCondTimedwait'' [Ptr 1, Ptr 2, Val usec]] \<and> uint usec = 0xFFFFFFFF"
  using timed_wait_clamped [of quiet_vendor "\<lparr>tv_sec = 10000, tv_nsec = 0\<rparr>" "\<lparr>tv_sec = 0, tv_nsec = 0\<rparr>" 1 2 threads_init]
  by (auto simp: instant_def quiet_vendor_def threads_init_def to_errno_def)

section \<open>The stack of a created thread\<close>

text \<open>
  With the attribute calls bound and accepted, a thread created without an attribute is given the
  8 MB stack, the attribute is destroyed afterwards and nothing is logged.
\<close>

lemma default_stack:
  assumes "\<And>fn. bound v fn" and "attr_buf v \<noteq> 0" and "\<And>h b. answer v h (Call ''scePthreadAttrInit'' b) = 0"
    and "\<And>h b. answer v h (Call ''scePthreadAttrSetstacksize'' b) = 0"
  shows "calls (snd (pthread_create v thread 0 start arg s)) = calls s @
      [Call ''scePthreadAttrInit'' [Ptr (attr_buf v)],
       Call ''scePthreadAttrSetstacksize'' [Ptr (attr_buf v), Size 0x800000],
       Call ''scePthreadCreate'' [Ptr thread, Ptr (attr_buf v), Ptr start, Ptr arg, Str k_thread_name],
       Call ''scePthreadAttrDestroy'' [Ptr (attr_buf v)]]"
    and "log_lines (snd (pthread_create v thread 0 start arg s)) = log_lines s"
  using assms by (simp_all add: pthread_create_def stack_attr_def vendor_do_def MESA_THREAD_STACK_BYTES_def Let_def)

section \<open>One-time initialisation\<close>

text \<open>
  \<open>pthread_once\<close> after its lock is ready, one step per access to the shared state: taking the lock,
  the test of \<open>once->state\<close> with its assignment, releasing the lock, and the routine running. A
  mutex is held by at most one thread, which is what the vendor's mutex promises. \<open>once_by\<close> is
  \<open>once->state\<close>, \<open>None\<close> for 0, with the thread that set it.
\<close>

datatype once_pc = Idle | Calling nat | Holding nat | Claimed nat | Running nat | Returned nat

record once_world =
  pc :: "nat \<Rightarrow> once_pc"
  holder :: "nat option"
  once_by :: "nat \<Rightarrow> nat option"
  started :: "nat \<Rightarrow> nat"
  finished :: "nat \<Rightarrow> nat"

definition once_world_init :: once_world where
  "once_world_init = \<lparr>pc = (\<lambda>_. Idle), holder = None, once_by = (\<lambda>_. None), started = (\<lambda>_. 0), finished = (\<lambda>_. 0)\<rparr>"

inductive once_step :: "once_world \<Rightarrow> once_world \<Rightarrow> bool" where
  Call: "pc w t = Idle \<or> pc w t = Returned o' \<Longrightarrow> once_step w (w\<lparr>pc := (pc w)(t := Calling x)\<rparr>)"
| Lock: "pc w t = Calling x \<Longrightarrow> holder w = None \<Longrightarrow>
    once_step w (w\<lparr>pc := (pc w)(t := Holding x), holder := Some t\<rparr>)"
| Claim: "pc w t = Holding x \<Longrightarrow> once_by w x = None \<Longrightarrow>
    once_step w (w\<lparr>pc := (pc w)(t := Claimed x), once_by := (once_by w)(x := Some t)\<rparr>)"
| Begin: "pc w t = Claimed x \<Longrightarrow>
    once_step w (w\<lparr>pc := (pc w)(t := Running x), holder := None, started := (started w)(x := started w x + 1)\<rparr>)"
| Finish: "pc w t = Running x \<Longrightarrow>
    once_step w (w\<lparr>pc := (pc w)(t := Returned x), finished := (finished w)(x := finished w x + 1)\<rparr>)"
| Skip: "pc w t = Holding x \<Longrightarrow> once_by w x \<noteq> None \<Longrightarrow>
    once_step w (w\<lparr>pc := (pc w)(t := Returned x), holder := None\<rparr>)"

definition once_reachable :: "once_world \<Rightarrow> bool" where
  "once_reachable w \<longleftrightarrow> once_step\<^sup>*\<^sup>* once_world_init w"

definition pc_ok :: "once_world \<Rightarrow> nat \<Rightarrow> bool" where
  "pc_ok w t =
     (case pc w t of
        Holding x \<Rightarrow> holder w = Some t
      | Claimed x \<Rightarrow> holder w = Some t \<and> once_by w x = Some t \<and> started w x = 0
      | Running x \<Rightarrow> started w x = 1
      | Returned x \<Rightarrow> started w x = 1
      | _ \<Rightarrow> True)"

definition once_ok :: "once_world \<Rightarrow> nat \<Rightarrow> bool" where
  "once_ok w x =
     (case once_by w x of
        None \<Rightarrow> started w x = 0
      | Some t \<Rightarrow> started w x = 1 \<or> started w x = 0 \<and> pc w t = Claimed x)"

definition once_inv :: "once_world \<Rightarrow> bool" where
  "once_inv w \<longleftrightarrow> (\<forall>t. pc_ok w t) \<and> (\<forall>x. once_ok w x)"

lemma once_step_inv:
  assumes "once_step w w'" and "once_inv w"
  shows "once_inv w'"
proof -
  have p: "pc_ok w t" and o: "once_ok w x" for t x using assms(2) by (simp_all add: once_inv_def)
  have "pc_ok w' t' \<and> once_ok w' y" for t' y
    using assms(1)
  proof cases
    case (Call t o' x)
    then show ?thesis using p [of t] p [of t'] o [of y]
      by (auto simp: pc_ok_def once_ok_def split: once_pc.splits option.splits)
  next
    case (Lock t x)
    then show ?thesis using p [of t] p [of t'] o [of y]
      by (auto simp: pc_ok_def once_ok_def split: once_pc.splits option.splits)
  next
    case (Claim t x)
    then show ?thesis using p [of t] p [of t'] o [of y] o [of x]
      by (auto simp: pc_ok_def once_ok_def split: once_pc.splits option.splits)
  next
    case (Begin t x)
    then show ?thesis using p [of t] p [of t'] o [of y]
      by (auto simp: pc_ok_def once_ok_def split: once_pc.splits option.splits)
  next
    case (Finish t x)
    then show ?thesis using p [of t] p [of t'] o [of y]
      by (auto simp: pc_ok_def once_ok_def split: once_pc.splits option.splits)
  next
    case (Skip t x)
    then show ?thesis using p [of t] p [of t'] p [of "the (once_by w x)"] o [of y] o [of x]
      by (auto simp: pc_ok_def once_ok_def split: once_pc.splits option.splits)
  qed
  then show ?thesis by (simp add: once_inv_def)
qed

interpretation once: transition_system once_step "\<lambda>w. w = once_world_init" once_inv
proof unfold_locales
  show "once_inv w" if "w = once_world_init" for w
    using that by (simp add: once_inv_def pc_ok_def once_ok_def once_world_init_def)
qed (rule once_step_inv)

lemma once_reachable_inv: "once_reachable w \<Longrightarrow> once_inv w"
  unfolding once_reachable_def by (rule once.reachable_inv) simp

text \<open>Thread 1 claims the control and is inside its routine; thread 2 has called and returned.\<close>

definition second_returned :: "nat \<Rightarrow> once_world" where
  "second_returned x = \<lparr>pc = (\<lambda>_. Idle)(1 := Running x, 2 := Returned x), holder = None,
     once_by = (\<lambda>_. None)(x := Some 1), started = (\<lambda>_. 0)(x := 1), finished = (\<lambda>_. 0)\<rparr>"

lemma second_returned_reachable: "once_reachable (second_returned x)"
proof -
  define wd where "wd p h c n = \<lparr>pc = p, holder = h, once_by = (\<lambda>_. None)(x := c), started = (\<lambda>_. 0)(x := n),
    finished = (\<lambda>_. 0)\<rparr>" for p h c and n :: nat
  define one where "one q = (\<lambda>_ :: nat. Idle)(1 := q)" for q
  define two where "two q = (one (Running x))(2 := q)" for q
  note defs = wd_def one_def two_def
  have "once_step (wd (one Idle) None None 0) (wd (one (Calling x)) None None 0)"
    using once_step.Call [of "wd (one Idle) None None 0" 1] by (simp add: defs fun_upd_def)
  moreover have "once_step (wd (one (Calling x)) None None 0) (wd (one (Holding x)) (Some 1) None 0)"
    using once_step.Lock [of "wd (one (Calling x)) None None 0" 1 x] by (simp add: defs)
  moreover have "once_step (wd (one (Holding x)) (Some 1) None 0) (wd (one (Claimed x)) (Some 1) (Some 1) 0)"
    using once_step.Claim [of "wd (one (Holding x)) (Some 1) None 0" 1 x] by (simp add: defs)
  moreover have "once_step (wd (one (Claimed x)) (Some 1) (Some 1) 0) (wd (two Idle) None (Some 1) 1)"
    using once_step.Begin [of "wd (one (Claimed x)) (Some 1) (Some 1) 0" 1 x] by (simp add: defs fun_upd_idem)
  moreover have "once_step (wd (two Idle) None (Some 1) 1) (wd (two (Calling x)) None (Some 1) 1)"
    using once_step.Call [of "wd (two Idle) None (Some 1) 1" 2] by (simp add: defs)
  moreover have "once_step (wd (two (Calling x)) None (Some 1) 1) (wd (two (Holding x)) (Some 2) (Some 1) 1)"
    using once_step.Lock [of "wd (two (Calling x)) None (Some 1) 1" 2 x] by (simp add: defs)
  moreover have "once_step (wd (two (Holding x)) (Some 2) (Some 1) 1) (wd (two (Returned x)) None (Some 1) 1)"
    using once_step.Skip [of "wd (two (Holding x)) (Some 2) (Some 1) 1" 2 x] by (simp add: defs)
  moreover have "once_world_init = wd (one Idle) None None 0" by (simp add: once_world_init_def defs fun_upd_idem)
  ultimately have "once_reachable (wd (two (Returned x)) None (Some 1) 1)"
    unfolding once_reachable_def by (metis converse_rtranclp_into_rtranclp rtranclp.rtrancl_refl)
  then show ?thesis by (simp add: defs second_returned_def)
qed




end
