(* ===== verification/Loader.thy ===== *)
theory Loader
  imports Buffers
begin

unbundle bit_operations_syntax

text \<open>
  The platform shim: the DRI loader of \<open>src/src/platform/dri_loader.c\<close> and the renderer API of
  \<open>src/src/platform/gfx.c\<close> above it. Mesa's frontend, the display and the C allocator are code
  outside these files: what each call answers is a parameter over the history of what the loader
  did, and the winsys's record of the buffers Mesa allocated is a parameter of the same kind, read
  with the functions of the buffer table. A pointer is a number and 0 is null. Log lines and the
  timings that only they use are left out.
\<close>

section \<open>The calls\<close>

datatype resource =
    GlState | Screen nat | Drawable nat | Context nat | Image nat | Display nat | Scanbuf nat | Descriptor int

datatype ev =
    Made resource
  | Gone resource
  | Refused
  | Flush nat
  | Flip int
  | WaitScanout
  | Invalidate nat
  | Present "u32 list"

datatype attr = RED_SIZE | GREEN_SIZE | BLUE_SIZE | ALPHA_SIZE | DOUBLE_BUFFER | DEPTH_SIZE

text \<open>A config as the loader sees it: its first member and what \<open>driGetConfigAttrib\<close> answers for it.\<close>

record dri_config =
  color_format :: int
  attrib :: "attr \<Rightarrow> u32 option"

record frontend =
  fe_calloc :: "ev list \<Rightarrow> bool"
  fe_open :: "ev list \<Rightarrow> int"
  fe_dup :: "ev list \<Rightarrow> int \<Rightarrow> int"
  fe_screen :: "ev list \<Rightarrow> nat"
  fe_configs :: "ev list \<Rightarrow> dri_config list option"
  fe_drawable :: "ev list \<Rightarrow> nat"
  fe_context :: "ev list \<Rightarrow> nat"
  fe_make_current :: "ev list \<Rightarrow> bool"
  fe_image :: "ev list \<Rightarrow> nat"
  fe_gem :: "ev list \<Rightarrow> nat \<Rightarrow> u32 option"
  fe_winsys :: "ev list \<Rightarrow> buffers"
  fe_display :: "ev list \<Rightarrow> u64 list \<Rightarrow> nat"
  fe_ready :: "ev list \<Rightarrow> nat \<Rightarrow> bool"
  fe_malloc :: "ev list \<Rightarrow> nat \<Rightarrow> nat"
  fe_adopted_index :: "ev list \<Rightarrow> nat \<Rightarrow> int"
  fe_flip :: "ev list \<Rightarrow> int \<Rightarrow> bool"
  fe_pixels :: "ev list \<Rightarrow> u32 list"
  fe_probe :: "ev list \<Rightarrow> u32 \<Rightarrow> u32 \<Rightarrow> nat"
  fe_default_size :: "u32 \<times> u32"

record oops_gl =
  screen :: nat
  drawable :: nat
  gl_context :: nat
  back_image :: "nat \<Rightarrow> nat"
  draw :: nat
  n_images :: nat
  width :: u32
  height :: u32
  format :: int
  fd :: int
  gem :: "nat \<Rightarrow> u32"
  gem_bytes :: "nat \<Rightarrow> u64"
  scanout_index :: "nat \<Rightarrow> int"
  registered :: bool
  direct_tried :: bool
  display :: nat
  scanbuf :: nat

definition gl_zero :: oops_gl where
  "gl_zero = \<lparr>screen = 0, drawable = 0, gl_context = 0, back_image = (\<lambda>_. 0), draw = 0, n_images = 0, width = 0,
     height = 0, format = 0, fd = 0, gem = (\<lambda>_. 0), gem_bytes = (\<lambda>_. 0), scanout_index = (\<lambda>_. 0),
     registered = False, direct_tried = False, display = 0, scanbuf = 0\<rparr>"

section \<open>Colour buffers\<close>

text \<open>
  The frontend's request for the drawable's buffers: whether it succeeds, and the image it gets.
  \<open>wants_back\<close> is the back-buffer bit of the mask.
\<close>

definition oops_get_buffers ::
    "frontend \<Rightarrow> bool \<Rightarrow> oops_gl \<times> ev list \<Rightarrow> (bool \<times> nat) \<times> (oops_gl \<times> ev list)" where
  "oops_get_buffers fe wants_back = (\<lambda>(gl, h).
     if \<not> wants_back then ((False, 0), (gl, h))
     else let which = (if draw gl > 1 then 0 else draw gl) in
       if back_image gl which = 0
       then let image = fe_image fe h in
            if image = 0 then ((False, 0), (gl, h @ [Refused]))
            else let h1 = h @ [Made (Image image)];
                     gl1 = gl\<lparr>back_image := (back_image gl)(which := image)\<rparr>;
                     gl2 = (case fe_gem fe h1 image of
                              None \<Rightarrow> gl1
                            | Some g \<Rightarrow> gl1\<lparr>gem := (gem gl1)(which := g),
                                gem_bytes := (gem_bytes gl1)(which := oops_winsys_bo_size (fe_winsys fe h1) g)\<rparr>)
                 in ((True, image), (gl2, h1))
       else ((True, back_image gl which), (gl, h)))"

definition ensure_back_image :: "frontend \<Rightarrow> nat \<Rightarrow> oops_gl \<times> ev list \<Rightarrow> bool \<times> (oops_gl \<times> ev list)" where
  "ensure_back_image fe which = (\<lambda>(gl, h).
     if which > 1 then (False, (gl, h))
     else if back_image gl which \<noteq> 0 then (True, (gl, h))
     else let saved = draw gl;
              ((ok, _), (gl1, h1)) = oops_get_buffers fe True (gl\<lparr>draw := which\<rparr>, h)
          in (ok \<and> back_image gl1 which \<noteq> 0, (gl1\<lparr>draw := saved\<rparr>, h1)))"

datatype loader_cap = DRI_LOADER_CAP_FP16 | DRI_LOADER_CAP_RGBA_ORDERING | DRI_LOADER_CAP_OTHER

fun oops_get_capability :: "loader_cap \<Rightarrow> u32" where
  "oops_get_capability DRI_LOADER_CAP_FP16 = 0"
| "oops_get_capability DRI_LOADER_CAP_RGBA_ORDERING = 1"
| "oops_get_capability DRI_LOADER_CAP_OTHER = 0"

section \<open>Choosing a config\<close>

definition config_format :: "dri_config \<Rightarrow> int" where
  "config_format config = color_format config"

definition config_8888_double :: "dri_config \<Rightarrow> bool" where
  "config_8888_double c =
     (case (attrib c RED_SIZE, attrib c GREEN_SIZE, attrib c BLUE_SIZE, attrib c ALPHA_SIZE, attrib c DOUBLE_BUFFER) of
        (Some r, Some g, Some b, Some a, Some dbl) \<Rightarrow> r = 8 \<and> g = 8 \<and> b = 8 \<and> a = 8 \<and> dbl \<noteq> 0
      | _ \<Rightarrow> False)"

definition config_depth :: "dri_config \<Rightarrow> u32" where
  "config_depth c = (case attrib c DEPTH_SIZE of Some d \<Rightarrow> d | None \<Rightarrow> 0)"

fun choose_loop :: "dri_config list \<Rightarrow> dri_config option \<Rightarrow> u32 \<Rightarrow> dri_config option" where
  "choose_loop [] best best_depth = best"
| "choose_loop (c # cs) best best_depth =
     (if \<not> config_8888_double c then choose_loop cs best best_depth
      else if best = None \<or> config_depth c > best_depth then choose_loop cs (Some c) (config_depth c)
      else choose_loop cs best best_depth)"

definition choose_config :: "dri_config list option \<Rightarrow> dri_config option" where
  "choose_config configs = (case configs of None \<Rightarrow> None | Some cs \<Rightarrow> choose_loop cs None 0)"

section \<open>Bringing GL up\<close>

definition plain_bytes :: "oops_gl \<Rightarrow> u64" where
  "plain_bytes gl = ucast (width gl) * ((ucast (height gl) + 127) AND NOT 127) * 4"

text \<open>The two descriptors the dup probe asks for; a negative answer is a refusal.\<close>

definition dup_probe :: "frontend \<Rightarrow> int \<Rightarrow> ev list \<Rightarrow> ev list" where
  "dup_probe fe f h =
     (let note = (\<lambda>h. let d = fe_dup fe h f in h @ [if d < 0 then Refused else Made (Descriptor d)])
      in note (note h))"

fun ensure_images :: "frontend \<Rightarrow> nat list \<Rightarrow> oops_gl \<times> ev list \<Rightarrow> oops_gl \<times> ev list" where
  "ensure_images fe [] s = s"
| "ensure_images fe (i # is) s =
     (let (ok, (gl, h)) = ensure_back_image fe i s in
      if \<not> ok then (gl, h) else ensure_images fe is (gl\<lparr>n_images := i + 1\<rparr>, h))"

definition image_va :: "frontend \<Rightarrow> ev list \<Rightarrow> oops_gl \<Rightarrow> nat \<Rightarrow> u64" where
  "image_va fe h gl i = (if gem gl i \<noteq> 0 then oops_winsys_bo_gpu_va (fe_winsys fe h) (gem gl i) else 0)"

text \<open>The addresses offered to the display: those of all colour buffers, or none.\<close>

definition adoptable :: "frontend \<Rightarrow> ev list \<Rightarrow> oops_gl \<Rightarrow> u64 list" where
  "adoptable fe h gl =
     (let adopt = map (image_va fe h gl)
            (filter (\<lambda>i. image_va fe h gl i \<noteq> 0 \<and> gem_bytes gl i = plain_bytes gl) [0..<n_images gl])
      in if length adopt \<noteq> n_images gl then [] else adopt)"

definition open_display :: "frontend \<Rightarrow> oops_gl \<times> ev list \<Rightarrow> oops_gl \<times> ev list" where
  "open_display fe = (\<lambda>(gl, h).
     let d = fe_display fe h (adoptable fe h gl);
         h1 = h @ [if d = 0 then Refused else Made (Display d)]
     in if d \<noteq> 0 \<and> fe_ready fe h1 d
        then let p = fe_malloc fe h1 (unat (ucast (width gl) * ucast (height gl) * 4 :: u64)) in
             if p = 0 then (gl\<lparr>display := 0, scanbuf := 0\<rparr>, h1 @ [Refused, Gone (Display d)])
             else (gl\<lparr>display := d, scanbuf := p\<rparr>, h1 @ [Made (Scanbuf p)])
        else if d \<noteq> 0 then (gl\<lparr>display := 0\<rparr>, h1 @ [Gone (Display d)])
        else (gl\<lparr>display := 0\<rparr>, h1))"

definition oops_gl_create :: "frontend \<Rightarrow> u32 \<Rightarrow> u32 \<Rightarrow> ev list \<Rightarrow> oops_gl option \<times> ev list" where
  "oops_gl_create fe w ht h0 =
     (if \<not> fe_calloc fe h0 then (None, h0 @ [Refused])
      else let h1 = h0 @ [Made GlState]; f = fe_open fe h1 in
      if f < 0 then (None, h1 @ [Gone GlState])
      else let h2 = dup_probe fe f h1; scr = fe_screen fe h2 in
      if scr = 0 then (None, h2 @ [Refused, Gone GlState])
      else let h3 = h2 @ [Made (Screen scr)] in
      case choose_config (fe_configs fe h3) of
        None \<Rightarrow> (None, h3 @ [Gone (Screen scr), Gone GlState])
      | Some config \<Rightarrow>
          let dr = fe_drawable fe h3 in
          if dr = 0 then (None, h3 @ [Refused, Gone (Screen scr), Gone GlState])
          else let h4 = h3 @ [Made (Drawable dr)]; cx = fe_context fe h4 in
          if cx = 0 then (None, h4 @ [Refused, Gone (Drawable dr), Gone (Screen scr), Gone GlState])
          else let h5 = h4 @ [Made (Context cx)] in
          if \<not> fe_make_current fe h5
          then (None, h5 @ [Gone (Context cx), Gone (Drawable dr), Gone (Screen scr), Gone GlState])
          else let gl = gl_zero\<lparr>width := w, height := ht, fd := f, screen := scr, format := config_format config,
                          drawable := dr, gl_context := cx\<rparr>;
                   (gl1, h6) = open_display fe (ensure_images fe [0, 1] (gl, h5))
               in (Some gl1, h6))"

section \<open>Presenting\<close>

fun scanout_loop :: "frontend \<Rightarrow> nat list \<Rightarrow> oops_gl \<times> ev list \<Rightarrow> bool \<times> (oops_gl \<times> ev list)" where
  "scanout_loop fe [] s = (True, s)"
| "scanout_loop fe (i # is) (gl, h) =
     (let index = fe_adopted_index fe h i in
      if index < 0 then (False, (gl, h))
      else scanout_loop fe is (gl\<lparr>scanout_index := (scanout_index gl)(i := index)\<rparr>, h))"

definition try_direct_scanout :: "frontend \<Rightarrow> oops_gl \<times> ev list \<Rightarrow> bool \<times> (oops_gl \<times> ev list)" where
  "try_direct_scanout fe = (\<lambda>(gl, h).
     let gl0 = gl\<lparr>direct_tried := True\<rparr> in
     if display gl0 = 0 \<or> n_images gl0 = 0 then (False, (gl0, h))
     else let (ok, (gl1, h1)) = scanout_loop fe [0..<n_images gl0] (gl0, h) in
          if ok then (True, (gl1\<lparr>registered := True\<rparr>, h1)) else (False, (gl1, h1)))"

text \<open>\<open>swap_rows\<close> exchanges two rows element by element; \<open>None\<close> is an access outside the frame.\<close>

definition swap_cell :: "nat \<Rightarrow> nat \<Rightarrow> u32 list option \<Rightarrow> u32 list option" where
  "swap_cell i j buf =
     (case buf of
        None \<Rightarrow> None
      | Some b \<Rightarrow> if i < length b \<and> j < length b then Some (b[i := b ! j, j := b ! i]) else None)"

definition swap_rows :: "nat \<Rightarrow> nat \<Rightarrow> nat \<Rightarrow> u32 list option \<Rightarrow> u32 list option" where
  "swap_rows w y1 y2 buf = fold (\<lambda>x. swap_cell (y1 * w + x) (y2 * w + x)) [0..<w] buf"

definition mirror :: "nat \<Rightarrow> nat \<Rightarrow> u32 list \<Rightarrow> u32 list option" where
  "mirror w ht buf = fold (\<lambda>y. swap_rows w y (ht - 1 - y)) [0..<ht div 2] (Some buf)"

definition flip_next :: "oops_gl \<times> ev list \<Rightarrow> oops_gl \<times> ev list" where
  "flip_next = (\<lambda>(gl, h).
     if n_images gl > 1
     then (gl\<lparr>draw := (draw gl + 1) mod n_images gl\<rparr>, h @ [WaitScanout, Invalidate (drawable gl)])
     else (gl, h))"

definition readback_present :: "frontend \<Rightarrow> oops_gl \<times> ev list \<Rightarrow> (bool \<times> (oops_gl \<times> ev list)) option" where
  "readback_present fe = (\<lambda>(gl, h).
     if display gl = 0 \<or> scanbuf gl = 0 then Some (False, (gl, h))
     else (case mirror (unat (width gl)) (unat (height gl)) (fe_pixels fe h) of
             None \<Rightarrow> None
           | Some frame \<Rightarrow> Some (True, (gl, h @ [Present frame]))))"

text \<open>The frame on screen: a flip of the buffer drawn into, or the copy when there is no direct scanout.\<close>

definition show_frame :: "frontend \<Rightarrow> oops_gl \<times> ev list \<Rightarrow> (bool \<times> (oops_gl \<times> ev list)) option" where
  "show_frame fe = (\<lambda>(gl, h).
     if registered gl
     then let shown = (if draw gl < n_images gl then draw gl else 0);
              index = scanout_index gl shown
          in if fe_flip fe h index then Some (True, flip_next (gl, h @ [Flip index]))
             else readback_present fe (gl\<lparr>registered := False\<rparr>, h @ [Refused])
     else readback_present fe (gl, h))"

text \<open>\<open>None\<close> is a frame that does not fit its buffer; a null handle is the caller's \<open>None\<close>.\<close>

definition oops_gl_present ::
    "frontend \<Rightarrow> oops_gl option \<Rightarrow> ev list \<Rightarrow> (bool \<times> (oops_gl option \<times> ev list)) option" where
  "oops_gl_present fe handle h =
     (case handle of
        None \<Rightarrow> Some (False, (None, h))
      | Some gl \<Rightarrow>
          if drawable gl = 0 then Some (False, (Some gl, h))
          else let h1 = h @ [Flush (drawable gl)];
                   s = (if \<not> direct_tried gl then snd (try_direct_scanout fe (gl, h1)) else (gl, h1))
               in map_option (\<lambda>(ok, (gl2, h2)). (ok, (Some gl2, h2))) (show_frame fe s))"

definition oops_gl_destroy :: "oops_gl option \<Rightarrow> ev list \<Rightarrow> ev list" where
  "oops_gl_destroy handle h =
     (case handle of
        None \<Rightarrow> h
      | Some gl \<Rightarrow> h @
          (if scanbuf gl \<noteq> 0 then [Gone (Scanbuf (scanbuf gl))] else []) @
          (if display gl \<noteq> 0 then [Gone (Display (display gl))] else []) @
          concat (map (\<lambda>i. if back_image gl i \<noteq> 0 then [Gone (Image (back_image gl i))] else []) [0..<2]) @
          (if gl_context gl \<noteq> 0 then [Gone (Context (gl_context gl))] else []) @
          (if drawable gl \<noteq> 0 then [Gone (Drawable (drawable gl))] else []) @
          (if screen gl \<noteq> 0 then [Gone (Screen (screen gl))] else []) @
          [Gone GlState])"

definition oops_gl_extent :: "oops_gl option \<Rightarrow> (u32 \<times> u32) option" where
  "oops_gl_extent handle = map_option (\<lambda>gl. (width gl, height gl)) handle"

definition oops_gl_display :: "oops_gl option \<Rightarrow> nat" where
  "oops_gl_display handle = (case handle of None \<Rightarrow> 0 | Some gl \<Rightarrow> display gl)"

section \<open>The renderer API\<close>

record oops_gfx =
  gfx_gl :: "oops_gl option"
  in_use :: bool

definition gfx_init :: oops_gfx where
  "gfx_init = \<lparr>gfx_gl = None, in_use = False\<rparr>"

text \<open>The size to open: the wished one, unless it differs from the default and would not scan out.\<close>

definition gfx_size :: "frontend \<Rightarrow> u32 \<Rightarrow> u32 \<Rightarrow> ev list \<Rightarrow> (u32 \<times> u32) \<times> ev list" where
  "gfx_size fe w ht h =
     (let (dw, dh) = fe_default_size fe in
      if w \<noteq> dw \<or> ht \<noteq> dh
      then let p = fe_probe fe h w ht;
               h1 = h @ [if p = 0 then Refused else Made (Display p)];
               scannable = (p \<noteq> 0 \<and> fe_ready fe h1 p);
               h2 = (if p \<noteq> 0 then h1 @ [Gone (Display p)] else h1)
           in (if scannable then (w, ht) else (dw, dh), h2)
      else ((w, ht), h))"

definition oops_gfx_create ::
    "frontend \<Rightarrow> (u32 \<times> u32) option \<Rightarrow> oops_gfx \<Rightarrow> ev list \<Rightarrow> bool \<times> (oops_gfx \<times> ev list)" where
  "oops_gfx_create fe desc s h =
     (if in_use s then (False, (s, h))
      else let (dw, dh) = fe_default_size fe;
               w = (case desc of Some (w, _) \<Rightarrow> if w \<noteq> 0 then w else dw | None \<Rightarrow> dw);
               ht = (case desc of Some (_, ht) \<Rightarrow> if ht \<noteq> 0 then ht else dh | None \<Rightarrow> dh);
               ((use_w, use_h), h1) = gfx_size fe w ht h;
               (gl, h2) = oops_gl_create fe use_w use_h h1
           in case gl of
                None \<Rightarrow> (False, (s, h2))
              | Some _ \<Rightarrow> (True, (\<lparr>gfx_gl = gl, in_use = True\<rparr>, h2)))"

definition oops_gfx_present ::
    "frontend \<Rightarrow> oops_gfx \<Rightarrow> ev list \<Rightarrow> (bool \<times> (oops_gfx \<times> ev list)) option" where
  "oops_gfx_present fe s h =
     (if gfx_gl s = None then Some (False, (s, h))
      else map_option (\<lambda>(ok, (gl, h1)). (ok, (s\<lparr>gfx_gl := gl\<rparr>, h1))) (oops_gl_present fe (gfx_gl s) h))"

definition oops_gfx_extent :: "oops_gfx \<Rightarrow> (u32 \<times> u32) option" where
  "oops_gfx_extent s = oops_gl_extent (gfx_gl s)"

definition oops_gfx_display :: "oops_gfx \<Rightarrow> nat" where
  "oops_gfx_display s = oops_gl_display (gfx_gl s)"

definition oops_gfx_destroy :: "oops_gfx \<Rightarrow> ev list \<Rightarrow> oops_gfx \<times> ev list" where
  "oops_gfx_destroy s h =
     (\<lparr>gfx_gl = None, in_use = False\<rparr>, oops_gl_destroy (gfx_gl s) h)"

end
