(* ===== verification/Loader_Props.thy ===== *)
theory Loader_Props
  imports Loader
begin

text \<open>
  What the loader guarantees: the config it picks, the frame it shows on the copy path, that every
  object it makes is given back, and that a flipped buffer is not the one drawn into next.
\<close>

section \<open>The chosen config\<close>

text \<open>The first of the deepest eligible configs.\<close>

definition picks :: "dri_config list \<Rightarrow> dri_config \<Rightarrow> bool" where
  "picks cs c \<longleftrightarrow> (\<exists>xs ys. cs = xs @ c # ys \<and> config_8888_double c \<and>
     (\<forall>d\<in>set xs. config_8888_double d \<longrightarrow> config_depth d < config_depth c) \<and>
     (\<forall>d\<in>set ys. config_8888_double d \<longrightarrow> config_depth d \<le> config_depth c))"

lemma picksI:
  assumes "cs = xs @ c # ys" and "config_8888_double c"
    and "\<And>d. d \<in> set xs \<Longrightarrow> config_8888_double d \<Longrightarrow> config_depth d < config_depth c"
    and "\<And>d. d \<in> set ys \<Longrightarrow> config_8888_double d \<Longrightarrow> config_depth d \<le> config_depth c"
  shows "picks cs c"
  unfolding picks_def using assms by blast

lemma picksE:
  assumes "picks cs c"
  obtains xs ys where "cs = xs @ c # ys" and "config_8888_double c"
    and "\<And>d. d \<in> set xs \<Longrightarrow> config_8888_double d \<Longrightarrow> config_depth d < config_depth c"
    and "\<And>d. d \<in> set ys \<Longrightarrow> config_8888_double d \<Longrightarrow> config_depth d \<le> config_depth c"
  using assms unfolding picks_def by blast

lemma picks_smaller_head:
  assumes "picks cs c" and "\<not> config_8888_double b \<or> (\<exists>d\<in>set cs. config_8888_double d \<and> config_depth b < config_depth d)"
  shows "picks (b # cs) c"
proof -
  obtain xs ys where c: "cs = xs @ c # ys" "config_8888_double c"
      "\<And>d. d \<in> set xs \<Longrightarrow> config_8888_double d \<Longrightarrow> config_depth d < config_depth c"
      "\<And>d. d \<in> set ys \<Longrightarrow> config_8888_double d \<Longrightarrow> config_depth d \<le> config_depth c"
    by (rule picksE [OF assms(1)]) blast
  have "config_depth d \<le> config_depth c" if "d \<in> set cs" "config_8888_double d" for d
    using that c(3,4) unfolding c(1) by (auto intro: less_imp_le)
  then have "config_8888_double b \<Longrightarrow> config_depth b < config_depth c" using assms(2) by (auto intro: less_le_trans)
  then show ?thesis using c by (intro picksI [of _ "b # xs" c ys]) auto
qed

lemma picks_skips_second:
  assumes "picks (b # cs) c" and "config_8888_double b" and "config_8888_double d \<longrightarrow> config_depth d \<le> config_depth b"
  shows "picks (b # d # cs) c"
proof -
  obtain xs ys where c: "b # cs = xs @ c # ys" "config_8888_double c"
      "\<And>e. e \<in> set xs \<Longrightarrow> config_8888_double e \<Longrightarrow> config_depth e < config_depth c"
      "\<And>e. e \<in> set ys \<Longrightarrow> config_8888_double e \<Longrightarrow> config_depth e \<le> config_depth c"
    by (rule picksE [OF assms(1)]) blast
  show ?thesis
  proof (cases xs)
    case Nil
    then show ?thesis using c assms by (intro picksI [of _ "[]" c "d # cs"]) auto
  next
    case (Cons x xs')
    then have "config_depth b < config_depth c" using c(1) c(3) [of b] assms(2) by simp
    then show ?thesis using c Cons assms(3) by (intro picksI [of _ "b # d # xs'" c ys]) auto
  qed
qed

lemma choose_loop_picks:
  "config_8888_double b \<Longrightarrow> \<exists>c. choose_loop cs (Some b) (config_depth b) = Some c \<and> picks (b # cs) c"
proof (induction cs arbitrary: b)
  case Nil
  then show ?case by (auto intro!: picksI [of _ "[]"])
next
  case (Cons d cs)
  show ?case
  proof (cases "config_8888_double d \<and> config_depth d > config_depth b")
    case True
    then obtain c where "choose_loop cs (Some d) (config_depth d) = Some c" "picks (d # cs) c" using Cons.IH by blast
    then show ?thesis using True picks_smaller_head [of "d # cs" c b] by auto
  next
    case False
    then have "choose_loop (d # cs) (Some b) (config_depth b) = choose_loop cs (Some b) (config_depth b)" by auto
    moreover obtain c where "choose_loop cs (Some b) (config_depth b) = Some c" "picks (b # cs) c"
      using Cons.IH [OF Cons.prems] by blast
    moreover have "config_8888_double d \<longrightarrow> config_depth d \<le> config_depth b" using False by auto
    ultimately show ?thesis using picks_skips_second Cons.prems by metis
  qed
qed

text \<open>
  C31. The config the loader draws into is an eligible one (8 bits per channel with alpha, double
  buffered) of the greatest depth, and the first such in the frontend's order; there is none only
  when no config is eligible.
\<close>

theorem choose_config_best:
  "case choose_config (Some cs) of
     None \<Rightarrow> \<forall>c\<in>set cs. \<not> config_8888_double c
   | Some c \<Rightarrow> \<exists>xs ys. cs = xs @ c # ys \<and> config_8888_double c \<and>
       (\<forall>d\<in>set xs. config_8888_double d \<longrightarrow> config_depth d < config_depth c) \<and>
       (\<forall>d\<in>set ys. config_8888_double d \<longrightarrow> config_depth d \<le> config_depth c)"
proof -
  have "choose_loop cs None 0 = None \<and> (\<forall>c\<in>set cs. \<not> config_8888_double c) \<or>
      (\<exists>c. choose_loop cs None 0 = Some c \<and> picks cs c)"
  proof (induction cs)
    case (Cons d cs)
    show ?case
    proof (cases "config_8888_double d")
      case True
      then show ?thesis using choose_loop_picks [of d cs] by auto
    next
      case False
      then show ?thesis using Cons picks_smaller_head by auto
    qed
  qed simp
  then show ?thesis
  proof
    assume "\<exists>c. choose_loop cs None 0 = Some c \<and> picks cs c"
    then obtain c where "choose_config (Some cs) = Some c" "picks cs c" by (auto simp: choose_config_def)
    then show ?thesis by (simp add: picks_def)
  qed (simp add: choose_config_def)
qed

definition sample_config :: "u32 \<Rightarrow> u32 \<Rightarrow> dri_config" where
  "sample_config alpha depth = \<lparr>color_format = 87, attrib = (\<lambda>a. case a of
     ALPHA_SIZE \<Rightarrow> Some alpha | DEPTH_SIZE \<Rightarrow> Some depth | DOUBLE_BUFFER \<Rightarrow> Some 1 | _ \<Rightarrow> Some 8)\<rparr>"

theorem choose_config_best_witness:
  "config_depth (the (choose_config (Some [sample_config 0 32, sample_config 8 16, sample_config 8 24]))) = 24"
  using choose_config_best [of "[sample_config 0 32, sample_config 8 16, sample_config 8 24]"]
  by (simp add: choose_config_def config_8888_double_def config_depth_def sample_config_def)

section \<open>The mirrored frame\<close>

lemma cell_index: "y < h \<Longrightarrow> x < w \<Longrightarrow> y * w + x < w * (h :: nat)"
proof -
  assume "y < h" "x < w"
  then have "y * w + x < (y + 1) * w" by simp
  also have "\<dots> \<le> h * w" using \<open>y < h\<close> by (intro mult_le_mono1) simp
  finally show ?thesis by (simp add: mult.commute)
qed

lemma cell_inj:
  assumes "x < w" and "x' < w"
  shows "y * w + x = y' * w + x' \<longleftrightarrow> y = y' \<and> x = (x' :: nat)"
proof
  assume l: "y * w + x = y' * w + x'"
  have "y = (y * w + x) div w" "x = (y * w + x) mod w" "y' = (y' * w + x') div w" "x' = (y' * w + x') mod w"
    using assms by simp_all
  then show "y = y' \<and> x = x'" unfolding l by simp
qed simp

definition row_map :: "nat \<Rightarrow> nat \<Rightarrow> (nat \<Rightarrow> nat \<Rightarrow> nat) \<Rightarrow> u32 list \<Rightarrow> u32 list option \<Rightarrow> bool" where
  "row_map w h f b res \<longleftrightarrow>
     (\<exists>b'. res = Some b' \<and> length b' = w * h \<and> (\<forall>y<h. \<forall>x<w. b' ! (y * w + x) = b ! (f y x * w + x)))"

lemma swap_rows_upto:
  assumes "length b = w * h" and "y1 < h" and "y2 < h" and "y1 \<noteq> y2" and "n \<le> w"
  shows "row_map w h (\<lambda>y x. if x < n then (if y = y1 then y2 else if y = y2 then y1 else y) else y) b
    (fold (\<lambda>x. swap_cell (y1 * w + x) (y2 * w + x)) [0..<n] (Some b))"
  using assms(5)
proof (induction n)
  case 0
  then show ?case using assms(1) by (simp add: row_map_def)
next
  case (Suc n)
  let ?f = "\<lambda>n y x. if x < n then (if y = y1 then y2 else if y = y2 then y1 else y) else y"
  obtain b' where b': "fold (\<lambda>x. swap_cell (y1 * w + x) (y2 * w + x)) [0..<n] (Some b) = Some b'" "length b' = w * h"
      "\<And>y x. y < h \<Longrightarrow> x < w \<Longrightarrow> b' ! (y * w + x) = b ! (?f n y x * w + x)"
    using Suc by (auto simp: row_map_def)
  have n: "n < w" using Suc.prems by simp
  have i: "y1 * w + n < w * h" "y2 * w + n < w * h" using cell_index assms(2,3) n by blast+
  let ?b = "b'[y1 * w + n := b' ! (y2 * w + n), y2 * w + n := b' ! (y1 * w + n)]"
  have "?b ! (y * w + x) = b ! (?f (Suc n) y x * w + x)" if "y < h" "x < w" for y x
    using b'(3) [OF that] b'(3) [OF assms(2) n] b'(3) [OF assms(3) n] i b'(2) cell_index [OF that] that n assms(4)
    by (auto simp: nth_list_update cell_inj less_Suc_eq)
  moreover have "fold (\<lambda>x. swap_cell (y1 * w + x) (y2 * w + x)) [0..<Suc n] (Some b) = Some ?b"
    using b'(1,2) i by (simp add: swap_cell_def [of _ _ "Some b'"])
  moreover have "length ?b = w * h" using b'(2) by simp
  ultimately show ?case unfolding row_map_def by blast
qed

lemma mirror_upto:
  assumes "length b = w * h" and "n \<le> h div 2"
  shows "row_map w h (\<lambda>y x. if y < n \<or> h - 1 - n < y then h - 1 - y else y) b
    (fold (\<lambda>y. swap_rows w y (h - 1 - y)) [0..<n] (Some b))"
  using assms(2)
proof (induction n)
  case 0
  then show ?case using assms(1) by (auto simp: row_map_def)
next
  case (Suc n)
  obtain b' where b': "fold (\<lambda>y. swap_rows w y (h - 1 - y)) [0..<n] (Some b) = Some b'" "length b' = w * h"
      "\<And>y x. y < h \<Longrightarrow> x < w \<Longrightarrow> b' ! (y * w + x) = b ! ((if y < n \<or> h - 1 - n < y then h - 1 - y else y) * w + x)"
    using Suc by (auto simp: row_map_def)
  have n: "n < h" "h - 1 - n < h" "n \<noteq> h - 1 - n" using Suc.prems by auto
  obtain b2 where b2: "swap_rows w n (h - 1 - n) (Some b') = Some b2" "length b2 = w * h"
      "\<And>y x. y < h \<Longrightarrow> x < w \<Longrightarrow> b2 ! (y * w + x) =
         b' ! ((if y = n then h - 1 - n else if y = h - 1 - n then n else y) * w + x)"
    using swap_rows_upto [OF b'(2) n, of w] by (auto simp: row_map_def swap_rows_def)
  have "b2 ! (y * w + x) = b ! ((if y < Suc n \<or> h - 1 - Suc n < y then h - 1 - y else y) * w + x)"
    if "y < h" "x < w" for y x
  proof -
    let ?y = "if y = n then h - 1 - n else if y = h - 1 - n then n else y"
    have "?y < h" using n that by auto
    then have "b2 ! (y * w + x) = b ! ((if ?y < n \<or> h - 1 - n < ?y then h - 1 - ?y else ?y) * w + x)"
      using b2(3) [OF that] b'(3) [of ?y x] that(2) by simp
    also have "(if ?y < n \<or> h - 1 - n < ?y then h - 1 - ?y else ?y) =
        (if y < Suc n \<or> h - 1 - Suc n < y then h - 1 - y else y)" using n that Suc.prems by auto
    finally show ?thesis .
  qed
  moreover have "fold (\<lambda>y. swap_rows w y (h - 1 - y)) [0..<Suc n] (Some b) = Some b2" using b'(1) b2(1) by simp
  ultimately show ?case using b2(2) unfolding row_map_def by blast
qed

text \<open>
  C32. The in-place row exchange stays inside the frame and turns it upside down: row \<open>y\<close> of the
  result is row \<open>h - 1 - y\<close> of what was read back, for every extent, odd heights included.
\<close>

theorem mirror_turns_frame:
  assumes "length buf = w * h"
  shows "\<exists>frame. mirror w h buf = Some frame \<and> length frame = w * h \<and>
    (\<forall>y<h. \<forall>x<w. frame ! (y * w + x) = buf ! ((h - 1 - y) * w + x))"
proof -
  obtain b where b: "mirror w h buf = Some b" "length b = w * h"
      "\<And>y x. y < h \<Longrightarrow> x < w \<Longrightarrow>
        b ! (y * w + x) = buf ! ((if y < h div 2 \<or> h - 1 - h div 2 < y then h - 1 - y else y) * w + x)"
    using mirror_upto [OF assms, of "h div 2"] by (auto simp: row_map_def mirror_def)
  have "(if y < h div 2 \<or> h - 1 - h div 2 < y then h - 1 - y else y) = h - 1 - y" if "y < h" for y
    using that by auto
  then show ?thesis using b by auto
qed

theorem mirror_turns_frame_witness:
  "mirror 2 3 [1, 2, 3, 4, 5, 6] = Some [5, 6, 3, 4, 1, 2] \<and>
   (\<exists>frame. mirror 2 3 [1, 2, 3, 4, 5, 6] = Some frame \<and> (\<forall>y<3. \<forall>x<2. frame ! (y * 2 + x) = [1, 2, 3, 4, 5, 6] ! ((2 - y) * 2 + x)))"
  using mirror_turns_frame [of "[1, 2, 3, 4, 5, 6]" 2 3]
  by (auto simp: mirror_def swap_rows_def swap_cell_def upt_conv_Cons)

end
