(* ===== verification/Loader_Life.thy ===== *)
theory Loader_Life
  imports Loader_Props
begin

text \<open>
  The life of a GL handle: creation with its failure paths, the frontend's requests, presents and
  destruction, as sequences of operations over the history of what was made and given back.
\<close>

section \<open>What is made and given back\<close>

fun change :: "ev \<Rightarrow> resource \<Rightarrow> int" where
  "change (Made q) r = of_bool (q = r)"
| "change (Gone q) r = - of_bool (q = r)"
| "change _ r = 0"

definition balance :: "ev list \<Rightarrow> resource \<Rightarrow> int" where
  "balance h r = (\<Sum>e\<leftarrow>h. change e r)"

lemma balance_simps [simp]:
  "balance [] r = 0" "balance (e # h) r = change e r + balance h r" "balance (h @ h') r = balance h r + balance h' r"
  by (simp_all add: balance_def)

fun owned :: "oops_gl \<Rightarrow> resource \<Rightarrow> int" where
  "owned gl GlState = 1"
| "owned gl (Screen p) = of_bool (p \<noteq> 0 \<and> screen gl = p)"
| "owned gl (Drawable p) = of_bool (p \<noteq> 0 \<and> drawable gl = p)"
| "owned gl (Context p) = of_bool (p \<noteq> 0 \<and> gl_context gl = p)"
| "owned gl (Image p) = of_bool (p \<noteq> 0 \<and> back_image gl 0 = p) + of_bool (p \<noteq> 0 \<and> back_image gl 1 = p)"
| "owned gl (Display p) = of_bool (p \<noteq> 0 \<and> display gl = p)"
| "owned gl (Scanbuf p) = of_bool (p \<noteq> 0 \<and> scanbuf gl = p)"
| "owned gl (Descriptor d) = 0"

fun is_descriptor :: "resource \<Rightarrow> bool" where
  "is_descriptor (Descriptor d) = True"
| "is_descriptor _ = False"

definition owns :: "(resource \<Rightarrow> int) \<Rightarrow> oops_gl \<times> ev list \<Rightarrow> bool" where
  "owns base = (\<lambda>(gl, h). \<forall>r. \<not> is_descriptor r \<longrightarrow> balance h r = base r + owned gl r)"

definition gl_shape :: "u32 \<Rightarrow> u32 \<Rightarrow> oops_gl \<Rightarrow> bool" where
  "gl_shape w ht gl \<longleftrightarrow> width gl = w \<and> height gl = ht \<and> drawable gl \<noteq> 0 \<and> n_images gl \<le> 2 \<and>
     (draw gl = 0 \<or> draw gl < n_images gl) \<and> (\<forall>i<n_images gl. back_image gl i \<noteq> 0) \<and>
     (registered gl \<longrightarrow> display gl \<noteq> 0 \<and> 0 < n_images gl)"

lemma destroy_gives_back:
  assumes "owns base (gl, h)" and "\<not> is_descriptor r"
  shows "balance (oops_gl_destroy (Some gl) h) r = base r"
proof -
  have "balance h r = base r + owned gl r" using assms by (simp add: owns_def)
  then show ?thesis by (cases r) (auto simp: oops_gl_destroy_def upt_conv_Cons)
qed

lemma get_buffers_cases:
  assumes "oops_get_buffers fe b (gl, h) = ((ok, img), (gl', h'))"
  obtains (refused) "\<not> ok" "gl' = gl" "h' = h \<or> h' = h @ [Refused]"
  | (kept) "ok" "gl' = gl" "h' = h" "img = back_image gl (if draw gl > 1 then 0 else draw gl)" "img \<noteq> 0"
  | (made) which g n where "ok" "which = (if draw gl > 1 then 0 else draw gl)" "back_image gl which = 0" "img \<noteq> 0"
      "gl' = gl\<lparr>back_image := (back_image gl)(which := img), gem := g, gem_bytes := n\<rparr>" "h' = h @ [Made (Image img)]"
proof (cases "b \<and> back_image gl (if draw gl > 1 then 0 else draw gl) = 0 \<and> fe_image fe h \<noteq> 0")
  case False
  then show thesis using assms refused kept
    by (cases b) (auto simp: oops_get_buffers_def Let_def split: if_splits)
next
  case True
  let ?w = "if draw gl > 1 then 0 else draw gl"
  let ?h = "h @ [Made (Image (fe_image fe h))]"
  have r: "ok" "img = fe_image fe h" "h' = ?h"
    "gl' = (let gl1 = gl\<lparr>back_image := (back_image gl)(?w := img)\<rparr> in
       case fe_gem fe ?h (fe_image fe h) of None \<Rightarrow> gl1
       | Some g \<Rightarrow> gl1\<lparr>gem := (gem gl1)(?w := g), gem_bytes := (gem_bytes gl1)(?w := oops_winsys_bo_size (fe_winsys fe ?h) g)\<rparr>)"
    using assms True by (auto simp: oops_get_buffers_def Let_def)
  show thesis
  proof (cases "fe_gem fe ?h (fe_image fe h)")
    case None
    then have g: "gl' = gl\<lparr>back_image := (back_image gl)(?w := img), gem := gem gl, gem_bytes := gem_bytes gl\<rparr>"
      using r(4) by simp
    show thesis by (rule made [OF r(1) refl _ _ g]) (use True r(2,3) in simp_all)
  next
    case (Some d)
    then have g: "gl' = gl\<lparr>back_image := (back_image gl)(?w := img), gem := (gem gl)(?w := d),
        gem_bytes := (gem_bytes gl)(?w := oops_winsys_bo_size (fe_winsys fe ?h) d)\<rparr>"
      using r(4) by (simp only: option.case Let_def) simp
    show thesis by (rule made [OF r(1) refl _ _ g]) (use True r(2,3) in simp_all)
  qed
qed

lemma get_buffers_owns:
  assumes "owns base s" and "oops_get_buffers fe b s = (res, s')"
  shows "owns base s'"
proof -
  obtain gl h where s: "s = (gl, h)" by fastforce
  obtain ok img gl' h' where res: "res = (ok, img)" "s' = (gl', h')" by (cases res; cases s') blast
  from assms(2) [unfolded s res] show ?thesis
  proof (cases rule: get_buffers_cases)
    case refused
    then show ?thesis using assms(1) by (auto simp: s res owns_def)
  next
    case kept
    then show ?thesis using assms(1) by (simp add: s res owns_def)
  next
    case (made which g n)
    have "which = 0 \<or> which = 1" using made(2) by auto
    then have "owned gl' r = owned gl r + of_bool (r = Image img)" for r
      using made(3-5) by (cases r) (auto simp: made(5))
    then show ?thesis using assms(1) made(6) by (auto simp: s res owns_def)
  qed
qed

section \<open>Creation\<close>

definition fresh_gl :: "u32 \<Rightarrow> u32 \<Rightarrow> oops_gl \<Rightarrow> bool" where
  "fresh_gl w ht gl \<longleftrightarrow> gl_shape w ht gl \<and> display gl = 0 \<and> scanbuf gl = 0 \<and> \<not> registered gl \<and> draw gl = 0"

lemma ensure_back_image_ok:
  assumes "owns base (gl, h)" and "fresh_gl w ht gl" and "ensure_back_image fe i (gl, h) = (ok, (gl1, h1))"
  shows "owns base (gl1, h1)" and "fresh_gl w ht gl1" and "n_images gl1 = n_images gl"
    and "ok \<Longrightarrow> back_image gl1 i \<noteq> 0"
proof -
  have "owns base (gl1, h1) \<and> fresh_gl w ht gl1 \<and> n_images gl1 = n_images gl \<and> (ok \<longrightarrow> back_image gl1 i \<noteq> 0)"
  proof (cases "i > 1 \<or> back_image gl i \<noteq> 0")
    case True
    then show ?thesis using assms by (auto simp: ensure_back_image_def split: if_splits)
  next
    case False
    obtain a img gl2 h2 where g: "oops_get_buffers fe True (gl\<lparr>draw := i\<rparr>, h) = ((a, img), (gl2, h2))"
      by (metis prod.exhaust)
    have r: "gl1 = gl2\<lparr>draw := draw gl\<rparr>" "h1 = h2" "ok \<longrightarrow> back_image gl2 i \<noteq> 0"
      using assms(3) False g by (auto simp: ensure_back_image_def Let_def)
    have o: "owned (x\<lparr>draw := k\<rparr>) r = owned x r" for x k r by (cases r) simp_all
    have "owns base (gl2, h2)" using get_buffers_owns [OF _ g, of base] assms(1) by (simp add: owns_def o)
    then have own: "owns base (gl1, h1)" unfolding r owns_def by (simp add: o)
    from g have "fresh_gl w ht gl1 \<and> n_images gl1 = n_images gl"
    proof (cases rule: get_buffers_cases)
      case (made which d n)
      then show ?thesis using assms(2) r(1) by (auto simp: fresh_gl_def gl_shape_def)
    qed (use assms(2) r(1) in \<open>auto simp: fresh_gl_def gl_shape_def\<close>)
    then show ?thesis using own r(1,3) by simp
  qed
  then show "owns base (gl1, h1)" "fresh_gl w ht gl1" "n_images gl1 = n_images gl" "ok \<Longrightarrow> back_image gl1 i \<noteq> 0"
    by blast+
qed

lemma set_images:
  assumes "owns base (gl, h)" and "fresh_gl w ht gl" and "n_images gl = i" and "i < 2" and "back_image gl i \<noteq> 0"
  shows "owns base (gl\<lparr>n_images := i + 1\<rparr>, h)" and "fresh_gl w ht (gl\<lparr>n_images := i + 1\<rparr>)"
proof -
  have "owned (gl\<lparr>n_images := i + 1\<rparr>) r = owned gl r" for r by (cases r) simp_all
  then show "owns base (gl\<lparr>n_images := i + 1\<rparr>, h)" using assms(1) by (simp add: owns_def)
  show "fresh_gl w ht (gl\<lparr>n_images := i + 1\<rparr>)" using assms(2-) by (auto simp: fresh_gl_def gl_shape_def less_Suc_eq)
qed

lemma ensure_images_ok:
  assumes "owns base s" and "fresh_gl w ht (fst s)" and "n_images (fst s) = 0"
  shows "owns base (ensure_images fe [0, 1] s)" and "fresh_gl w ht (fst (ensure_images fe [0, 1] s))"
proof -
  obtain gl h where s: "s = (gl, h)" by fastforce
  obtain a gl1 h1 where e1: "ensure_back_image fe 0 (gl, h) = (a, (gl1, h1))" by (metis prod.exhaust)
  note o1 = ensure_back_image_ok [OF assms(1,2) [unfolded s fst_conv] e1]
  obtain b gl2 h2 where e2: "ensure_back_image fe 1 (gl1\<lparr>n_images := 1\<rparr>, h1) = (b, (gl2, h2))" by (metis prod.exhaust)
  have "owns base (ensure_images fe [0, 1] s) \<and> fresh_gl w ht (fst (ensure_images fe [0, 1] s))"
  proof (cases a)
    case False
    then show ?thesis using o1 by (simp add: s e1)
  next
    case True
    note f1 = set_images [OF o1(1,2), of 0, simplified, unfolded One_nat_def [symmetric]]
    have o: "owns base (gl1\<lparr>n_images := 1\<rparr>, h1)" "fresh_gl w ht (gl1\<lparr>n_images := 1\<rparr>)"
      using f1 o1(3,4) True assms(3) s by simp_all
    note o2 = ensure_back_image_ok [OF o e2]
    show ?thesis
    proof (cases b)
      case False
      then show ?thesis using o2 True by (simp add: s e1 e2 [unfolded One_nat_def])
    next
      case t: True
      then have "owns base (gl2\<lparr>n_images := 1 + 1\<rparr>, h2)" "fresh_gl w ht (gl2\<lparr>n_images := 1 + 1\<rparr>)"
        using set_images [OF o2(1,2), of 1] o2(3,4) by simp_all
      then show ?thesis using True t by (simp add: s e1 e2 [unfolded One_nat_def])
    qed
  qed
  then show "owns base (ensure_images fe [0, 1] s)" "fresh_gl w ht (fst (ensure_images fe [0, 1] s))" by blast+
qed

lemma open_display_ok:
  assumes "owns base (gl, h)" and "fresh_gl w ht gl" and "open_display fe (gl, h) = (gl1, h1)"
  shows "owns base (gl1, h1)" and "gl_shape w ht gl1"
proof -
  have d: "display gl = 0" "scanbuf gl = 0" "\<not> registered gl" using assms(2) by (simp_all add: fresh_gl_def)
  have own: "balance h r = base r + owned gl r" if "\<not> is_descriptor r" for r using assms(1) that by (simp add: owns_def)
  have "balance h1 r = base r + owned gl1 r" if "\<not> is_descriptor r" for r
    using own [OF that] that assms(3) d unfolding open_display_def
    by (cases r) (auto simp: Let_def split: if_splits)
  then show "owns base (gl1, h1)" by (simp add: owns_def)
  show "gl_shape w ht gl1" using assms(2,3) d unfolding open_display_def fresh_gl_def gl_shape_def
    by (auto simp: Let_def split: if_splits)
qed

lemma dup_probe_balance: "\<not> is_descriptor r \<Longrightarrow> balance (dup_probe fe f h) r = balance h r"
  by (auto simp: dup_probe_def Let_def)

definition gl_bare :: "u32 \<Rightarrow> u32 \<Rightarrow> int \<Rightarrow> nat \<Rightarrow> int \<Rightarrow> nat \<Rightarrow> nat \<Rightarrow> oops_gl" where
  "gl_bare w ht f scr fmt dr cx = gl_zero\<lparr>width := w, height := ht, fd := f, screen := scr, format := fmt,
     drawable := dr, gl_context := cx\<rparr>"

lemma gl_bare_owned:
  assumes "scr \<noteq> 0" and "dr \<noteq> 0" and "cx \<noteq> 0" and "\<not> is_descriptor r"
  shows "owned (gl_bare w ht f scr fmt dr cx) r =
    of_bool (GlState = r) + of_bool (Screen scr = r) + of_bool (Drawable dr = r) + of_bool (Context cx = r)"
  using assms by (cases r) (auto simp: gl_bare_def gl_zero_def)

lemma create_None:
  assumes "oops_gl_create fe w ht h0 = (None, h)" and "\<not> is_descriptor r"
  shows "balance h r = balance h0 r"
  using assms unfolding oops_gl_create_def Let_def
  by (simp add: dup_probe_balance split: if_splits option.splits prod.splits)
    (auto simp: dup_probe_balance)

lemma create_Some:
  assumes "oops_gl_create fe w ht h0 = (Some gl, h)"
  obtains f scr fmt dr cx h5 where "scr \<noteq> 0" "dr \<noteq> 0" "cx \<noteq> 0"
    "h5 = dup_probe fe f (h0 @ [Made GlState]) @ [Made (Screen scr), Made (Drawable dr), Made (Context cx)]"
    "open_display fe (ensure_images fe [0, 1] (gl_bare w ht f scr fmt dr cx, h5)) = (gl, h)"
proof -
  let ?h1 = "h0 @ [Made GlState]"
  let ?f = "fe_open fe ?h1"
  let ?h2 = "dup_probe fe ?f ?h1"
  let ?scr = "fe_screen fe ?h2"
  let ?h3 = "?h2 @ [Made (Screen ?scr)]"
  let ?dr = "fe_drawable fe ?h3"
  let ?h4 = "?h3 @ [Made (Drawable ?dr)]"
  let ?cx = "fe_context fe ?h4"
  let ?h5 = "?h4 @ [Made (Context ?cx)]"
  obtain config where c: "choose_config (fe_configs fe ?h3) = Some config"
    using assms unfolding oops_gl_create_def Let_def by (auto split: if_splits option.splits)
  have "?scr \<noteq> 0" "?dr \<noteq> 0" "?cx \<noteq> 0"
    "open_display fe (ensure_images fe [0, 1] (gl_bare w ht ?f ?scr (config_format config) ?dr ?cx, ?h5)) = (gl, h)"
    using assms c unfolding oops_gl_create_def Let_def gl_bare_def
    by (auto split: if_splits prod.splits)
  then show thesis using that [of ?scr ?dr ?cx ?h5 ?f "config_format config"] by simp
qed

lemma create_Some_ok:
  assumes "oops_gl_create fe w ht h0 = (Some gl, h)"
  shows "owns (balance h0) (gl, h)" and "gl_shape w ht gl"
proof -
  obtain f scr fmt dr cx h5 where c: "scr \<noteq> 0" "dr \<noteq> 0" "cx \<noteq> 0"
    "h5 = dup_probe fe f (h0 @ [Made GlState]) @ [Made (Screen scr), Made (Drawable dr), Made (Context cx)]"
    "open_display fe (ensure_images fe [0, 1] (gl_bare w ht f scr fmt dr cx, h5)) = (gl, h)"
    using assms by (rule create_Some)
  let ?gl = "gl_bare w ht f scr fmt dr cx"
  have "owns (balance h0) (?gl, h5)"
    using c(1-3) by (simp add: owns_def gl_bare_owned c(4) dup_probe_balance)
  moreover have "fresh_gl w ht ?gl" "n_images ?gl = 0"
    using c(2) by (simp_all add: fresh_gl_def gl_shape_def gl_bare_def gl_zero_def)
  ultimately have i: "owns (balance h0) (ensure_images fe [0, 1] (?gl, h5))"
      "fresh_gl w ht (fst (ensure_images fe [0, 1] (?gl, h5)))"
    using ensure_images_ok [of "balance h0" "(?gl, h5)"] by simp_all
  then show "owns (balance h0) (gl, h)" "gl_shape w ht gl"
    using open_display_ok [of "balance h0" "fst (ensure_images fe [0, 1] (?gl, h5))"
        "snd (ensure_images fe [0, 1] (?gl, h5))" w ht fe gl h] c(5) by simp_all
qed

section \<open>Presenting\<close>

lemma scanout_loop_result:
  "scanout_loop fe is (gl, h) = (ok, (gl1, h1)) \<Longrightarrow>
   h1 = h \<and> (\<exists>f. gl1 = gl\<lparr>scanout_index := f\<rparr>)"
proof (induction "is" arbitrary: gl)
  case Nil
  then show ?case by (auto intro!: exI [of _ "scanout_index gl"])
next
  case (Cons i "is")
  show ?case
  proof (cases "fe_adopted_index fe h i < 0")
    case True
    then show ?thesis using Cons.prems by (auto simp: Let_def intro!: exI [of _ "scanout_index gl"])
  next
    case False
    then have "scanout_loop fe is (gl\<lparr>scanout_index := (scanout_index gl)(i := fe_adopted_index fe h i)\<rparr>, h) = (ok, (gl1, h1))"
      using Cons.prems by (simp add: Let_def)
    from Cons.IH [OF this] show ?thesis by auto
  qed
qed

lemma try_direct_scanout_result:
  assumes "try_direct_scanout fe (gl, h) = (ok, (gl1, h1))"
  shows "h1 = h" and "\<exists>f r. gl1 = gl\<lparr>direct_tried := True, scanout_index := f, registered := r\<rparr> \<and>
    (r \<longrightarrow> registered gl \<or> display gl \<noteq> 0 \<and> n_images gl \<noteq> 0)"
proof -
  obtain a gl2 h2 where l: "scanout_loop fe [0..<n_images gl] (gl\<lparr>direct_tried := True\<rparr>, h) = (a, (gl2, h2))"
    by (metis prod.exhaust)
  obtain f where f: "h2 = h" "gl2 = gl\<lparr>direct_tried := True, scanout_index := f\<rparr>"
    using scanout_loop_result [OF l] by auto
  show "h1 = h" using assms l f(1) by (auto simp: try_direct_scanout_def Let_def split: if_splits)
  have s: "gl\<lparr>direct_tried := True\<rparr> = gl\<lparr>direct_tried := True, scanout_index := scanout_index gl, registered := registered gl\<rparr>"
    "gl2 = gl\<lparr>direct_tried := True, scanout_index := f, registered := registered gl\<rparr>"
    "gl2\<lparr>registered := True\<rparr> = gl\<lparr>direct_tried := True, scanout_index := f, registered := True\<rparr>"
    using f by simp_all
  show "\<exists>f r. gl1 = gl\<lparr>direct_tried := True, scanout_index := f, registered := r\<rparr> \<and>
      (r \<longrightarrow> registered gl \<or> display gl \<noteq> 0 \<and> n_images gl \<noteq> 0)"
  proof (cases "display gl = 0 \<or> n_images gl = 0")
    case True
    then have "gl1 = gl\<lparr>direct_tried := True\<rparr>" using assms by (auto simp: try_direct_scanout_def Let_def)
    then show ?thesis using s(1) by blast
  next
    case False
    then have "gl1 = gl2 \<or> gl1 = gl2\<lparr>registered := True\<rparr>"
      using assms l by (auto simp: try_direct_scanout_def Let_def split: if_splits)
    then show ?thesis using s(2,3) False by metis
  qed
qed

definition same_resources :: "oops_gl \<Rightarrow> oops_gl \<Rightarrow> bool" where
  "same_resources gl gl' \<longleftrightarrow> screen gl' = screen gl \<and> drawable gl' = drawable gl \<and> gl_context gl' = gl_context gl \<and>
     back_image gl' = back_image gl \<and> display gl' = display gl \<and> scanbuf gl' = scanbuf gl"

lemma same_resources_owned: "same_resources gl gl' \<Longrightarrow> owned gl' r = owned gl r"
  by (cases r) (simp_all add: same_resources_def)

lemma readback_present_result:
  assumes "length (fe_pixels fe h) = unat (width gl) * unat (height gl)"
  shows "\<exists>ok h'. readback_present fe (gl, h) = Some (ok, (gl, h')) \<and> (\<forall>r. balance h' r = balance h r)"
  using mirror_turns_frame [OF assms] by (auto simp: readback_present_def)

lemma scanout_step:
  assumes "gl_shape w ht gl"
  obtains gl1 where "(if \<not> direct_tried gl then snd (try_direct_scanout fe (gl, h)) else (gl, h)) = (gl1, h)"
    "gl_shape w ht gl1" "same_resources gl gl1" "draw gl1 = draw gl" "n_images gl1 = n_images gl"
proof (cases "direct_tried gl")
  case True
  then show thesis using that [of gl] assms by (simp add: same_resources_def)
next
  case False
  obtain a g2 h2 where t: "try_direct_scanout fe (gl, h) = (a, (g2, h2))" by (metis prod.exhaust)
  obtain f r where "g2 = gl\<lparr>direct_tried := True, scanout_index := f, registered := r\<rparr>"
    "r \<longrightarrow> registered gl \<or> display gl \<noteq> 0 \<and> n_images gl \<noteq> 0"
    using try_direct_scanout_result(2) [OF t] by blast
  then show thesis using that [of g2] assms try_direct_scanout_result(1) [OF t] t False
    by (auto simp: gl_shape_def same_resources_def)
qed

lemma readback_step:
  assumes "gl_shape w ht gl" and "\<And>h. length (fe_pixels fe h) = unat w * unat ht"
  obtains ok h' where "readback_present fe (gl, h) = Some (ok, (gl, h'))" "\<And>r. balance h' r = balance h r"
proof -
  have "length (fe_pixels fe h) = unat (width gl) * unat (height gl)" using assms by (simp add: gl_shape_def)
  from readback_present_result [OF this] show thesis using that by blast
qed

lemma flip_next_step:
  assumes "gl_shape w ht gl" and "flip_next (gl, h) = (gl', h')"
  shows "gl_shape w ht gl'" and "same_resources gl gl'" and "balance h' r = balance h r"
  using assms by (auto simp: flip_next_def gl_shape_def same_resources_def split: if_splits)

lemma show_frame_step:
  assumes shape: "gl_shape w ht gl" and pixels: "\<And>h. length (fe_pixels fe h) = unat w * unat ht"
  shows "\<exists>ok gl' h'. show_frame fe (gl, h) = Some (ok, (gl', h')) \<and> gl_shape w ht gl' \<and>
    same_resources gl gl' \<and> (\<forall>r. balance h' r = balance h r)"
proof -
  let ?off = "gl\<lparr>registered := False\<rparr>"
  let ?i = "scanout_index gl (if draw gl < n_images gl then draw gl else 0)"
  have off: "gl_shape w ht ?off" "same_resources gl ?off" using shape by (simp_all add: gl_shape_def same_resources_def)
  have same: "same_resources gl gl" by (simp add: same_resources_def)
  obtain o1 k1 where b1: "readback_present fe (gl, h) = Some (o1, (gl, k1))" "\<And>r. balance k1 r = balance h r"
    using readback_step [OF shape pixels] by blast
  obtain o2 k2 where b2: "readback_present fe (?off, h @ [Refused]) = Some (o2, (?off, k2))"
      "\<And>r. balance k2 r = balance (h @ [Refused]) r"
    using readback_step [OF off(1) pixels] by blast
  obtain gl3 h3 where n: "flip_next (gl, h @ [Flip ?i]) = (gl3, h3)" by (metis prod.exhaust)
  consider "\<not> registered gl" | "registered gl" "\<not> fe_flip fe h ?i" | "registered gl" "fe_flip fe h ?i" by blast
  then show ?thesis
  proof cases
    case 1
    then show ?thesis using b1 shape same by (auto simp: show_frame_def)
  next
    case 2
    then show ?thesis using b2 off by (auto simp: show_frame_def Let_def)
  next
    case 3
    then have "show_frame fe (gl, h) = Some (True, (gl3, h3))" using n by (simp add: show_frame_def Let_def)
    then show ?thesis using flip_next_step [OF shape n] by auto
  qed
qed

lemma present_step:
  assumes shape: "gl_shape w ht gl" and pixels: "\<And>h. length (fe_pixels fe h) = unat w * unat ht"
  shows "\<exists>ok gl' h'. oops_gl_present fe (Some gl) h = Some (ok, (Some gl', h')) \<and> gl_shape w ht gl' \<and>
    same_resources gl gl' \<and> (\<forall>r. balance h' r = balance h r)"
proof -
  let ?h = "h @ [Flush (drawable gl)]"
  obtain gl1 where s: "(if \<not> direct_tried gl then snd (try_direct_scanout fe (gl, ?h)) else (gl, ?h)) = (gl1, ?h)"
    "gl_shape w ht gl1" "same_resources gl gl1" by (rule scanout_step [OF shape])
  obtain ok gl2 h2 where f: "show_frame fe (gl1, ?h) = Some (ok, (gl2, h2))" "gl_shape w ht gl2"
      "same_resources gl1 gl2" "\<And>r. balance h2 r = balance ?h r"
    using show_frame_step [OF s(2) pixels] by blast
  have "oops_gl_present fe (Some gl) h = Some (ok, (Some gl2, h2))"
    using shape f(1) unfolding oops_gl_present_def Let_def option.case s(1) by (simp add: gl_shape_def)
  moreover have "same_resources gl gl2" using s(3) f(3) by (simp add: same_resources_def)
  ultimately show ?thesis using f(2,4) by auto
qed

section \<open>Histories of a handle\<close>

datatype gl_op = GetBuffers bool | PresentFrame

fun gl_run :: "frontend \<Rightarrow> gl_op list \<Rightarrow> oops_gl \<times> ev list \<Rightarrow> (oops_gl \<times> ev list) option" where
  "gl_run fe [] s = Some s"
| "gl_run fe (GetBuffers b # ops) s = gl_run fe ops (snd (oops_get_buffers fe b s))"
| "gl_run fe (PresentFrame # ops) (gl, h) =
     (case oops_gl_present fe (Some gl) h of
        Some (_, (Some gl1, h1)) \<Rightarrow> gl_run fe ops (gl1, h1)
      | _ \<Rightarrow> None)"

lemma get_buffers_shape:
  assumes "gl_shape w ht gl" and "oops_get_buffers fe b (gl, h) = ((ok, img), (gl', h'))"
  shows "gl_shape w ht gl'"
  using assms(2) by (cases rule: get_buffers_cases) (use assms(1) in \<open>auto simp: gl_shape_def\<close>)

text \<open>No image is handed out while it is still alive.\<close>

definition fresh_images :: "frontend \<Rightarrow> bool" where
  "fresh_images fe \<longleftrightarrow> (\<forall>h. fe_image fe h \<noteq> 0 \<longrightarrow> balance h (Image (fe_image fe h)) \<le> 0)"

definition live_once :: "ev list \<Rightarrow> bool" where
  "live_once h \<longleftrightarrow> (\<forall>p. balance h (Image p) \<le> 1)"

lemma get_buffers_live_once:
  assumes "live_once h" and "fresh_images fe" and "oops_get_buffers fe b (gl, h) = (res, (gl', h'))"
  shows "live_once h'"
proof -
  have "h' = h \<or> h' = h @ [Refused] \<or> h' = h @ [Made (Image (fe_image fe h))] \<and> fe_image fe h \<noteq> 0"
    using assms(3) by (auto simp: oops_get_buffers_def Let_def split: if_splits)
  then show ?thesis using assms(1,2) by (auto simp: live_once_def fresh_images_def)
qed

lemma ensure_back_image_live_once:
  assumes "live_once h" and "fresh_images fe" and "ensure_back_image fe i (gl, h) = (ok, (gl', h'))"
  shows "live_once h'"
proof -
  obtain a img gl2 h2 where g: "oops_get_buffers fe True (gl\<lparr>draw := i\<rparr>, h) = ((a, img), (gl2, h2))"
    by (metis prod.exhaust)
  have "h' = h \<or> h' = h2" using assms(3) g by (auto simp: ensure_back_image_def Let_def split: if_splits)
  then show ?thesis using assms(1) get_buffers_live_once [OF assms(1,2) g] by auto
qed

lemma ensure_images_live_once:
  "live_once (snd s) \<Longrightarrow> fresh_images fe \<Longrightarrow> live_once (snd (ensure_images fe is s))"
proof (induction "is" arbitrary: s)
  case (Cons i "is")
  obtain ok gl h where e: "ensure_back_image fe i s = (ok, (gl, h))" by (metis prod.exhaust)
  have "live_once h" using ensure_back_image_live_once [of "snd s" fe i "fst s" ok gl h] Cons.prems e by simp
  then show ?case using Cons.IH [of "(gl\<lparr>n_images := i + 1\<rparr>, h)"] Cons.prems e by simp
qed simp

lemma create_live_once:
  assumes "oops_gl_create fe w ht [] = (Some gl, h)" and "fresh_images fe"
  shows "live_once h"
proof -
  obtain f scr fmt dr cx h5 where c:
    "h5 = dup_probe fe f ([] @ [Made GlState]) @ [Made (Screen scr), Made (Drawable dr), Made (Context cx)]"
    "open_display fe (ensure_images fe [0, 1] (gl_bare w ht f scr fmt dr cx, h5)) = (gl, h)"
    using assms(1) by (rule create_Some)
  have "live_once h5" unfolding c(1) live_once_def by (simp add: dup_probe_balance)
  then have "live_once (snd (ensure_images fe [0, 1] (gl_bare w ht f scr fmt dr cx, h5)))"
    using assms(2) by (intro ensure_images_live_once) simp_all
  moreover have "balance h (Image p) = balance (snd s) (Image p)" if "open_display fe s = (gl, h)" for s p
    using that by (cases s) (auto simp: open_display_def Let_def split: if_splits)
  ultimately show ?thesis using c(2) by (simp add: live_once_def)
qed

definition gl_good :: "u32 \<Rightarrow> u32 \<Rightarrow> (resource \<Rightarrow> int) \<Rightarrow> oops_gl \<times> ev list \<Rightarrow> bool" where
  "gl_good w ht base s \<longleftrightarrow> owns base s \<and> gl_shape w ht (fst s)"

lemma gl_run_good:
  assumes "gl_good w ht base s" and pixels: "\<And>h. length (fe_pixels fe h) = unat w * unat ht"
  shows "\<exists>s'. gl_run fe ops s = Some s' \<and> gl_good w ht base s' \<and>
    (fresh_images fe \<longrightarrow> live_once (snd s) \<longrightarrow> live_once (snd s'))"
  using assms(1)
proof (induction ops arbitrary: s)
  case Nil
  then show ?case by simp
next
  case (Cons op ops)
  obtain gl h where s: "s = (gl, h)" by fastforce
  have g: "owns base (gl, h)" "gl_shape w ht gl" using Cons.prems by (simp_all add: gl_good_def s)
  show ?case
  proof (cases op)
    case (GetBuffers b)
    obtain ok img gl1 h1 where b: "oops_get_buffers fe b (gl, h) = ((ok, img), (gl1, h1))" by (metis prod.exhaust)
    have "gl_good w ht base (gl1, h1)"
      using get_buffers_owns [OF g(1) b] get_buffers_shape [OF g(2) b] by (simp add: gl_good_def)
    then show ?thesis using Cons.IH [of "(gl1, h1)"] GetBuffers b s get_buffers_live_once [OF _ _ b] by auto
  next
    case PresentFrame
    obtain ok gl1 h1 where p: "oops_gl_present fe (Some gl) h = Some (ok, (Some gl1, h1))" "gl_shape w ht gl1"
        "same_resources gl gl1" "\<And>r. balance h1 r = balance h r"
      using present_step [OF g(2) pixels] by blast
    have "gl_good w ht base (gl1, h1)"
      using g(1) p(2-4) by (simp add: gl_good_def owns_def same_resources_owned)
    moreover have "live_once h \<longrightarrow> live_once h1" using p(4) by (simp add: live_once_def)
    ultimately show ?thesis using Cons.IH [of "(gl1, h1)"] PresentFrame p(1) s by auto
  qed
qed

lemma create_good: "oops_gl_create fe w ht h0 = (Some gl, h) \<Longrightarrow> gl_good w ht (balance h0) (gl, h)"
  using create_Some_ok by (simp add: gl_good_def)

section \<open>A frontend that accepts everything\<close>

definition sample_frontend :: frontend where
  "sample_frontend = \<lparr>fe_calloc = (\<lambda>_. True), fe_open = (\<lambda>_. 0x57), fe_dup = (\<lambda>_ _. - 1), fe_screen = (\<lambda>_. 1),
     fe_configs = (\<lambda>_. Some [sample_config 8 24]), fe_drawable = (\<lambda>_. 2), fe_context = (\<lambda>_. 3),
     fe_make_current = (\<lambda>_. True),
     fe_image = (\<lambda>h. if balance h (Image 5) \<le> 0 then 5 else if balance h (Image 6) \<le> 0 then 6 else 0),
     fe_gem = (\<lambda>_ _. None), fe_winsys = (\<lambda>_. buffers_init), fe_display = (\<lambda>_ _. 9), fe_ready = (\<lambda>_ _. True),
     fe_malloc = (\<lambda>_ _. 11), fe_adopted_index = (\<lambda>_ i. 20 + int i), fe_flip = (\<lambda>_ _. True),
     fe_pixels = (\<lambda>_. [1, 2, 3, 4]), fe_probe = (\<lambda>_ _ _. 0), fe_default_size = (1920, 1080)\<rparr>"

definition sample_gl :: oops_gl where
  "sample_gl = \<lparr>screen = 1, drawable = 2, gl_context = 3, back_image = (\<lambda>_. 0)(0 := 5, 1 := 6), draw = 0, n_images = 2,
     width = 2, height = 2, format = 87, fd = 0x57, gem = (\<lambda>_. 0), gem_bytes = (\<lambda>_. 0), scanout_index = (\<lambda>_. 0),
     registered = False, direct_tried = False, display = 9, scanbuf = 11\<rparr>"

definition sample_history :: "ev list" where
  "sample_history = [Made GlState, Refused, Refused, Made (Screen 1), Made (Drawable 2), Made (Context 3),
     Made (Image 5), Made (Image 6), Made (Display 9), Made (Scanbuf 11)]"

lemma sample_create: "oops_gl_create sample_frontend 2 2 [] = (Some sample_gl, sample_history)"
  by (simp add: oops_gl_create_def sample_frontend_def dup_probe_def choose_config_def config_8888_double_def
      sample_config_def config_format_def open_display_def ensure_back_image_def oops_get_buffers_def gl_zero_def
      sample_gl_def sample_history_def Let_def)

lemma sample_frontend_ok:
  "length (fe_pixels sample_frontend h) = unat (2 :: u32) * unat (2 :: u32)" "fresh_images sample_frontend"
  by (simp_all add: sample_frontend_def fresh_images_def)



section \<open>Double buffering\<close>

lemma back_images_differ:
  assumes "owns (\<lambda>_. 0) (gl, h)" and "live_once h" and "back_image gl 0 \<noteq> 0"
  shows "back_image gl 0 \<noteq> back_image gl 1"
proof
  assume e: "back_image gl 0 = back_image gl 1"
  have "balance h (Image (back_image gl 0)) = owned gl (Image (back_image gl 0))" using assms(1) by (simp add: owns_def)
  also have "\<dots> = 2" using assms(3) e by simp
  finally have "balance h (Image (back_image gl 0)) = 2" .
  moreover have "balance h (Image (back_image gl 0)) \<le> 1" using assms(2) by (simp add: live_once_def)
  ultimately show False by simp
qed

lemma present_flip:
  assumes shape: "gl_shape w ht gl" and n: "n_images gl = 2"
    and p: "oops_gl_present fe (Some gl) h = Some (True, (Some gl', h @ Flush d # Flip i # evs))"
  shows "i = scanout_index gl' (draw gl)" and "draw gl' = 1 - draw gl" and "draw gl \<le> 1"
    and "back_image gl' = back_image gl"
proof -
  let ?h = "h @ [Flush (drawable gl)]"
  obtain gl1 where s: "(if \<not> direct_tried gl then snd (try_direct_scanout fe (gl, ?h)) else (gl, ?h)) = (gl1, ?h)"
    "gl_shape w ht gl1" "same_resources gl gl1" "draw gl1 = draw gl" "n_images gl1 = n_images gl"
    by (rule scanout_step [OF shape])
  have d: "draw gl < 2" using shape n by (auto simp: gl_shape_def)
  have "drawable gl \<noteq> 0" using shape by (simp add: gl_shape_def)
  then have f: "show_frame fe (gl1, ?h) = Some (True, (gl', h @ Flush d # Flip i # evs))"
    using p unfolding oops_gl_present_def option.case Let_def s(1) by auto
  have k: "registered gl1 \<and> fe_flip fe ?h (scanout_index gl1 (draw gl))"
  proof (rule ccontr)
    assume "\<not> ?thesis"
    then have "\<exists>g. readback_present fe g = Some (True, (gl', h @ Flush d # Flip i # evs)) \<and>
        (snd g = ?h \<or> snd g = ?h @ [Refused])"
      using f d n s(4,5) by (auto simp: show_frame_def Let_def split: if_splits)
    then show False by (auto simp: readback_present_def split: if_splits option.splits)
  qed
  then have "flip_next (gl1, ?h @ [Flip (scanout_index gl1 (draw gl))]) = (gl', h @ Flush d # Flip i # evs)"
    using f d n s(4,5) by (auto simp: show_frame_def Let_def)
  then have g: "gl' = gl1\<lparr>draw := (draw gl + 1) mod 2\<rparr>" "i = scanout_index gl1 (draw gl)"
    using n s(4,5) by (auto simp: flip_next_def)
  show "i = scanout_index gl' (draw gl)" "draw gl \<le> 1" using g d by simp_all
  have "draw gl = 0 \<or> draw gl = 1" using d by auto
  then show "draw gl' = 1 - draw gl" using g(1) by auto
  show "back_image gl' = back_image gl" using g(1) s(3) by (simp add: same_resources_def)
qed


definition sample_flipped :: oops_gl where
  "sample_flipped = sample_gl\<lparr>direct_tried := True, scanout_index := (\<lambda>_. 0)(0 := 20, 1 := 21), registered := True, draw := 1\<rparr>"

lemma sample_present:
  "oops_gl_present sample_frontend (Some sample_gl) sample_history =
     Some (True, (Some sample_flipped, sample_history @ Flush 2 # Flip 20 # [WaitScanout, Invalidate 2]))"
  by (simp add: oops_gl_present_def sample_gl_def try_direct_scanout_def show_frame_def flip_next_def
      sample_frontend_def sample_flipped_def upt_conv_Cons Let_def)


end
