(* ===== verification/Cxx.thy ===== *)
theory Cxx
  imports Prelude
begin

unbundle bit_operations_syntax

text \<open>
  The parts of the C++ runtime of \<open>src/src/runtime/cxx_support.cpp\<close> that compute or synchronise:
  the prime a hash table grows to, the byte hash, and the guards of function-local statics. Sizes
  are 64-bit words, so that \<open>d * d\<close> and \<open>n + 2\<close> wrap as they do in the code.
\<close>

section \<open>The next prime\<close>

text \<open>
  The inner loop, whether no \<open>d\<close> or \<open>d + 2\<close> with \<open>d * d <= n\<close> divides \<open>n\<close>, and the search over odd
  candidates. Near \<open>2 ^ 64\<close> the product wraps, so neither loop is known to end: \<open>None\<close> is a search
  that does not.
\<close>

partial_function (option) trial_prime :: "u64 \<Rightarrow> u64 \<Rightarrow> bool option" where
  "trial_prime n d =
     (if d * d \<le> n
      then if n mod d = 0 \<or> n mod (d + 2) = 0 then Some False else trial_prime n (d + 6)
      else Some True)"

partial_function (option) next_odd :: "u64 \<Rightarrow> u64 option" where
  "next_odd n =
     (if n mod 3 = 0 then next_odd (n + 2)
      else case trial_prime n 5 of
             None \<Rightarrow> None
           | Some prime \<Rightarrow> if prime then Some n else next_odd (n + 2))"

definition next_prime :: "u64 \<Rightarrow> u64 option" where
  "next_prime n = (if n \<le> 2 then Some 2 else next_odd (n OR 1))"

text \<open>The same search in natural numbers, the reference for sizes the words do not wrap at.\<close>

function trial_nat :: "nat \<Rightarrow> nat \<Rightarrow> bool" where
  "trial_nat n d =
     (if d * d \<le> n
      then if n mod d = 0 \<or> n mod (d + 2) = 0 then False else trial_nat n (d + 6)
      else True)"
  by pat_completeness auto
termination
proof (relation "measure (\<lambda>(n, d). n + 1 - d)")
  fix n d :: nat
  assume "d * d \<le> n"
  then have "d \<le> n" by (cases d) auto
  then show "((n, d + 6), n, d) \<in> measure (\<lambda>(n, d). n + 1 - d)" by simp
qed simp

declare trial_nat.simps [simp del]

partial_function (option) next_odd_nat :: "nat \<Rightarrow> nat option" where
  "next_odd_nat n =
     (if n mod 3 = 0 then next_odd_nat (n + 2)
      else if trial_nat n 5 then Some n else next_odd_nat (n + 2))"

definition next_prime_nat :: "nat \<Rightarrow> nat option" where
  "next_prime_nat n = (if n \<le> 2 then Some 2 else next_odd_nat (n OR 1))"

definition is_prime :: "nat \<Rightarrow> bool" where
  "is_prime n \<longleftrightarrow> 1 < n \<and> (\<forall>d. d dvd n \<longrightarrow> d = 1 \<or> d = n)"

lemma trial_prime_step:
  "d * d \<le> n \<Longrightarrow> trial_nat n d \<longleftrightarrow> \<not> d dvd n \<and> \<not> d + 2 dvd n \<and> trial_nat n (d + 6)"
  "\<not> d * d \<le> n \<Longrightarrow> trial_nat n d"
  by (subst trial_nat.simps, simp add: dvd_eq_mod_eq_0)+

lemma trial_prime_False:
  "\<not> trial_nat n d \<Longrightarrow> 5 \<le> d \<Longrightarrow> \<not> is_prime n"
proof (induction n d rule: trial_nat.induct)
  case (1 n d)
  have le: "d * d \<le> n" using 1(2) trial_prime_step(2) by blast
  have big: "5 * d \<le> d * d" by (rule mult_le_mono1 [OF 1(3)])
  consider "d dvd n" | "d + 2 dvd n" | "\<not> trial_nat n (d + 6)" "\<not> d dvd n" "\<not> d + 2 dvd n"
    using 1(2) trial_prime_step(1) [OF le] by blast
  then show ?case
  proof cases
    case 1
    moreover have "d \<noteq> 1" "d \<noteq> n" using le big \<open>5 \<le> d\<close> by linarith+
    ultimately show ?thesis unfolding is_prime_def by blast
  next
    case 2
    moreover have "d + 2 \<noteq> 1" "d + 2 \<noteq> n" using le big \<open>5 \<le> d\<close> by linarith+
    ultimately show ?thesis unfolding is_prime_def by blast
  next
    case 3
    then show ?thesis using "1.IH" [OF le] \<open>5 \<le> d\<close> by (simp add: dvd_eq_mod_eq_0)
  qed
qed

lemma trial_prime_True:
  assumes "trial_nat n d" and "d mod 6 = 5" and "d \<le> e" and "e * e \<le> n" and "e mod 6 = 1 \<or> e mod 6 = 5"
  shows "\<not> e dvd n"
  using assms
proof (induction n d rule: trial_nat.induct)
  case (1 n d)
  have "d * d \<le> e * e" by (rule mult_le_mono [OF 1(4) 1(4)])
  then have le: "d * d \<le> n" using 1(5) by simp
  then have nd: "\<not> d dvd n" "\<not> d + 2 dvd n" and tr: "trial_nat n (d + 6)"
    using 1(2) trial_prime_step(1) by blast+
  have "d = 6 * (d div 6) + 5" "e = 6 * (e div 6) + 1 \<or> e = 6 * (e div 6) + 5"
    using 1(3,6) by (metis mult_div_mod_eq)+
  then obtain q r where "d = 6 * q + 5" "e = 6 * r + 1 \<or> e = 6 * r + 5" by blast
  then have "e = d \<or> e = d + 2 \<or> d + 6 \<le> e" using 1(4) by presburger
  then show ?case
  proof (elim disjE)
    assume "d + 6 \<le> e"
    then show ?thesis using "1.IH" [OF le] nd tr 1(3,5,6) by (simp add: dvd_eq_mod_eq_0)
  qed (use nd in simp_all)
qed

lemma small_divisor:
  assumes "1 < n" and "\<not> is_prime n"
  obtains e where "e dvd n" "1 < e" "e * e \<le> n"
proof -
  obtain d where d: "d dvd n" "d \<noteq> 1" "d \<noteq> n" using assms unfolding is_prime_def by blast
  then obtain k where k: "n = d * k" by (elim dvdE)
  have pos: "1 < d" "1 < k" using d k assms(1) by (cases d; cases k; auto)+
  show thesis
  proof (cases "d \<le> k")
    case True
    then show thesis using that [of d] d(1) pos(1) k by simp
  next
    case False
    then show thesis using that [of k] pos(2) k by simp
  qed
qed

lemma trial_prime_iff:
  assumes "5 \<le> n" and "odd n" and "n mod 3 \<noteq> 0"
  shows "trial_nat n 5 \<longleftrightarrow> is_prime n"
proof
  assume t: "trial_nat n 5"
  show "is_prime n"
  proof (rule ccontr)
    assume "\<not> is_prime n"
    then obtain e where e: "e dvd n" "1 < e" "e * e \<le> n" using small_divisor [of n] assms(1) by auto
    have "odd e" using e(1) assms(2) by (metis dvd_trans)
    moreover have "\<not> 3 dvd e" using e(1) assms(3) by (metis dvd_trans mod_0_imp_dvd dvd_imp_mod_0)
    ultimately have "e mod 6 = 1 \<or> e mod 6 = 5" "5 \<le> e" using e(2) by presburger+
    then show False using trial_prime_True [OF t, of e] e by simp
  qed
qed (use trial_prime_False [of n 5] in blast)

lemma least_divisor_prime:
  assumes "1 < (n :: nat)"
  obtains p where "p dvd n" "is_prime p"
proof -
  define p where "p = (LEAST d. d dvd n \<and> 1 < d)"
  have p: "p dvd n \<and> 1 < p" unfolding p_def using assms by (intro LeastI [of "\<lambda>d. d dvd n \<and> 1 < d" n]) simp
  have "d = 1 \<or> d = p" if "d dvd p" for d
  proof (rule ccontr)
    assume "\<not> (d = 1 \<or> d = p)"
    then have "d dvd n \<and> 1 < d" "d < p"
      using that p dvd_imp_le [OF that] by (auto intro: dvd_trans simp: nat_neq_iff)
    then show False using not_less_Least [of d "\<lambda>d. d dvd n \<and> 1 < d"] unfolding p_def by blast
  qed
  then show thesis using that [of p] p unfolding is_prime_def by blast
qed

lemma prime_above: "\<exists>p. is_prime p \<and> n \<le> p"
proof -
  obtain p where p: "p dvd fact n + 1" "is_prime p" by (rule least_divisor_prime [of "fact n + 1"]) (auto simp: fact_gt_zero)
  have "n < p"
  proof (rule ccontr)
    assume "\<not> n < p"
    then have "p dvd fact n" using p(2) by (intro dvd_fact) (auto simp: is_prime_def)
    then have "p dvd 1" using p(1) by (metis dvd_add_right_iff)
    then show False using p(2) by (simp add: is_prime_def)
  qed
  then show ?thesis using p(2) less_imp_le by blast
qed

lemma prime_odd: "is_prime p \<Longrightarrow> 2 < p \<Longrightarrow> odd p"
  unfolding is_prime_def by force

lemma prime_not_3: "is_prime p \<Longrightarrow> 3 < p \<Longrightarrow> p mod 3 \<noteq> 0"
  unfolding is_prime_def by (metis dvd_eq_mod_eq_0 less_irrefl numeral_eq_one_iff num.distinct(3))

lemma next_odd_finds:
  assumes "is_prime p" and "n \<le> p" and "odd n" and "5 \<le> n"
  shows "\<exists>q. next_odd_nat n = Some q \<and> is_prime q \<and> n \<le> q \<and> (\<forall>r. is_prime r \<and> n \<le> r \<longrightarrow> q \<le> r)"
  using assms(2-4)
proof (induction "p - n" arbitrary: n rule: less_induct)
  case less
  show ?case
  proof (cases "is_prime n")
    case True
    have "n mod 3 \<noteq> 0" using prime_not_3 [OF True] less.prems(3) by simp
    moreover from this have "trial_nat n 5" using trial_prime_iff less.prems True by blast
    ultimately have "next_odd_nat n = Some n" by (simp add: next_odd_nat.simps)
    then show ?thesis using True by auto
  next
    case False
    have skip: "next_odd_nat n = next_odd_nat (n + 2)"
      using trial_prime_iff [of n] less.prems False by (subst next_odd_nat.simps) auto
    have "n \<noteq> p" using False assms(1) by auto
    moreover have "n + 1 \<noteq> p" using prime_odd [OF assms(1)] less.prems by auto
    ultimately have le: "n + 2 \<le> p" using less.prems(1) by simp
    obtain q where q: "next_odd_nat (n + 2) = Some q" "is_prime q" "n + 2 \<le> q" "\<And>r. is_prime r \<Longrightarrow> n + 2 \<le> r \<Longrightarrow> q \<le> r"
    proof -
      have "p - (n + 2) < p - n" "odd (n + 2)" "5 \<le> n + 2" using le less.prems by auto
      from less.hyps [OF this(1) le this(2,3)] show thesis using that by blast
    qed
    have "n + 2 \<le> r" if "is_prime r" "n \<le> r" for r
    proof -
      have "n \<noteq> r" using that False by auto
      moreover have "n + 1 \<noteq> r" using prime_odd [OF that(1)] less.prems by auto
      ultimately show ?thesis using that(2) by simp
    qed
    then show ?thesis using skip q by (intro exI [of _ q]) auto
  qed
qed

lemma next_odd_nat_step:
  assumes "odd n" and "5 \<le> n" and "\<not> is_prime n" and "is_prime p" and "n \<le> p"
  shows "next_odd_nat n = next_odd_nat (n + 2)" "n + 2 \<le> p"
proof -
  show "next_odd_nat n = next_odd_nat (n + 2)"
    using trial_prime_iff [of n] assms(1-3) by (subst next_odd_nat.simps) auto
  have "n \<noteq> p" using assms(3,4) by auto
  moreover have "n + 1 \<noteq> p" using prime_odd [OF assms(4)] assms(1,2) by auto
  ultimately show "n + 2 \<le> p" using assms(5) by simp
qed

lemma trial_prime_words:
  "unat n < 2 ^ 62 \<Longrightarrow> 0 < unat d \<Longrightarrow> unat d < 2 ^ 31 + 6 \<Longrightarrow> trial_prime n d = Some (trial_nat (unat n) (unat d))"
proof (induction "unat n" "unat d" arbitrary: d rule: trial_nat.induct)
  case 1
  have sq: "unat d * unat d \<le> (2 ^ 31 + 6) * (2 ^ 31 + 6)" using 1(4) by (intro mult_le_mono) simp_all
  then have le: "d * d \<le> n \<longleftrightarrow> unat d * unat d \<le> unat n" by (simp add: word_le_nat_alt unat_word_ariths)
  show ?case
  proof (cases "d * d \<le> n")
    case False
    then show ?thesis using le by (subst trial_prime.simps, subst trial_nat.simps) simp
  next
    case True
    have d: "unat d < 2 ^ 31"
    proof (rule ccontr)
      assume "\<not> ?thesis"
      then have "2 ^ 31 * 2 ^ 31 \<le> unat d * unat d" by (intro mult_le_mono) simp_all
      then show False using True le 1(2) by simp
    qed
    then have plus: "unat (d + 2) = unat d + 2" "unat (d + 6) = unat d + 6" by (simp_all add: unat_word_ariths)
    have divides: "n mod x = 0 \<longleftrightarrow> unat n mod unat x = 0" for x :: u64
      by (simp add: word_unat_eq_iff unat_mod_distrib)
    show ?thesis
    proof (cases "unat n mod unat d = 0 \<or> unat n mod (unat d + 2) = 0")
      case True
      then show ?thesis using \<open>d * d \<le> n\<close> le divides plus
        by (subst trial_prime.simps, subst trial_nat.simps) simp
    next
      case False
      have "trial_prime n (d + 6) = Some (trial_nat (unat n) (unat (d + 6)))"
        using 1(1) [of "d + 6"] True le False plus d 1(2) by simp
      then show ?thesis using \<open>d * d \<le> n\<close> le divides plus False
        by (subst trial_prime.simps, subst trial_nat.simps) simp
    qed
  qed
qed

text \<open>As long as there is a prime ahead that the words hold, they find the same one.\<close>

lemma next_odd_words:
  assumes "is_prime p" and "p < 2 ^ 62" and "unat n \<le> p" and "odd (unat n)" and "5 \<le> unat n"
  shows "\<exists>q. next_odd n = Some q \<and> next_odd_nat (unat n) = Some (unat q)"
  using assms(3-5)
proof (induction "p - unat n" arbitrary: n rule: less_induct)
  case less
  have small: "unat n < 2 ^ 62" using less.prems(1) assms(2) by simp
  then have t: "trial_prime n 5 = Some (trial_nat (unat n) 5)" by (subst trial_prime_words) simp_all
  have m3: "n mod 3 = 0 \<longleftrightarrow> unat n mod 3 = 0" by (simp add: word_unat_eq_iff unat_mod_distrib)
  show ?case
  proof (cases "is_prime (unat n)")
    case True
    have "unat n mod 3 \<noteq> 0" using prime_not_3 [OF True] less.prems(3) by simp
    moreover from this have "trial_nat (unat n) 5" using trial_prime_iff less.prems True by blast
    ultimately show ?thesis using t m3 by (simp add: next_odd.simps next_odd_nat.simps [of "unat n"])
  next
    case False
    note step = next_odd_nat_step [OF less.prems(2,3) False assms(1) less.prems(1)]
    have plus: "unat (n + 2) = unat n + 2" using small by (simp add: unat_word_ariths)
    have "next_odd n = next_odd (n + 2)"
      using trial_prime_iff [of "unat n"] less.prems False t m3 by (subst next_odd.simps) auto
    moreover have "\<exists>q. next_odd (n + 2) = Some q \<and> next_odd_nat (unat (n + 2)) = Some (unat q)"
      using less.hyps [of "n + 2"] step(2) less.prems plus by simp
    ultimately show ?thesis using step(1) plus by simp
  qed
qed

lemma next_prime_nat_correct:
  "(n \<noteq> 3 \<longrightarrow> (\<exists>p. next_prime_nat n = Some p \<and> is_prime p \<and> n \<le> p \<and> (\<forall>q. is_prime q \<and> n \<le> q \<longrightarrow> p \<le> q))) \<and>
   next_prime_nat 3 = Some 5"
proof (intro conjI impI)
  show "next_prime_nat 3 = Some 5"
    by (simp add: next_prime_nat_def next_odd_nat.simps [of 3] next_odd_nat.simps [of 5] trial_nat.simps)
  have "d = 1 \<or> d = 2" if "d dvd 2" for d :: nat
    using dvd_imp_le [OF that] that by (cases "d = 0") auto
  then have two: "is_prime 2" by (simp add: is_prime_def)
  show "\<exists>p. next_prime_nat n = Some p \<and> is_prime p \<and> n \<le> p \<and> (\<forall>q. is_prime q \<and> n \<le> q \<longrightarrow> p \<le> q)" if "n \<noteq> 3"
  proof (cases "n \<le> 2")
    case True
    then show ?thesis using two by (auto simp: next_prime_nat_def is_prime_def)
  next
    case False
    let ?m = "n OR 1"
    have m: "?m = n + of_bool (even n)" by (rule or_one_eq)
    have big: "5 \<le> ?m" "odd ?m" 
      using False that unfolding m by (cases "even n"; simp; presburger)+
    obtain p where p: "is_prime p" "?m \<le> p" using prime_above by blast
    obtain q where q: "next_odd_nat ?m = Some q" "is_prime q" "?m \<le> q" "\<forall>r. is_prime r \<and> ?m \<le> r \<longrightarrow> q \<le> r"
      using next_odd_finds [OF p big(2,1)] by blast
    have "?m \<le> r" if "is_prime r" "n \<le> r" for r
    proof (cases "even n")
      case True
      then have "r \<noteq> n" using prime_odd [OF that(1)] False that(2) by auto
      then show ?thesis using that(2) True unfolding m by simp
    qed (use that in \<open>unfold m, simp\<close>)
    moreover have "n \<le> ?m" unfolding m by simp
    ultimately show ?thesis using q False by (auto simp: next_prime_nat_def intro!: exI [of _ q] intro: order_trans)
  qed
qed

text \<open>
  C35. The hash-table size is the least prime at or above the one asked for, and the search ends,
  for every size with a prime at or above it below \<open>2 ^ 62\<close>, with one exception: for 3, whose
  candidate is skipped as a multiple of 3, the answer is 5.
\<close>

theorem next_prime_correct:
  assumes "is_prime q" and "unat n \<le> q" and "q < 2 ^ 62"
  shows "(n \<noteq> 3 \<longrightarrow> (\<exists>p. next_prime n = Some p \<and> is_prime (unat p) \<and> n \<le> p \<and> (\<forall>r. is_prime r \<and> unat n \<le> r \<longrightarrow> unat p \<le> r))) \<and>
    next_prime 3 = Some 5"
proof (intro conjI impI)
  have "trial_prime 5 5 = Some True" by (subst trial_prime.simps) simp
  then show "next_prime 3 = Some 5"
    by (simp add: next_prime_def next_odd.simps [of 3] next_odd.simps [of 5])
  assume n3: "n \<noteq> 3"
  then have "unat n \<noteq> 3" by (simp add: word_unat_eq_iff)
  then obtain p where p: "next_prime_nat (unat n) = Some p" "is_prime p" "unat n \<le> p"
      "\<And>r. is_prime r \<Longrightarrow> unat n \<le> r \<Longrightarrow> p \<le> r"
    using next_prime_nat_correct by blast
  have "p < 2 ^ 62" using p(4) [OF assms(1,2)] assms(3) by simp
  have "\<exists>w. next_prime n = Some w \<and> unat w = p"
  proof (cases "n \<le> 2")
    case True
    then show ?thesis using p(1) by (simp add: next_prime_def next_prime_nat_def word_le_nat_alt)
  next
    case False
    then have big: "2 < unat n" by (simp add: word_le_nat_alt)
    have m: "unat (n OR 1) = unat n OR 1" by (simp add: unsigned_or_eq)
    have or: "unat n OR 1 = unat n + of_bool (even (unat n))" by (rule or_one_eq)
    have shape: "odd (unat n OR 1)" "5 \<le> unat n OR 1"
      using big \<open>unat n \<noteq> 3\<close> unfolding or by (cases "even (unat n)"; simp; presburger)+
    have found: "next_odd_nat (unat n OR 1) = Some p" using p(1) big by (simp add: next_prime_nat_def)
    have "unat n OR 1 \<le> p"
      using p(3) prime_odd [OF p(2)] big unfolding or by (cases "even (unat n)") (auto simp: le_less)
    then have "\<exists>w. next_odd (n OR 1) = Some w \<and> next_odd_nat (unat (n OR 1)) = Some (unat w)"
      using next_odd_words [OF p(2) \<open>p < 2 ^ 62\<close>, of "n OR 1"] shape unfolding m by blast
    then show ?thesis using found False unfolding m by (auto simp: next_prime_def)
  qed
  then show "\<exists>p. next_prime n = Some p \<and> is_prime (unat p) \<and> n \<le> p \<and> (\<forall>r. is_prime r \<and> unat n \<le> r \<longrightarrow> unat p \<le> r)"
    using p(2-4) by (auto simp: word_le_nat_alt)
qed

lemma is_prime_1031: "is_prime 1031"
proof -
  have "trial_nat 1031 5" by (simp add: trial_nat.simps)
  then show ?thesis using trial_prime_iff [of 1031] by simp
qed

theorem next_prime_correct_witness:
  "\<exists>p. next_prime 1024 = Some p \<and> is_prime (unat p) \<and> 1024 \<le> p \<and> unat p \<le> 1031"
  using next_prime_correct [OF is_prime_1031, of 1024] is_prime_1031 by auto

section \<open>The byte hash\<close>

text \<open>FNV-1a; the exclusive or and the product are in 64-bit words, so the product wraps.\<close>

definition hash_memory :: "u8 list \<Rightarrow> u64" where
  "hash_memory bytes = fold (\<lambda>b h. (h XOR ucast b) * 1099511628211) bytes 14695981039346656037"

section \<open>Guards of function-local statics\<close>

text \<open>
  \<open>__cxa_guard_acquire\<close>, the initialiser and \<open>__cxa_guard_release\<close> of one guard, one step per atomic
  access. \<open>Loop\<close> is the head of the exchange loop, \<open>Waiting\<close> its body, \<open>Won\<close> the test after the
  exchange gave 0. \<open>g_pending\<close> is \<open>None\<close> for 0 and otherwise the thread that set it, and \<open>g_by\<close>
  the thread that was told to run the initialiser. \<open>Got0\<close> and \<open>Got1\<close> are the values acquire returns; after 1 the initialiser runs
  and release stores \<open>done\<close> and then \<open>pending\<close>.
\<close>

datatype guard_pc = Enter | Loop | Waiting | Won | Unwind | Got0 | Got1 | Storing | Stored | Finished

record guard =
  g_done :: bool
  g_pending :: "nat option"
  g_pc :: "nat \<Rightarrow> guard_pc"
  g_by :: "nat option"
  g_started :: nat
  g_built :: bool

definition guard_init :: guard where
  "guard_init = \<lparr>g_done = False, g_pending = None, g_pc = (\<lambda>_. Enter), g_by = None, g_started = 0, g_built = False\<rparr>"

definition go :: "nat \<Rightarrow> guard_pc \<Rightarrow> guard \<Rightarrow> guard" where
  "go t q g = g\<lparr>g_pc := (g_pc g)(t := q)\<rparr>"

inductive guard_step :: "guard \<Rightarrow> guard \<Rightarrow> bool" where
  Load_done: "g_pc g t = Enter \<Longrightarrow> guard_step g (go t (if g_done g then Got0 else Loop) g)"
| Exchange: "g_pc g t = Loop \<Longrightarrow> guard_step g
    (case g_pending g of None \<Rightarrow> go t Won (g\<lparr>g_pending := Some t\<rparr>) | Some _ \<Rightarrow> go t Waiting g)"
| Poll: "g_pc g t = Waiting \<Longrightarrow> guard_step g (go t (if g_done g then Got0 else Loop) g)"
| Check: "g_pc g t = Won \<Longrightarrow> guard_step g
    (if g_done g then go t Unwind g else go t Got1 (g\<lparr>g_by := Some t, g_started := g_started g + 1\<rparr>))"
| Clear: "g_pc g t = Unwind \<Longrightarrow> guard_step g (go t Got0 (g\<lparr>g_pending := None\<rparr>))"
| Built: "g_pc g t = Got1 \<Longrightarrow> guard_step g (go t Storing (g\<lparr>g_built := True\<rparr>))"
| Store_done: "g_pc g t = Storing \<Longrightarrow> guard_step g (go t Stored (g\<lparr>g_done := True\<rparr>))"
| Store_pending: "g_pc g t = Stored \<Longrightarrow> guard_step g (go t Finished (g\<lparr>g_pending := None\<rparr>))"

definition guard_reachable :: "guard \<Rightarrow> bool" where
  "guard_reachable g \<longleftrightarrow> guard_step\<^sup>*\<^sup>* guard_init g"

definition guard_pc_ok :: "guard \<Rightarrow> nat \<Rightarrow> bool" where
  "guard_pc_ok g t =
     (case g_pc g t of
        Won \<Rightarrow> g_pending g = Some t
      | Unwind \<Rightarrow> g_pending g = Some t \<and> g_done g
      | Got1 \<Rightarrow> g_pending g = Some t \<and> g_by g = Some t \<and> \<not> g_done g
      | Storing \<Rightarrow> g_pending g = Some t \<and> g_by g = Some t \<and> \<not> g_done g \<and> g_built g
      | Stored \<Rightarrow> g_pending g = Some t \<and> g_done g
      | Got0 \<Rightarrow> g_done g
      | Finished \<Rightarrow> g_done g
      | _ \<Rightarrow> True)"

definition guard_ok :: "guard \<Rightarrow> bool" where
  "guard_ok g =
     (case g_by g of
        None \<Rightarrow> g_started g = 0 \<and> \<not> g_done g
      | Some u \<Rightarrow> g_started g = 1 \<and> (if g_done g then g_built g else g_pc g u = Got1 \<or> g_pc g u = Storing))"

lemma guard_step_inv:
  assumes "guard_step g g'" and "\<And>t. guard_pc_ok g t" and "guard_ok g"
  shows "guard_pc_ok g' t' \<and> guard_ok g'"
  using assms(1)
proof cases
  case (Check t)
  then show ?thesis using assms(2) [of t] assms(2) [of t'] assms(2) [of "the (g_by g)"] assms(3)
    by (auto simp: guard_pc_ok_def guard_ok_def go_def split: guard_pc.splits option.splits if_splits)
next
  case (Clear t)
  then show ?thesis using assms(2) [of t] assms(2) [of t'] assms(3)
    by (auto simp: guard_pc_ok_def guard_ok_def go_def split: guard_pc.splits option.splits if_splits)
next
  case (Built t)
  then show ?thesis using assms(2) [of t] assms(2) [of t'] assms(3)
    by (auto simp: guard_pc_ok_def guard_ok_def go_def split: guard_pc.splits option.splits if_splits)
next
  case (Store_done t)
  then show ?thesis using assms(2) [of t] assms(2) [of t'] assms(3)
    by (auto simp: guard_pc_ok_def guard_ok_def go_def split: guard_pc.splits option.splits if_splits)
next
  case (Store_pending t)
  then show ?thesis using assms(2) [of t] assms(2) [of t'] assms(3)
    by (auto simp: guard_pc_ok_def guard_ok_def go_def split: guard_pc.splits option.splits if_splits)
qed (use assms(2) [of t'] assms(3) in
    \<open>auto simp: guard_pc_ok_def guard_ok_def go_def split: guard_pc.splits option.splits if_splits\<close>)

interpretation guard: transition_system guard_step "\<lambda>g. g = guard_init" "\<lambda>g. (\<forall>t. guard_pc_ok g t) \<and> guard_ok g"
proof unfold_locales
  show "(\<forall>t. guard_pc_ok g t) \<and> guard_ok g" if "g = guard_init" for g
    using that by (simp add: guard_pc_ok_def guard_ok_def guard_init_def)
qed (use guard_step_inv in blast)

lemma guard_reachable_inv: "guard_reachable g \<Longrightarrow> (\<forall>t. guard_pc_ok g t) \<and> guard_ok g"
  unfolding guard_reachable_def by (rule guard.reachable_inv) simp

text \<open>
  C36. Under every interleaving of the callers of a function-local static, at most one is told to
  run the initialiser, and a caller that is told not to finds the initialisation complete.
\<close>

theorem guard_initialises_once:
  assumes "guard_reachable g"
  shows "g_started g \<le> 1 \<and> (g_pc g t = Got0 \<longrightarrow> g_started g = 1 \<and> g_built g) \<and>
    (g_pc g t = Got1 \<longrightarrow> g_pc g t' = Got1 \<longrightarrow> t = t')"
proof -
  have i: "guard_pc_ok g t" "guard_pc_ok g t'" "guard_ok g" using guard_reachable_inv [OF assms] by auto
  then show ?thesis by (auto simp: guard_pc_ok_def guard_ok_def split: option.splits if_splits)
qed

text \<open>Thread 1 has built the object and stored \<open>done\<close>; thread 2 has been told not to build it.\<close>

definition guard_sample :: guard where
  "guard_sample = \<lparr>g_done = True, g_pending = Some 1, g_pc = (\<lambda>_. Enter)(1 := Stored, 2 := Got0), g_by = Some 1,
     g_started = 1, g_built = True\<rparr>"

lemma guard_sample_reachable: "guard_reachable guard_sample"
proof -
  define st where "st q = \<lparr>g_done = q = Stored, g_pending = (if q = Loop then None else Some 1), g_pc = (\<lambda>_. Enter)(1 := q),
    g_by = (if q = Loop \<or> q = Won then None else Some 1), g_started = (if q = Loop \<or> q = Won then 0 else 1),
    g_built = (q = Storing \<or> q = Stored)\<rparr>" for q
  note steps = st_def go_def
  have "guard_step guard_init (st Loop)"
    using guard_step.Load_done [of guard_init 1] by (simp add: steps guard_init_def)
  moreover have "guard_step (st Loop) (st Won)" using guard_step.Exchange [of "st Loop" 1] by (simp add: steps)
  moreover have "guard_step (st Won) (st Got1)" using guard_step.Check [of "st Won" 1] by (simp add: steps)
  moreover have "guard_step (st Got1) (st Storing)" using guard_step.Built [of "st Got1" 1] by (simp add: steps)
  moreover have "guard_step (st Storing) (st Stored)" using guard_step.Store_done [of "st Storing" 1] by (simp add: steps)
  moreover have "guard_step (st Stored) guard_sample"
    using guard_step.Load_done [of "st Stored" 2] by (simp add: steps guard_sample_def)
  ultimately show ?thesis unfolding guard_reachable_def by (meson rtranclp.rtrancl_into_rtrancl rtranclp.rtrancl_refl)
qed

theorem guard_initialises_once_witness:
  "g_pc guard_sample 2 = Got0 \<and> g_started guard_sample = 1 \<and> g_built guard_sample"
  using guard_initialises_once [OF guard_sample_reachable, of 2] by (simp add: guard_sample_def)

end
