(* ===== verification/Klog.thy ===== *)
theory Klog
  imports Prelude
begin

text \<open>
  \<open>src/src/runtime/stderr_to_klog.c\<close>: the output of a title, collected into lines and sent
  to the system log in pieces, or written to a file's descriptor.

  The state is the line buffer (\<open>s_line\<close> up to \<open>s_line_len\<close>), the lines handed to \<open>oops_klog\<close>
  (its tag is always the same), and the bytes written to each descriptor. \<open>oops_fs_write\<close> is
  the parameter \<open>wr\<close>: the number of bytes the \<open>k\<close>-th call accepts, 0 or negative on failure.
  A formatted call is the result of \<open>vsnprintf\<close>: a negative number, or the text.
\<close>

section \<open>Lines and chunks\<close>

definition OOPS_KLOG_CHUNK :: nat where
  "OOPS_KLOG_CHUNK = 96"

definition OOPS_LINE_MAX :: nat where
  "OOPS_LINE_MAX = 512"

record outputs =
  s_line :: string
  klog :: "string list"
  files :: "int \<Rightarrow> string"
  wr_calls :: nat

definition output_init :: outputs where
  "output_init = \<lparr>s_line = [], klog = [], files = (\<lambda>_. []), wr_calls = 0\<rparr>"

definition oops_klog :: "string \<Rightarrow> outputs \<Rightarrow> outputs" where
  "oops_klog msg s = s\<lparr>klog := klog s @ [msg]\<rparr>"

function klog_chunks_from :: "string \<Rightarrow> nat \<Rightarrow> outputs \<Rightarrow> outputs" where
  "klog_chunks_from text at s =
     (if at < length text
      then let n0 = length text - at;
               n = (if OOPS_KLOG_CHUNK < n0 then OOPS_KLOG_CHUNK else n0)
           in klog_chunks_from text (at + n) (oops_klog (take n (drop at text)) s)
      else s)"
  by auto

termination klog_chunks_from
  by (relation "measure (\<lambda>(text, at, s). length text - at)") (auto simp: OOPS_KLOG_CHUNK_def Let_def)

declare klog_chunks_from.simps [simp del]

definition klog_chunks :: "string \<Rightarrow> outputs \<Rightarrow> outputs" where
  "klog_chunks text s = klog_chunks_from text 0 s"

definition line_flush :: "outputs \<Rightarrow> outputs" where
  "line_flush s = (if 0 < length (s_line s) then (klog_chunks (s_line s) s)\<lparr>s_line := []\<rparr> else s)"

definition oops_stderr_flush_partial :: "outputs \<Rightarrow> outputs" where
  "oops_stderr_flush_partial s = line_flush s"

definition line_char :: "char \<Rightarrow> outputs \<Rightarrow> outputs" where
  "line_char c s =
     (if c = CHR 0x0A then line_flush s
      else if c = CHR 0x0D then s
      else let s1 = (if length (s_line s) = OOPS_LINE_MAX then line_flush s else s)
           in s1\<lparr>s_line := s_line s1 @ [c]\<rparr>)"

definition line_append :: "string \<Rightarrow> outputs \<Rightarrow> outputs" where
  "line_append text s = fold line_char text s"

section \<open>Other streams\<close>

datatype stream = Stderr | Stdout | Stream int

definition stream_is_captured :: "stream \<Rightarrow> bool" where
  "stream_is_captured f \<longleftrightarrow> f = Stderr \<or> f = Stdout"

text \<open>The result is the return value and the \<open>errno\<close> set.\<close>

function fd_write_from :: "(nat \<Rightarrow> int \<Rightarrow> string \<Rightarrow> int) \<Rightarrow> int \<Rightarrow> string \<Rightarrow> nat \<Rightarrow> outputs \<Rightarrow> (int \<times> errno option) \<times> outputs" where
  "fd_write_from wr fd text dn s =
     (if dn < length text
      then let n = wr (wr_calls s) fd (drop dn text);
               s1 = s\<lparr>wr_calls := wr_calls s + 1\<rparr>
           in if n \<le> 0 then ((- 1, Some EIO), s1)
              else fd_write_from wr fd text (dn + nat n)
                     (s1\<lparr>files := (files s1)(fd := files s1 fd @ take (nat n) (drop dn text))\<rparr>)
      else ((0, None), s))"
  by auto

termination fd_write_from
  by (relation "measure (\<lambda>(wr, fd, text, dn, s). length text - dn)") auto

declare fd_write_from.simps [simp del]

definition fd_write_all ::
    "(nat \<Rightarrow> int \<Rightarrow> string \<Rightarrow> int) \<Rightarrow> int \<Rightarrow> string \<Rightarrow> outputs \<Rightarrow> (int \<times> errno option) \<times> outputs" where
  "fd_write_all wr fd text s = fd_write_from wr fd text 0 s"

definition stream_write ::
    "(nat \<Rightarrow> int \<Rightarrow> string \<Rightarrow> int) \<Rightarrow> int \<Rightarrow> string \<Rightarrow> outputs \<Rightarrow> (int \<times> errno option) \<times> outputs" where
  "stream_write wr fd text s =
     (if fd < 0 then ((- 1, Some EBADF), s) else fd_write_all wr fd text s)"

text \<open>The descriptor of a stream that is not captured.\<close>

fun fileno :: "stream \<Rightarrow> int" where
  "fileno (Stream fd) = fd"
| "fileno Stdout = 1"
| "fileno Stderr = 2"

definition truncated_notice :: string where
  "truncated_notice = ''...the line above is truncated; no memory to format the rest''"

definition emit_formatted ::
    "(nat \<Rightarrow> int \<Rightarrow> string \<Rightarrow> int) \<Rightarrow> (nat \<Rightarrow> bool) \<Rightarrow> stream \<Rightarrow> int + string \<Rightarrow> outputs \<Rightarrow>
      (int \<times> errno option) \<times> outputs" where
  "emit_formatted wr alloc stream formatted s =
     (case formatted of
        Inl n \<Rightarrow> ((n, None), s)
      | Inr text \<Rightarrow>
          let n = length text; ret = (\<lambda>((rc, e), s1). ((if rc = 0 then int n else - 1, e), s1)) in
          if n = 0 then ((0, None), s)
          else if n < OOPS_LINE_MAX
          then if \<not> stream_is_captured stream then ret (stream_write wr (fileno stream) text s)
               else ((int n, None), line_append text s)
          else if \<not> alloc (n + 1)
          then if \<not> stream_is_captured stream then ((- 1, Some ENOMEM), s)
               else ((int n, None),
                     oops_klog truncated_notice (line_flush (line_append (take (OOPS_LINE_MAX - 1) text) s)))
          else if \<not> stream_is_captured stream then ret (stream_write wr (fileno stream) text s)
          else ((int n, None), line_append text s))"

definition fprintf ::
    "(nat \<Rightarrow> int \<Rightarrow> string \<Rightarrow> int) \<Rightarrow> (nat \<Rightarrow> bool) \<Rightarrow> stream \<Rightarrow> int + string \<Rightarrow> outputs \<Rightarrow>
      (int \<times> errno option) \<times> outputs" where
  "fprintf wr alloc stream formatted s = emit_formatted wr alloc stream formatted s"

definition printf ::
    "(nat \<Rightarrow> int \<Rightarrow> string \<Rightarrow> int) \<Rightarrow> (nat \<Rightarrow> bool) \<Rightarrow> int + string \<Rightarrow> outputs \<Rightarrow> (int \<times> errno option) \<times> outputs" where
  "printf wr alloc formatted s = emit_formatted wr alloc Stdout formatted s"

text \<open>\<open>ptr\<close> is the memory the pointer gives access to; the product is the code's wrapping one.\<close>

definition fwrite ::
    "(nat \<Rightarrow> int \<Rightarrow> string \<Rightarrow> int) \<Rightarrow> string \<Rightarrow> u64 \<Rightarrow> u64 \<Rightarrow> stream \<Rightarrow> outputs \<Rightarrow> (u64 \<times> errno option) \<times> outputs" where
  "fwrite wr ptr sz nmemb stream s =
     (let bytes = sz * nmemb in
      if sz \<noteq> 0 \<and> bytes div sz \<noteq> nmemb then ((0, None), s)
      else if \<not> stream_is_captured stream
      then (case stream_write wr (fileno stream) (take (unat bytes) ptr) s of
              ((rc, e), s1) \<Rightarrow> ((if rc = 0 then nmemb else 0, e), s1))
      else ((nmemb, None), line_append (take (unat bytes) ptr) s))"

definition EOF :: int where
  "EOF = - 1"

definition fputs ::
    "(nat \<Rightarrow> int \<Rightarrow> string \<Rightarrow> int) \<Rightarrow> string \<Rightarrow> stream \<Rightarrow> outputs \<Rightarrow> (int \<times> errno option) \<times> outputs" where
  "fputs wr t stream s =
     (if \<not> stream_is_captured stream
      then (case stream_write wr (fileno stream) t s of ((rc, e), s1) \<Rightarrow> ((if rc = 0 then 0 else EOF, e), s1))
      else ((0, None), line_append t s))"

definition fputc ::
    "(nat \<Rightarrow> int \<Rightarrow> string \<Rightarrow> int) \<Rightarrow> int \<Rightarrow> stream \<Rightarrow> outputs \<Rightarrow> (int \<times> errno option) \<times> outputs" where
  "fputc wr c stream s =
     (let ch = char_of (nat (c mod 256)) in
      if \<not> stream_is_captured stream
      then (case stream_write wr (fileno stream) [ch] s of
              ((rc, e), s1) \<Rightarrow> ((if rc = 0 then c mod 256 else EOF, e), s1))
      else ((c, None), line_append [ch] s))"

definition puts :: "string \<Rightarrow> outputs \<Rightarrow> int \<times> outputs" where
  "puts t s = (0, line_flush (line_append t s))"

definition fflush :: "stream option \<Rightarrow> outputs \<Rightarrow> int \<times> outputs" where
  "fflush stream s =
     (0, if (case stream of None \<Rightarrow> True | Some f \<Rightarrow> stream_is_captured f) then line_flush s else s)"

definition perror :: "string option \<Rightarrow> string option \<Rightarrow> outputs \<Rightarrow> outputs" where
  "perror prefix msg s =
     (let s1 = (case prefix of
                  None \<Rightarrow> s
                | Some p \<Rightarrow> if p \<noteq> [] then line_append '': '' (line_append p s) else s);
          s2 = (case msg of None \<Rightarrow> s1 | Some m \<Rightarrow> line_append m s1)
      in line_flush s2)"

definition write_fd ::
    "(nat \<Rightarrow> int \<Rightarrow> string \<Rightarrow> int) \<Rightarrow> int \<Rightarrow> string option \<Rightarrow> outputs \<Rightarrow> (int \<times> errno option) \<times> outputs" where
  "write_fd wr fd buf s =
     (case buf of
        None \<Rightarrow> ((0, None), s)
      | Some t \<Rightarrow>
          if t = [] then ((0, None), s)
          else if fd \<noteq> 1 \<and> fd \<noteq> 2
          then (case fd_write_all wr fd t s of
                  ((rc, e), s1) \<Rightarrow> ((if rc = 0 then int (length t) else - 1, e), s1))
          else ((int (length t), None), line_append t s))"


section \<open>What a line operation leaves\<close>

definition kept :: "string \<Rightarrow> string" where
  "kept t = filter (\<lambda>c. c \<noteq> CHR 0x0A \<and> c \<noteq> CHR 0x0D) t"

lemma kept_append [simp]: "kept (a @ b) = kept a @ kept b" and kept_Nil [simp]: "kept [] = []"
  by (simp_all add: kept_def)

text \<open>Everything that has been written so far, in order.\<close>

definition seen :: "outputs \<Rightarrow> string" where
  "seen s = concat (klog s) @ s_line s"

definition lines_ok :: "outputs \<Rightarrow> bool" where
  "lines_ok s \<longleftrightarrow> (\<forall>l\<in>set (klog s). 0 < length l \<and> length l \<le> OOPS_KLOG_CHUNK) \<and> length (s_line s) \<le> OOPS_LINE_MAX"

lemma klog_chunks_from_eq:
  "\<exists>ls. klog_chunks_from tx i s = s\<lparr>klog := klog s @ ls\<rparr> \<and> concat ls = drop i tx \<and>
     (\<forall>l\<in>set ls. 0 < length l \<and> length l \<le> OOPS_KLOG_CHUNK)"
proof (induction tx i s rule: klog_chunks_from.induct)
  case (1 tx i s)
  show ?case
  proof (cases "i < length tx")
    case False
    then show ?thesis by (intro exI [of _ "[]"]) (simp add: klog_chunks_from.simps [of tx i s])
  next
    case True
    let ?n = "if OOPS_KLOG_CHUNK < length tx - i then OOPS_KLOG_CHUNK else length tx - i"
    let ?c = "take ?n (drop i tx)"
    have n: "0 < ?n" "?n \<le> OOPS_KLOG_CHUNK" "i + ?n \<le> length tx" using True by (auto simp: OOPS_KLOG_CHUNK_def)
    obtain ls where ls: "klog_chunks_from tx (i + ?n) (oops_klog ?c s) =
        (oops_klog ?c s)\<lparr>klog := klog (oops_klog ?c s) @ ls\<rparr>" "concat ls = drop (i + ?n) tx"
      "\<forall>l\<in>set ls. 0 < length l \<and> length l \<le> OOPS_KLOG_CHUNK"
      using "1.IH" [OF True refl refl] by blast
    have "klog_chunks_from tx i s = s\<lparr>klog := klog s @ (?c # ls)\<rparr>"
      using True ls(1) by (simp add: klog_chunks_from.simps [of tx i s] Let_def oops_klog_def)
    moreover have "concat (?c # ls) = drop i tx"
      using ls(2) by (simp add: add.commute [of i] flip: drop_drop)
    moreover have "length ?c = ?n" using n by simp
    ultimately show ?thesis using ls(3) n by (intro exI [of _ "?c # ls"]) simp
  qed
qed

lemma line_flush_ok:
  assumes "lines_ok s"
  shows "lines_ok (line_flush s)" and "seen (line_flush s) = seen s" and "s_line (line_flush s) = []"
    and "files (line_flush s) = files s"
proof -
  obtain ls where "klog_chunks (s_line s) s = s\<lparr>klog := klog s @ ls\<rparr>" "concat ls = s_line s"
    "\<forall>l\<in>set ls. 0 < length l \<and> length l \<le> OOPS_KLOG_CHUNK"
    using klog_chunks_from_eq [of "s_line s" 0 s] by (auto simp: klog_chunks_def)
  then show "lines_ok (line_flush s)" and "seen (line_flush s) = seen s" and "s_line (line_flush s) = []"
    and "files (line_flush s) = files s"
    using assms by (auto simp: line_flush_def lines_ok_def seen_def)
qed

lemma line_char_ok:
  assumes "lines_ok s"
  shows "lines_ok (line_char c s) \<and> seen (line_char c s) = seen s @ kept [c] \<and> files (line_char c s) = files s"
proof -
  note F = line_flush_ok [OF assms]
  let ?s = "if length (s_line s) = OOPS_LINE_MAX then line_flush s else s"
  have s: "lines_ok ?s" "seen ?s = seen s" "length (s_line ?s) < OOPS_LINE_MAX" "files ?s = files s"
    using F assms by (auto simp: lines_ok_def OOPS_LINE_MAX_def)
  then have "lines_ok (?s\<lparr>s_line := s_line ?s @ [c]\<rparr>)" "seen (?s\<lparr>s_line := s_line ?s @ [c]\<rparr>) = seen s @ [c]"
    by (auto simp: lines_ok_def seen_def)
  then show ?thesis using F s(4) assms by (simp add: line_char_def kept_def Let_def)
qed

lemma line_append_ok:
  "lines_ok s \<Longrightarrow> lines_ok (line_append t s) \<and> seen (line_append t s) = seen s @ kept t \<and>
    files (line_append t s) = files s"
proof (induction t arbitrary: s)
  case Nil
  then show ?case by (simp add: line_append_def)
next
  case (Cons c t)
  then show ?case
    using Cons.IH [of "line_char c s"] line_char_ok [OF Cons.prems, of c] kept_append [of "[c]" t]
    by (simp add: line_append_def)
qed

text \<open>A descriptor write leaves the lines alone.\<close>

lemma fd_write_from_lines:
  "klog (snd (fd_write_from wr fd t dn s)) = klog s \<and> s_line (snd (fd_write_from wr fd t dn s)) = s_line s"
proof (induction wr fd t dn s rule: fd_write_from.induct)
  case (1 wr fd t dn s)
  then show ?case by (subst (1 2) fd_write_from.simps) (auto simp: Let_def)
qed

lemma stream_write_lines:
  assumes "stream_write wr fd t s = (r, s1)"
  shows "klog s1 = klog s" and "s_line s1 = s_line s"
  using assms fd_write_from_lines [of wr fd t 0 s]
  by (auto simp: stream_write_def fd_write_all_def split: if_splits)


section \<open>Sequences of writes\<close>

datatype out_op =
    Fprintf stream string
  | Printf string
  | Fwrite string u64 u64 stream
  | Fputs string stream
  | Fputc int stream
  | Puts string
  | Fflush "stream option"
  | Perror "string option" "string option"
  | Write int "string option"
  | FlushPartial

fun out_step :: "(nat \<Rightarrow> int \<Rightarrow> string \<Rightarrow> int) \<Rightarrow> (nat \<Rightarrow> bool) \<Rightarrow> out_op \<Rightarrow> outputs \<Rightarrow> outputs" where
  "out_step wr alloc (Fprintf f t) s = snd (fprintf wr alloc f (Inr t) s)"
| "out_step wr alloc (Printf t) s = snd (printf wr alloc (Inr t) s)"
| "out_step wr alloc (Fwrite p n k f) s = snd (fwrite wr p n k f s)"
| "out_step wr alloc (Fputs t f) s = snd (fputs wr t f s)"
| "out_step wr alloc (Fputc c f) s = snd (fputc wr c f s)"
| "out_step wr alloc (Puts t) s = snd (puts t s)"
| "out_step wr alloc (Fflush f) s = snd (fflush f s)"
| "out_step wr alloc (Perror p m) s = perror p m s"
| "out_step wr alloc (Write fd b) s = snd (write_fd wr fd b s)"
| "out_step wr alloc FlushPartial s = oops_stderr_flush_partial s"

text \<open>The text a call sends to the log; nothing when its stream is a file.\<close>

fun out_text :: "out_op \<Rightarrow> string" where
  "out_text (Fprintf f t) = (if stream_is_captured f then t else [])"
| "out_text (Printf t) = t"
| "out_text (Fwrite p n k f) =
     (if stream_is_captured f \<and> unat n * unat k < 2 ^ 64 then take (unat n * unat k) p else [])"
| "out_text (Fputs t f) = (if stream_is_captured f then t else [])"
| "out_text (Fputc c f) = (if stream_is_captured f then [char_of (nat (c mod 256))] else [])"
| "out_text (Puts t) = t"
| "out_text (Fflush f) = []"
| "out_text (Perror p m) =
     (case p of None \<Rightarrow> [] | Some q \<Rightarrow> if q = [] then [] else q @ '': '') @ (case m of None \<Rightarrow> [] | Some x \<Rightarrow> x)"
| "out_text (Write fd b) = (if fd = 1 \<or> fd = 2 then (case b of None \<Rightarrow> [] | Some t \<Rightarrow> t) else [])"
| "out_text FlushPartial = []"

text \<open>The overflow test of \<open>fwrite\<close> is exact.\<close>

lemma mult_overflow_test:
  fixes n k :: u64
  assumes "n \<noteq> 0"
  shows "n * k div n = k \<longleftrightarrow> unat n * unat k < 2 ^ 64"
proof
  assume small: "unat n * unat k < 2 ^ 64"
  then have "unat (n * k) = unat n * unat k" by (simp add: unat_word_ariths)
  moreover have "0 < unat n" using assms by (simp add: unat_gt_0)
  ultimately have "unat (n * k div n) = unat k" unfolding unat_div by simp
  then show "n * k div n = k" by (simp only: word_unat_eq_iff)
next
  assume eq: "n * k div n = k"
  have "unat n * (unat (n * k) div unat n) \<le> unat (n * k)" by (rule times_div_less_eq_dividend)
  moreover have "unat (n * k) div unat n = unat k" using arg_cong [OF eq, of unat] by (simp add: unat_div)
  ultimately have "unat n * unat k \<le> unat (n * k)" by simp
  then show "unat n * unat k < 2 ^ 64" using unsigned_less [where ?'a = nat, of "n * k"] by simp
qed

lemma fwrite_captured:
  assumes "stream_is_captured f"
  shows "snd (fwrite wr p n k f s) = line_append (out_text (Fwrite p n k f)) s"
proof (cases "n = 0")
  case True
  then show ?thesis using assms by (simp add: fwrite_def)
next
  case False
  show ?thesis
  proof (cases "unat n * unat k < 2 ^ 64")
    case True
    then have "unat (n * k) = unat n * unat k" by (simp add: unat_word_ariths)
    then show ?thesis using assms False True mult_overflow_test [OF False, of k] by (simp add: fwrite_def Let_def)
  next
    case F: False
    then show ?thesis
      using assms False mult_overflow_test [OF False, of k] by (simp add: fwrite_def Let_def line_append_def)
  qed
qed

lemma uncaptured_emit:
  assumes "\<not> stream_is_captured f"
  shows "klog (snd (emit_formatted wr alloc f (Inr t) s)) = klog s \<and>
    s_line (snd (emit_formatted wr alloc f (Inr t) s)) = s_line s"
proof -
  obtain rc e x where w: "stream_write wr (fileno f) t s = ((rc, e), x)" by (metis prod.exhaust)
  note stream_write_lines [OF w]
  then show ?thesis using assms w by (simp add: emit_formatted_def Let_def)
qed

lemma uncaptured_fwrite:
  assumes "\<not> stream_is_captured f"
  shows "klog (snd (fwrite wr p n k f s)) = klog s \<and> s_line (snd (fwrite wr p n k f s)) = s_line s"
proof -
  obtain rc e x where w: "stream_write wr (fileno f) (take (unat (n * k)) p) s = ((rc, e), x)" by (metis prod.exhaust)
  note stream_write_lines [OF w]
  then show ?thesis using assms w by (simp add: fwrite_def Let_def)
qed

lemma uncaptured_fputs:
  assumes "\<not> stream_is_captured f"
  shows "klog (snd (fputs wr t f s)) = klog s \<and> s_line (snd (fputs wr t f s)) = s_line s"
proof -
  obtain rc e x where w: "stream_write wr (fileno f) t s = ((rc, e), x)" by (metis prod.exhaust)
  note stream_write_lines [OF w]
  then show ?thesis using assms w by (simp add: fputs_def)
qed

lemma uncaptured_fputc:
  assumes "\<not> stream_is_captured f"
  shows "klog (snd (fputc wr c f s)) = klog s \<and> s_line (snd (fputc wr c f s)) = s_line s"
proof -
  obtain rc e x where w: "stream_write wr (fileno f) [char_of (nat (c mod 256))] s = ((rc, e), x)"
    by (metis prod.exhaust)
  note stream_write_lines [OF w]
  then show ?thesis using assms w by (simp add: fputc_def Let_def)
qed

lemma uncaptured_ok:
  assumes "klog s' = klog s \<and> s_line s' = s_line s" and "lines_ok s"
  shows "lines_ok s' \<and> seen s' = seen s @ kept []"
  using assms by (simp add: lines_ok_def seen_def)

lemma write_fd_lines:
  assumes "fd \<noteq> 1" and "fd \<noteq> 2"
  shows "klog (snd (write_fd wr fd b s)) = klog s \<and> s_line (snd (write_fd wr fd b s)) = s_line s"
proof -
  have "klog x = klog s \<and> s_line x = s_line s" if "fd_write_from wr fd t 0 s = (r, x)" for t r x
    using fd_write_from_lines [of wr fd t 0 s] that by simp
  then show ?thesis
    using assms by (auto simp: write_fd_def fd_write_all_def split: option.split prod.split)
qed

lemma write_fd_captured:
  assumes "fd = 1 \<or> fd = 2"
  shows "snd (write_fd wr fd b s) = line_append (out_text (Write fd b)) s"
  using assms by (auto simp: write_fd_def line_append_def split: option.split)

lemma emit_captured:
  assumes "stream_is_captured f" and "lines_ok s"
  shows "lines_ok (snd (emit_formatted wr alloc f (Inr t) s)) \<and>
    ((\<forall>n. alloc n) \<longrightarrow> seen (snd (emit_formatted wr alloc f (Inr t) s)) = seen s @ kept t)"
proof -
  note A = line_append_ok [OF assms(2)]
  let ?u = "line_flush (line_append (take (OOPS_LINE_MAX - 1) t) s)"
  have "lines_ok ?u" using A line_flush_ok(1) by blast
  then have "lines_ok (oops_klog truncated_notice ?u)"
    by (auto simp: lines_ok_def oops_klog_def truncated_notice_def OOPS_KLOG_CHUNK_def)
  then show ?thesis using assms A [of t] by (simp add: emit_formatted_def Let_def)
qed

lemma out_step_ok:
  assumes "lines_ok s"
  shows "lines_ok (out_step wr alloc x s) \<and>
    ((\<forall>n. alloc n) \<longrightarrow> seen (out_step wr alloc x s) = seen s @ kept (out_text x))"
proof (cases x)
  case (Fprintf f t)
  show ?thesis
  proof (cases "stream_is_captured f")
    case True
    then show ?thesis using emit_captured [OF True assms] by (simp add: Fprintf fprintf_def)
  next
    case False
    then show ?thesis using uncaptured_ok [OF uncaptured_emit [OF False] assms] by (simp add: Fprintf fprintf_def)
  qed
next
  case (Printf t)
  then show ?thesis using emit_captured [OF _ assms, of Stdout] by (simp add: printf_def stream_is_captured_def)
next
  case (Fwrite p n k f)
  show ?thesis
  proof (cases "stream_is_captured f")
    case True
    then show ?thesis
      using line_append_ok [OF assms] by (simp add: Fwrite fwrite_captured del: out_text.simps)
  next
    case False
    then show ?thesis using uncaptured_ok [OF uncaptured_fwrite [OF False] assms] by (simp add: Fwrite)
  qed
next
  case (Fputs t f)
  then show ?thesis
    using line_append_ok [OF assms, of t] uncaptured_ok [OF uncaptured_fputs assms]
    by (cases "stream_is_captured f") (simp_all add: fputs_def)
next
  case (Fputc c f)
  then show ?thesis
    using line_append_ok [OF assms, of "[char_of (nat (c mod 256))]"] uncaptured_ok [OF uncaptured_fputc assms]
    by (cases "stream_is_captured f") (simp_all add: fputc_def Let_def)
next
  case (Puts t)
  then show ?thesis using line_append_ok [OF assms, of t] line_flush_ok [of "line_append t s"] by (simp add: puts_def)
next
  case (Fflush f)
  then show ?thesis using line_flush_ok [OF assms] assms by (simp add: fflush_def)
next
  case (Perror p m)
  let ?s1 = "case p of None \<Rightarrow> s | Some q \<Rightarrow> if q \<noteq> [] then line_append '': '' (line_append q s) else s"
  let ?s2 = "case m of None \<Rightarrow> ?s1 | Some x \<Rightarrow> line_append x ?s1"
  have s1: "lines_ok ?s1 \<and> seen ?s1 = seen s @ kept (case p of None \<Rightarrow> [] | Some q \<Rightarrow> if q = [] then [] else q @ '': '')"
    using assms line_append_ok [OF assms] line_append_ok by (auto split: option.split)
  then have s2: "lines_ok ?s2 \<and> seen ?s2 = seen s @ kept (out_text (Perror p m))"
    using line_append_ok [of ?s1] by (auto split: option.split)
  then show ?thesis using line_flush_ok [of ?s2] by (simp add: Perror perror_def Let_def del: out_text.simps)
next
  case (Write fd b)
  show ?thesis
  proof (cases "fd = 1 \<or> fd = 2")
    case True
    then show ?thesis
      using line_append_ok [OF assms] by (simp add: Write write_fd_captured del: out_text.simps)
  next
    case False
    then show ?thesis using uncaptured_ok [OF write_fd_lines assms, of fd wr b] by (simp add: Write)
  qed
next
  case FlushPartial
  then show ?thesis using line_flush_ok [OF assms] by (simp add: oops_stderr_flush_partial_def)
qed


lemma out_run_ok: "lines_ok s \<Longrightarrow> lines_ok (fold (out_step wr alloc) xs s)"
  by (induction xs arbitrary: s) (simp_all add: out_step_ok)

lemma out_run_seen:
  "lines_ok s \<Longrightarrow> seen (fold (out_step wr (\<lambda>_. True)) xs s) = seen s @ kept (concat (map out_text xs))"
proof (induction xs arbitrary: s)
  case (Cons x xs)
  then show ?case using out_step_ok [OF Cons.prems, of wr "\<lambda>_. True" x] by simp
qed simp

lemma output_init_ok: "lines_ok output_init" "seen output_init = []"
  by (simp_all add: lines_ok_def seen_def output_init_def)

section \<open>Properties\<close>




text \<open>A descriptor write puts a prefix of the text into the file, all of it unless the call fails.\<close>

lemma fd_write_from_result:
  assumes "\<And>k t. wr k fd t \<le> int (length t)" and "dn \<le> length tx"
  shows "\<exists>n. dn \<le> n \<and> n \<le> length tx \<and>
    files (snd (fd_write_from wr fd tx dn s)) = (files s)(fd := files s fd @ drop dn (take n tx)) \<and>
    fst (fd_write_from wr fd tx dn s) = (if n = length tx then (0, None) else (- 1, Some EIO))"
  using assms
proof (induction wr fd tx dn s rule: fd_write_from.induct)
  case (1 wr fd tx dn s)
  let ?k = "wr (wr_calls s) fd (drop dn tx)"
  consider (fin) "\<not> dn < length tx" | (failed) "dn < length tx" "?k \<le> 0" | (some) "dn < length tx" "\<not> ?k \<le> 0"
    by linarith
  then show ?case
  proof cases
    case fin
    then have "fd_write_from wr fd tx dn s = ((0, None), s)" by (subst fd_write_from.simps) simp
    then show ?thesis using fin "1.prems"(2) by (intro exI [of _ "length tx"]) simp
  next
    case failed
    then have "fd_write_from wr fd tx dn s = ((- 1, Some EIO), s\<lparr>wr_calls := wr_calls s + 1\<rparr>)"
      by (subst fd_write_from.simps) (simp add: Let_def)
    then show ?thesis using failed by (intro exI [of _ dn]) simp
  next
    case some
    let ?s1 = "s\<lparr>wr_calls := wr_calls s + 1\<rparr>"
    let ?s2 = "?s1\<lparr>files := (files ?s1)(fd := files ?s1 fd @ take (nat ?k) (drop dn tx))\<rparr>"
    have le: "dn + nat ?k \<le> length tx" using "1.prems"(1) [of "wr_calls s" "drop dn tx"] some by simp
    have step: "fd_write_from wr fd tx dn s = fd_write_from wr fd tx (dn + nat ?k) ?s2"
      using some by (subst fd_write_from.simps) (simp add: Let_def)
    obtain n where n: "dn + nat ?k \<le> n" "n \<le> length tx"
      "files (snd (fd_write_from wr fd tx (dn + nat ?k) ?s2)) =
        (files ?s2)(fd := files ?s2 fd @ drop (dn + nat ?k) (take n tx))"
      "fst (fd_write_from wr fd tx (dn + nat ?k) ?s2) = (if n = length tx then (0, None) else (- 1, Some EIO))"
      using "1.IH" [OF some(1) refl refl some(2) "1.prems"(1) le] by blast
    have "take (nat ?k) (drop dn tx) @ drop (dn + nat ?k) (take n tx) = drop dn (take n tx)"
    proof -
      have "take (nat ?k) (drop dn tx) = take (nat ?k) (drop dn (take n tx))"
        using n(1) by (simp add: drop_take min_def)
      then show ?thesis by (metis add.commute append_take_drop_id drop_drop)
    qed
    then show ?thesis using n unfolding step by (intro exI [of _ n]) simp
  qed
qed



end
