(* ===== verification/Logging.thy ===== *)
theory Logging
  imports Klog Buffers
begin

text \<open>
  The log lines of \<open>src/src/winsys/log.c\<close> over the captured output: a winsys line first flushes
  what a title has written without a line break, so that the two stay in order, and is cut to its
  buffer. \<open>fmt\<close> stands for the formatted text, whose formatting is the C library's.
\<close>

definition winsys_vlog :: "string \<Rightarrow> outputs \<Rightarrow> outputs" where
  "winsys_vlog fmt s = oops_klog (take 255 fmt) (oops_stderr_flush_partial s)"

definition oops_winsys_log :: "string \<Rightarrow> outputs \<Rightarrow> outputs" where
  "oops_winsys_log fmt s = winsys_vlog fmt s"

datatype log_level = OOPS_LOG_INFO | OOPS_LOG_DEBUG | OOPS_LOG_TRACE

text \<open>Levels are compared: \<open>INFO\<close> is the least verbose, \<open>TRACE\<close> the most.\<close>

fun level_number :: "log_level \<Rightarrow> nat" where
  "level_number OOPS_LOG_INFO = 0"
| "level_number OOPS_LOG_DEBUG = 1"
| "level_number OOPS_LOG_TRACE = 2"

instantiation log_level :: linorder
begin

definition less_eq_log_level :: "log_level \<Rightarrow> log_level \<Rightarrow> bool" where
  "less_eq_log_level a b \<longleftrightarrow> level_number a \<le> level_number b"

definition less_log_level :: "log_level \<Rightarrow> log_level \<Rightarrow> bool" where
  "less_log_level a b \<longleftrightarrow> level_number a < level_number b"

instance
proof
  show "a \<le> b \<Longrightarrow> b \<le> a \<Longrightarrow> a = b" for a b :: log_level
    by (cases a; cases b) (simp_all add: less_eq_log_level_def)
qed (auto simp: less_eq_log_level_def less_log_level_def)

end

definition oops_winsys_log_debug :: "log_level \<Rightarrow> string \<Rightarrow> outputs \<Rightarrow> outputs" where
  "oops_winsys_log_debug level fmt s =
     (if level < OOPS_LOG_DEBUG then s else winsys_vlog fmt s)"

section \<open>The dump of a command stream\<close>

definition hex_digit :: "nat \<Rightarrow> char" where
  "hex_digit n = ''0123456789abcdef'' ! n"

fun hex :: "nat \<Rightarrow> string" where
  "hex n = (if n < 16 then [hex_digit n] else hex (n div 16) @ [hex_digit (n mod 16)])"

declare hex.simps [simp del]

text \<open>\<open>%u\<close>, and \<open>%0wx\<close>.\<close>

fun decimal :: "nat \<Rightarrow> string" where
  "decimal n = (if n < 10 then [hex_digit n] else decimal (n div 10) @ [hex_digit (n mod 10)])"

declare decimal.simps [simp del]

definition hex_padded :: "nat \<Rightarrow> nat \<Rightarrow> string" where
  "hex_padded w n = replicate (w - length (hex n)) (CHR ''0'') @ hex n"

text \<open>The dwords \<open>i .. i + 7\<close> of a stream of \<open>n\<close>, one line.\<close>

definition dump_line :: "(nat \<Rightarrow> u32) \<Rightarrow> nat \<Rightarrow> nat \<Rightarrow> string" where
  "dump_line dw n i = ''ib+'' @ hex_padded 4 (i * 4) @
     concat (map (\<lambda>k. CHR '' '' # hex_padded 8 (unat (dw (i + k)))) (takeWhile (\<lambda>k. i + k < n) [0..<8]))"

function dump_from :: "(nat \<Rightarrow> u32) \<Rightarrow> nat \<Rightarrow> nat \<Rightarrow> outputs \<Rightarrow> outputs" where
  "dump_from dw n i s =
     (if i < n then dump_from dw n (i + 8) (oops_klog (dump_line dw n i) (oops_stderr_flush_partial s)) else s)"
  by pat_completeness auto
termination by (relation "measure (\<lambda>(dw, n, i, s). n - i)") auto

declare dump_from.simps [simp del]

definition no_buffer_line :: "u64 \<Rightarrow> string" where
  "no_buffer_line va = ''ib dump: 0x'' @ hex (unat va) @ '' is not in any CPU-mapped buffer''"

definition oops_winsys_dump_ib ::
    "log_level \<Rightarrow> (u64 \<Rightarrow> u32) \<Rightarrow> buffers \<Rightarrow> u64 \<Rightarrow> u32 \<Rightarrow> outputs \<Rightarrow> outputs" where
  "oops_winsys_dump_ib level load b va bytes s =
     (if level < OOPS_LOG_TRACE then s
      else let p = oops_winsys_cpu_for_va va (ucast bytes) b in
           if p = 0 then oops_winsys_log (no_buffer_line va) s
           else dump_from (\<lambda>i. load (p + of_nat (4 * i))) (unat (bytes div 4)) 0 s)"

section \<open>Order and bounds\<close>

lemma winsys_vlog_order:
  assumes "lines_ok s"
  shows "s_line (winsys_vlog fmt s) = []" and "concat (klog (winsys_vlog fmt s)) = seen s @ take 255 fmt"
  using line_flush_ok [OF assms] by (simp_all add: winsys_vlog_def oops_klog_def oops_stderr_flush_partial_def seen_def)

lemma hex_length: "n < 16 ^ k \<Longrightarrow> 0 < k \<Longrightarrow> length (hex n) \<le> k"
proof (induction k arbitrary: n)
  case (Suc k)
  show ?case
  proof (cases "n < 16")
    case False
    then have "0 < k" using Suc.prems by (cases k) auto
    moreover have "n div 16 < 16 ^ k" using Suc.prems by (simp add: less_mult_imp_div_less mult.commute)
    ultimately show ?thesis using Suc.IH [of "n div 16"] False by (subst hex.simps) simp
  qed (simp add: hex.simps)
qed simp

lemma hex_padded_length: "n < 16 ^ k \<Longrightarrow> 0 < k \<Longrightarrow> w \<le> k \<Longrightarrow> length (hex_padded w n) \<le> k"
  using hex_length [of n k] by (simp add: hex_padded_def)

text \<open>A line of the dump fits its 128-byte buffer, so the running \<open>at\<close> never passes the end.\<close>

lemma dump_line_fits:
  assumes "n \<le> 2 ^ 30" and "i < n"
  shows "length (dump_line dw n i) < 128"
proof -
  have "length (hex_padded 4 (i * 4)) \<le> 8" using assms by (intro hex_padded_length) simp_all
  moreover have "length (hex_padded 8 (unat (x :: u32))) \<le> 8" for x
    using unsigned_less [of x, where ?'a = nat] by (intro hex_padded_length) simp_all
  then have c: "length (concat (map (\<lambda>k. CHR '' '' # hex_padded 8 (unat (dw (i + k)))) ks)) \<le> 9 * length ks" for ks
    by (induction ks) (auto intro: add_mono)
  have "length (takeWhile (\<lambda>k. i + k < n) [0..<8]) \<le> 8" using length_takeWhile_le [of _ "[0..<8]"] by simp
  ultimately show ?thesis
    using c [of "takeWhile (\<lambda>k. i + k < n) [0..<8]"] unfolding dump_line_def by simp
qed

end
