(* ===== verification/Stubs.thy ===== *)
theory Stubs
  imports Logging
begin

text \<open>
  The calls of \<open>src/src/runtime/libc_absent.c\<close> that the platform cannot do: each says so in the
  log and answers with its failure value, and the three that must not return do not. The arguments
  a call ignores are left out, except that a call keeps the ones its line names. The line is the
  formatted text, cut by the log where it is too long.
\<close>

section \<open>Formatting\<close>

text \<open>\<open>%s\<close> of an argument that may be null, and \<open>%d\<close>.\<close>

definition shown :: "string option \<Rightarrow> string" where
  "shown p = (case p of None \<Rightarrow> ''(null)'' | Some x \<Rightarrow> x)"

definition signed_decimal :: "int \<Rightarrow> string" where
  "signed_decimal n = (if n < 0 then CHR ''-'' # decimal (nat (- n)) else decimal (nat n))"

text \<open>How a call ends: it returns, it traps, it aborts, or it parks for ever.\<close>

datatype 'a ending = Returns 'a | Traps | Aborts | Parks

section \<open>Refused calls\<close>

definition xuname_line :: string where
  "xuname_line =
     ''__xuname was called; this platform does not export it and the shim has no '' @
     ''system name to give. Returning failure.''"

definition xuname :: "outputs \<Rightarrow> int \<times> outputs" where
  "xuname s = (- 1, oops_winsys_log xuname_line s)"

definition getline_line :: string where
  "getline_line =
     ''getline was called; this platform does not export it. Returning end of input, '' @
     ''which is what a caller reading a file that is not there expects.''"

definition getline :: "outputs \<Rightarrow> int \<times> outputs" where
  "getline s = (- 1, oops_winsys_log getline_line s)"

definition mknod_line :: string where
  "mknod_line =
     ''mknod was called; there is no device filesystem here to create a node in. '' @
     ''Returning failure.''"

definition mknod :: "outputs \<Rightarrow> int \<times> outputs" where
  "mknod s = (- 1, oops_winsys_log mknod_line s)"

definition mkstemps_line :: string where
  "mkstemps_line =
     ''mkstemps was called; this platform does not export it and the shim creates no '' @
     ''file. Returning failure rather than a descriptor that is not one.''"

definition mkstemps :: "outputs \<Rightarrow> int \<times> outputs" where
  "mkstemps s = (- 1, oops_winsys_log mkstemps_line s)"

definition sysctl_line :: string where
  "sysctl_line =
     ''sysctl was called; this platform does not export it and the shim has no table '' @
     ''to read. Returning failure, which every caller here handles.''"

definition sysctl :: "outputs \<Rightarrow> int \<times> outputs" where
  "sysctl s = (- 1, oops_winsys_log sysctl_line s)"

definition shmget_line :: string where
  "shmget_line =
     ''shmget was called, so the software winsys is running, which this build does not '' @
     ''select (D001). Refusing.''"

definition shmget :: "outputs \<Rightarrow> int \<times> outputs" where
  "shmget s = (- 1, oops_winsys_log shmget_line s)"

definition shmat_line :: string where
  "shmat_line =
     ''shmat was called; there is no shared segment here and the caller tests for this '' @ ''value.''"

definition shmat :: "outputs \<Rightarrow> int \<times> outputs" where
  "shmat s = (- 1, oops_winsys_log shmat_line s)"

definition shmdt_line :: string where
  "shmdt_line =
     ''shmdt was called; nothing was ever attached.''"

definition shmdt :: "outputs \<Rightarrow> int \<times> outputs" where
  "shmdt s = (- 1, oops_winsys_log shmdt_line s)"

definition shmctl_line :: string where
  "shmctl_line =
     ''shmctl was called; there is no segment to control.''"

definition shmctl :: "outputs \<Rightarrow> int \<times> outputs" where
  "shmctl s = (- 1, oops_winsys_log shmctl_line s)"

definition chown_line :: "string option \<Rightarrow> string" where
  "chown_line path =
     ''chown(\"'' @ shown path @ ''\") was called; a title has no filesystem to own.''"

definition chown :: "string option \<Rightarrow> outputs \<Rightarrow> int \<times> outputs" where
  "chown path s = (- 1, oops_winsys_log (chown_line path) s)"

definition unlink_line :: "string option \<Rightarrow> string" where
  "unlink_line path =
     ''unlink(\"'' @ shown path @ ''\") was called; nothing here created a file to remove.''"

definition unlink :: "string option \<Rightarrow> outputs \<Rightarrow> int \<times> outputs" where
  "unlink path s = (- 1, oops_winsys_log (unlink_line path) s)"

definition sync_line :: string where
  "sync_line =
     ''sync was called; there are no buffers here to flush to a disk.''"

definition sync :: "outputs \<Rightarrow> unit \<times> outputs" where
  "sync s = ((), oops_winsys_log sync_line s)"

definition readlink_line :: "string option \<Rightarrow> string" where
  "readlink_line path =
     ''readlink(\"'' @ shown path @ ''\") was called; there are no symbolic links to read.''"

definition readlink :: "string option \<Rightarrow> outputs \<Rightarrow> int \<times> outputs" where
  "readlink path s = (- 1, oops_winsys_log (readlink_line path) s)"

definition mkstemp_line :: "string option \<Rightarrow> string" where
  "mkstemp_line template_name =
     ''mkstemp(\"'' @ shown template_name @
     ''\") was called; a debug dump wants a temporary file and there is no writable '' @
     ''filesystem to make one in.''"

definition mkstemp :: "string option \<Rightarrow> outputs \<Rightarrow> int \<times> outputs" where
  "mkstemp template_name s = (- 1, oops_winsys_log (mkstemp_line template_name) s)"

definition open_memstream_line :: string where
  "open_memstream_line =
     ''open_memstream was called; no in-memory stream is provided here, and the caller '' @
     ''tests for null.''"

definition open_memstream :: "outputs \<Rightarrow> nat option \<times> outputs" where
  "open_memstream s = (None, oops_winsys_log open_memstream_line s)"

definition popen_line :: "string option \<Rightarrow> string" where
  "popen_line command =
     ''popen(\"'' @ shown command @
     ''\") was called; there is no shell and no second process on this platform. This '' @
     ''is the disassembler hand-off and it cannot run here.''"

definition popen :: "string option \<Rightarrow> outputs \<Rightarrow> nat option \<times> outputs" where
  "popen command s = (None, oops_winsys_log (popen_line command) s)"

definition pclose_line :: string where
  "pclose_line =
     ''pclose was called; popen never opened anything.''"

definition pclose :: "outputs \<Rightarrow> int \<times> outputs" where
  "pclose s = (- 1, oops_winsys_log pclose_line s)"

definition openlog_line :: "string option \<Rightarrow> string" where
  "openlog_line ident =
     ''openlog(\"'' @ shown ident @
     ''\") was called; `syslog` itself is exported but its setup call is not, so the '' @
     ''identity is dropped and the messages still go out.''"

definition openlog :: "string option \<Rightarrow> outputs \<Rightarrow> unit \<times> outputs" where
  "openlog ident s = ((), oops_winsys_log (openlog_line ident) s)"

definition syscall_line :: "int \<Rightarrow> string" where
  "syscall_line number =
     ''syscall('' @ signed_decimal number @
     '', ...) was called; this shim will not guess at a system-call numbering the '' @
     ''platform declines to name (D004). Failing instead.''"

definition syscall :: "int \<Rightarrow> outputs \<Rightarrow> int \<times> outputs" where
  "syscall number s = (- 1, oops_winsys_log (syscall_line number) s)"

definition sysctlbyname_line :: "string option \<Rightarrow> string" where
  "sysctlbyname_line name =
     ''sysctlbyname(\"'' @ shown name @
     ''\") was called; the sweep found no address a title can resolve for it, only an '' @
     ''internal stub. Returning failure.''"

definition sysctlbyname :: "string option \<Rightarrow> outputs \<Rightarrow> int \<times> outputs" where
  "sysctlbyname name s = (- 1, oops_winsys_log (sysctlbyname_line name) s)"

definition devname_r_line :: string where
  "devname_r_line =
     ''devname_r was called; there is no device namespace to name from here.''"

definition devname_r :: "outputs \<Rightarrow> nat option \<times> outputs" where
  "devname_r s = (None, oops_winsys_log devname_r_line s)"

definition system_line :: "string option \<Rightarrow> string" where
  "system_line command =
     ''system(\"'' @ shown command @
     ''\") was called; there is no shell and no second process on this platform.''"

definition system :: "string option \<Rightarrow> outputs \<Rightarrow> int \<times> outputs" where
  "system command s = (- 1, oops_winsys_log (system_line command) s)"

definition sigaction_line :: "int \<Rightarrow> string" where
  "sigaction_line sig =
     ''sigaction('' @ signed_decimal sig @
     '') was called; this platform does not export it and a title does not own signal '' @
     ''disposition. Returning failure.''"

definition sigaction :: "int \<Rightarrow> outputs \<Rightarrow> int \<times> outputs" where
  "sigaction sig s = (- 1, oops_winsys_log (sigaction_line sig) s)"

definition shm_open_line :: "string option \<Rightarrow> string" where
  "shm_open_line path =
     ''shm_open(\"'' @ shown path @
     ''\") was called; there are no shared memory objects here, and the caller tests '' @
     ''the descriptor.''"

definition shm_open :: "string option \<Rightarrow> outputs \<Rightarrow> int \<times> outputs" where
  "shm_open path s = (- 1, oops_winsys_log (shm_open_line path) s)"

section \<open>Calls that do not return\<close>

definition assert_line :: "string option \<Rightarrow> string option \<Rightarrow> int \<Rightarrow> string option \<Rightarrow> string" where
  "assert_line func file line expr =
     ''assertion failed: '' @ shown expr @ '', '' @ shown file @ '':'' @ signed_decimal line @
     '' in '' @ shown func @
     '' - this platform exports no __assert, so this is the shim in libc_absent.c''"

definition assert_failed ::
    "string option \<Rightarrow> string option \<Rightarrow> int \<Rightarrow> string option \<Rightarrow> outputs \<Rightarrow> unit ending \<times> outputs" where
  "assert_failed func file line expr s = (Traps, oops_winsys_log (assert_line func file line expr) s)"

definition exit_line :: "int \<Rightarrow> string" where
  "exit_line status =
     ''exit('' @ signed_decimal status @
     '') was called. This platform exports no exit and a big-app container cannot '' @
     ''terminate itself, so this title is now idle and finished - close it from the '' @ ''host.''"

definition exit_process :: "int \<Rightarrow> outputs \<Rightarrow> unit ending \<times> outputs" where
  "exit_process status s = (Parks, oops_winsys_log (exit_line status) s)"

definition longjmp_line :: "int \<Rightarrow> string" where
  "longjmp_line val =
     ''longjmp('' @ signed_decimal val @
     '') was called, and there is no saved context to return to: this platform exports '' @
     ''neither half of the pair and oops-mesa implements only setjmp's direct-call '' @
     ''return. SPIR-V has hit an error it wanted to unwind from. Stopping here rather '' @
     ''than jumping somewhere invented.''"

definition longjmp :: "int \<Rightarrow> outputs \<Rightarrow> unit ending \<times> outputs" where
  "longjmp val s = (Traps, oops_winsys_log (longjmp_line val) s)"

text \<open>\<open>setjmp\<close> answers like a direct call and says so once; \<open>s_said\<close> is its static flag.\<close>

definition setjmp_line :: string where
  "setjmp_line =
     ''setjmp was called - this is SPIR-V's error recovery, which this build does not '' @
     ''implement. Returning 0 as a direct call; a longjmp to it will stop.''"

definition setjmp :: "bool \<Rightarrow> outputs \<Rightarrow> int \<times> bool \<times> outputs" where
  "setjmp s_said s = (if s_said then (0, s_said, s) else (0, True, oops_winsys_log setjmp_line s))"

section \<open>Calls with a true answer\<close>

definition isatty :: "int \<Rightarrow> int" where
  "isatty fd = 0"

text \<open>\<open>OOPS_APP_NAME\<close> where the build does not define it.\<close>

definition getprogname :: string where
  "getprogname = ''oops-mesa''"

section \<open>What reaches the log\<close>

text \<open>The lines without an argument fit the 256-byte buffer, so they are logged whole.\<close>

lemma fixed_lines_fit:
  "list_all (\<lambda>l. length l < 256) [xuname_line, getline_line, mknod_line, mkstemps_line, sysctl_line, shmget_line, shmat_line,
     shmdt_line, shmctl_line, sync_line, open_memstream_line, pclose_line, devname_r_line,
     setjmp_line]"
  by (simp add: xuname_line_def getline_line_def mknod_line_def mkstemps_line_def sysctl_line_def
      shmget_line_def shmat_line_def shmdt_line_def shmctl_line_def sync_line_def
      open_memstream_line_def pclose_line_def devname_r_line_def setjmp_line_def)

lemma decimal_nonempty: "decimal n \<noteq> []"
  by (subst decimal.simps) simp

lemma signed_decimal_nonempty: "0 < length (signed_decimal n)"
  by (simp add: signed_decimal_def decimal_nonempty)

text \<open>
  The line of \<open>longjmp\<close> does not: its last words never reach the log, whatever the value.
\<close>

lemma longjmp_line_cut:
  "\<exists>cut. longjmp_line val = take 255 (longjmp_line val) @ cut \<and> 20 < length cut \<and>
    klog (snd (longjmp val s)) = klog (oops_stderr_flush_partial s) @ [take 255 (longjmp_line val)]"
proof -
  have "275 < length (longjmp_line val)"
    using signed_decimal_nonempty [of val] by (simp add: longjmp_line_def)
  then show ?thesis
    by (intro exI [of _ "drop 255 (longjmp_line val)"])
      (simp add: longjmp_def oops_winsys_log_def winsys_vlog_def oops_klog_def)
qed

text \<open>\<open>setjmp\<close> logs at most once, however often it is called.\<close>

lemma setjmp_logs_once:
  "((\<lambda>(q, s). snd (setjmp q s)) ^^ Suc n) (False, s) = (True, oops_winsys_log setjmp_line s)"
  by (induction n) (simp_all add: setjmp_def)

end
