(* ===== verification/Cxx_Runtime.thy ===== *)
theory Cxx_Runtime
  imports Stubs Threads
begin

text \<open>
  The calls of \<open>src/src/runtime/cxx_support.cpp\<close> over the C library: allocation, \<open>std::mutex\<close> over
  the thread surface, and the handlers that stop the title after saying why. \<open>malloc\<close> and \<open>free\<close>
  are parameters; formatting is the C library's, so a message is its text, or the negative length
  the formatter failed with.
\<close>

section \<open>Allocation\<close>

definition operator_new :: "(nat \<Rightarrow> nat) \<Rightarrow> nat \<Rightarrow> nat" where
  "operator_new malloc bytes = malloc (if bytes \<noteq> 0 then bytes else 1)"

definition operator_delete :: "(nat \<Rightarrow> 'h \<Rightarrow> 'h) \<Rightarrow> nat \<Rightarrow> 'h \<Rightarrow> 'h" where
  "operator_delete free p h = free p h"

definition operator_new_nothrow :: "(nat \<Rightarrow> nat) \<Rightarrow> nat \<Rightarrow> nat" where
  "operator_new_nothrow malloc bytes = malloc (if bytes \<noteq> 0 then bytes else 1)"

text \<open>No allocation of zero bytes reaches \<open>malloc\<close>, which may answer it with null.\<close>

lemma operator_new_never_null:
  assumes "\<And>n. 0 < n \<Longrightarrow> malloc n \<noteq> 0"
  shows "operator_new malloc bytes \<noteq> 0 \<and> operator_new_nothrow malloc bytes \<noteq> 0"
  using assms by (simp add: operator_new_def operator_new_nothrow_def)

section \<open>Stopping\<close>

type_synonym writer = "nat \<Rightarrow> int \<Rightarrow> string \<Rightarrow> int"

definition libcpp_verbose_abort ::
    "writer \<Rightarrow> (nat \<Rightarrow> bool) \<Rightarrow> int + string \<Rightarrow> outputs \<Rightarrow> 'a ending \<times> outputs" where
  "libcpp_verbose_abort wr alloc formatted s = (Aborts, snd (fprintf wr alloc Stderr formatted s))"

definition pure_virtual_line :: string where
  "pure_virtual_line =
     ''oops-mesa: a pure virtual function was called. The object's vtable slot was '' @
     ''never overridden, which is a lifetime bug in the caller, not a missing '' @
     ''platform symbol. Stopping here.'' @ [CHR 0x0A]"

definition cxa_pure_virtual :: "writer \<Rightarrow> (nat \<Rightarrow> bool) \<Rightarrow> outputs \<Rightarrow> unit ending \<times> outputs" where
  "cxa_pure_virtual wr alloc s = (Aborts, snd (fprintf wr alloc Stderr (Inr pure_virtual_line) s))"

definition cxa_atexit :: "nat \<Rightarrow> nat \<Rightarrow> nat \<Rightarrow> int" where
  "cxa_atexit func arg dso_handle = 0"

section \<open>The mutex\<close>

definition mutex_failed_line :: "u32 \<Rightarrow> string" where
  "mutex_failed_line rc =
     ''oops-mesa: mutex lock failed with errno '' @ signed_decimal (sint rc) @ [CHR 0x0A]"

definition mutex_lock ::
    "vendor \<Rightarrow> writer \<Rightarrow> (nat \<Rightarrow> bool) \<Rightarrow> nat \<Rightarrow> threads \<times> outputs \<Rightarrow> unit ending \<times> threads \<times> outputs" where
  "mutex_lock v wr alloc m = (\<lambda>(th, out).
     let (rc, th1) = pthread_mutex_lock v m th in
     if rc \<noteq> 0
     then let (e, out1) = libcpp_verbose_abort wr alloc (Inr (mutex_failed_line rc)) out in (e, th1, out1)
     else (Returns (), th1, out))"

definition mutex_unlock :: "vendor \<Rightarrow> nat \<Rightarrow> threads \<Rightarrow> threads" where
  "mutex_unlock v m th = snd (pthread_mutex_unlock v m th)"

definition mutex_destroy :: "vendor \<Rightarrow> nat \<Rightarrow> threads \<Rightarrow> threads" where
  "mutex_destroy v m th = snd (pthread_mutex_destroy v m th)"

section \<open>The reason is in the log\<close>

lemma emit_line_logged:
  assumes "lines_ok s" and "length t + 1 < OOPS_LINE_MAX" and "kept t = t"
  shows "concat (klog (snd (fprintf wr alloc Stderr (Inr (t @ [CHR 0x0A])) s))) = seen s @ t"
proof -
  let ?s = "line_append t s"
  have o: "lines_ok ?s" "seen ?s = seen s @ t" using line_append_ok [OF assms(1), of t] assms(3) by simp_all
  have "snd (fprintf wr alloc Stderr (Inr (t @ [CHR 0x0A])) s) = line_flush ?s"
    using assms(2) by (simp add: fprintf_def emit_formatted_def stream_is_captured_def line_append_def line_char_def)
  then show ?thesis using line_flush_ok [OF o(1)] o(2) by (simp add: seen_def)
qed

text \<open>Whatever stops a title has reached the log whole, after everything printed before it.\<close>

lemma pure_virtual_logged:
  assumes "lines_ok s"
  shows "concat (klog (snd (cxa_pure_virtual wr alloc s))) = seen s @ butlast pure_virtual_line"
proof -
  have "pure_virtual_line = butlast pure_virtual_line @ [CHR 0x0A]" by (simp add: pure_virtual_line_def)
  moreover have "length (butlast pure_virtual_line) + 1 < OOPS_LINE_MAX" "kept (butlast pure_virtual_line) = butlast pure_virtual_line"
    by (simp_all add: pure_virtual_line_def OOPS_LINE_MAX_def kept_def)
  ultimately show ?thesis using emit_line_logged [OF assms] unfolding cxa_pure_virtual_def snd_conv by metis
qed

end
