(* ===== verification/Tiling.thy ===== *)
theory Tiling
  imports Prelude
begin

text \<open>
  \<open>src/tools/tiling-compare/tiling_compare.cpp\<close>: whether Mesa's address library places a surface
  where the display's tiler does. Both are code outside the repository: \<open>tiler\<close> gives the tiled
  dwords of a surface, \<open>addrlib\<close> the byte address of a pixel under a configuration, or \<open>None\<close> when
  it refuses. The printed lines other than the verdict are left out.
\<close>

section \<open>The comparison\<close>

definition kGbAddrConfig :: u32 where
  "kGbAddrConfig = 4"

definition kGbAddrConfigWrong :: u32 where
  "kGbAddrConfigWrong = 3"

definition kWidth :: nat where
  "kWidth = 384"

definition kHeight :: nat where
  "kHeight = 256"

record disagreement =
  dg_count :: nat
  dg_x :: nat
  dg_y :: nat
  dg_sdk :: u64
  dg_addr :: u64

definition no_disagreement :: disagreement where
  "no_disagreement = \<lparr>dg_count = 0, dg_x = 0, dg_y = 0, dg_sdk = 0, dg_addr = 0\<rparr>"

text \<open>The loop over the pixels \<open>i, i + 1, ...\<close> in row-major order, \<open>k\<close> of them.\<close>

fun compare_from ::
    "(nat \<Rightarrow> nat \<Rightarrow> u64 option) \<Rightarrow> (nat \<Rightarrow> u64) \<Rightarrow> nat \<Rightarrow> nat \<Rightarrow> disagreement \<Rightarrow> disagreement option" where
  "compare_from addr sdk_offset i 0 out = Some out"
| "compare_from addr sdk_offset i (Suc k) out =
     (let x = i mod kWidth; y = i div kWidth in
      case addr x y of
        None \<Rightarrow> None
      | Some a \<Rightarrow>
          compare_from addr sdk_offset (i + 1) k
            (if a \<noteq> sdk_offset i
             then (if dg_count out = 0 then out\<lparr>dg_x := x, dg_y := y, dg_sdk := sdk_offset i, dg_addr := a\<rparr> else out)
                    \<lparr>dg_count := dg_count out + 1\<rparr>
             else out))"

record addrlib =
  al_create :: "u32 \<Rightarrow> bool"
  al_addr :: "u32 \<Rightarrow> nat \<Rightarrow> nat \<Rightarrow> u64 option"

definition compare_against_tiler :: "addrlib \<Rightarrow> u32 \<Rightarrow> (nat \<Rightarrow> u64) \<Rightarrow> disagreement option" where
  "compare_against_tiler lib gb_addr_config sdk_offset =
     (if \<not> al_create lib gb_addr_config then None
      else compare_from (al_addr lib gb_addr_config) sdk_offset 0 (kWidth * kHeight) no_disagreement)"

section \<open>The tiler's offsets\<close>

text \<open>Where each pixel landed, \<open>None\<close> for \<open>UINT64_MAX\<close>: the last dword that holds its identifier.\<close>

definition note_dword :: "nat \<Rightarrow> u32 list \<Rightarrow> nat \<Rightarrow> (nat \<Rightarrow> u64 option) \<Rightarrow> (nat \<Rightarrow> u64 option)" where
  "note_dword pixels tiled dw off =
     (let k = unat (tiled ! dw) in
      if k = 0 \<or> k > pixels then off else off(k - 1 := Some (of_nat dw * 4)))"

definition sdk_offsets :: "nat \<Rightarrow> u32 list \<Rightarrow> nat \<Rightarrow> u64 option" where
  "sdk_offsets pixels tiled = fold (note_dword pixels tiled) [0..<length tiled] (\<lambda>_. None)"

datatype verdict = Inconclusive | Agree | Differ

text \<open>The verdict, or \<open>None\<close> when the tool gives up with exit code 1.\<close>

definition tiling_main :: "(u32 list \<Rightarrow> u32 list) \<Rightarrow> addrlib \<Rightarrow> verdict option" where
  "tiling_main tiler lib =
     (let pixels = kWidth * kHeight;
          linear = map (\<lambda>i. of_nat (i + 1)) [0..<pixels];
          off = sdk_offsets pixels (tiler linear)
      in if \<not> list_all (\<lambda>i. off i \<noteq> None) [0..<pixels] then None
         else let offset = (\<lambda>i. the (off i)) in
           case compare_against_tiler lib kGbAddrConfig offset of
             None \<Rightarrow> None
           | Some derived \<Rightarrow>
               (case compare_against_tiler lib kGbAddrConfigWrong offset of
                  None \<Rightarrow> None
                | Some control \<Rightarrow>
                    Some (if dg_count control = 0 then Inconclusive
                          else if dg_count derived = 0 then Agree
                          else Differ)))"

section \<open>What a verdict means\<close>

lemma compare_from_count:
  "compare_from addr off i k out = Some res \<Longrightarrow>
   (\<forall>j. i \<le> j \<and> j < i + k \<longrightarrow> addr (j mod kWidth) (j div kWidth) \<noteq> None) \<and>
   dg_count res = dg_count out + card {j. i \<le> j \<and> j < i + k \<and> addr (j mod kWidth) (j div kWidth) \<noteq> Some (off j)}"
proof (induction k arbitrary: i out)
  case 0
  then show ?case by auto
next
  case (Suc k)
  let ?bad = "\<lambda>j. addr (j mod kWidth) (j div kWidth) \<noteq> Some (off j)"
  obtain a where a: "addr (i mod kWidth) (i div kWidth) = Some a"
    using Suc.prems by (auto simp: Let_def split: option.splits)
  obtain out' where r: "compare_from addr off (i + 1) k out' = Some res"
    and c: "dg_count out' = dg_count out + (if ?bad i then 1 else 0)"
    using Suc.prems a by (auto simp: Let_def split: if_splits)
  have split: "{j. i \<le> j \<and> j < i + Suc k \<and> ?bad j} =
      (if ?bad i then {i} else {}) \<union> {j. i + 1 \<le> j \<and> j < i + 1 + k \<and> ?bad j}"
    by (auto simp: Suc_le_eq le_less)
  have "card {j. i \<le> j \<and> j < i + Suc k \<and> ?bad j} = (if ?bad i then 1 else 0) + card {j. i + 1 \<le> j \<and> j < i + 1 + k \<and> ?bad j}"
    unfolding split by (simp add: card_insert_if)
  moreover have "\<forall>j. i \<le> j \<and> j < i + Suc k \<longrightarrow> addr (j mod kWidth) (j div kWidth) \<noteq> None"
  proof (intro allI impI)
    fix j
    assume "i \<le> j \<and> j < i + Suc k"
    then consider "j = i" | "i + 1 \<le> j \<and> j < i + 1 + k" by linarith
    then show "addr (j mod kWidth) (j div kWidth) \<noteq> None" using Suc.IH [OF r] a by cases auto
  qed
  ultimately show ?case using Suc.IH [OF r] c by simp
qed

lemma note_dwords:
  assumes "n \<le> length tiled" and "\<And>dw. dw < length tiled \<Longrightarrow> tiled ! dw = of_nat (i + 1) \<longleftrightarrow> dw = p"
    and "i < pixels" "pixels < 2 ^ 32"
  shows "fold (note_dword pixels tiled) [0..<n] (\<lambda>_. None) i = (if p < n then Some (of_nat p * 4) else None)"
  using assms(1)
proof (induction n)
  case (Suc n)
  have u: "unat (of_nat (i + 1) :: u32) = i + 1" using assms(3,4) by (intro unat_of_nat_small) simp
  have "unat (tiled ! n) = i + 1 \<longleftrightarrow> n = p"
    using assms(2) [of n] Suc.prems u by (simp add: word_unat_eq_iff)
  then show ?case using Suc assms(3) by (auto simp: note_dword_def Let_def)
qed simp

lemma compare_from_total:
  "(\<And>j. i \<le> j \<Longrightarrow> j < i + k \<Longrightarrow> addr (j mod kWidth) (j div kWidth) \<noteq> None) \<Longrightarrow> \<exists>res. compare_from addr off i k out = Some res"
proof (induction k arbitrary: i out)
  case (Suc k)
  obtain a where "addr (i mod kWidth) (i div kWidth) = Some a" using Suc.prems [of i] by auto
  moreover have "\<exists>res. compare_from addr off (i + 1) k out' = Some res" for out'
    using Suc.prems by (intro Suc.IH) simp
  ultimately show ?case by (simp add: Let_def)
qed simp

lemma cell_less: "y < kHeight \<Longrightarrow> x < kWidth \<Longrightarrow> y * kWidth + x < kWidth * kHeight"
proof -
  assume "y < kHeight" "x < kWidth"
  then have "y * kWidth + x < (y + 1) * kWidth" by simp
  also have "\<dots> \<le> kHeight * kWidth" using \<open>y < kHeight\<close> by (intro mult_le_mono1) simp
  finally show ?thesis by (simp add: mult.commute)
qed

text \<open>The comparison in terms of coordinates.\<close>

lemma pixels_iff:
  "(\<forall>j<kWidth * kHeight. P (j mod kWidth) (j div kWidth) j) \<longleftrightarrow> (\<forall>y<kHeight. \<forall>x<kWidth. P x y (y * kWidth + x))"
proof
  assume l: "\<forall>j<kWidth * kHeight. P (j mod kWidth) (j div kWidth) j"
  show "\<forall>y<kHeight. \<forall>x<kWidth. P x y (y * kWidth + x)"
  proof (intro allI impI)
    fix y x
    assume "y < kHeight" "x < kWidth"
    then show "P x y (y * kWidth + x)" using l cell_less [of y x] by (auto dest: spec [where x = "y * kWidth + x"])
  qed
next
  assume r: "\<forall>y<kHeight. \<forall>x<kWidth. P x y (y * kWidth + x)"
  show "\<forall>j<kWidth * kHeight. P (j mod kWidth) (j div kWidth) j"
  proof (intro allI impI)
    fix j
    assume j: "j < kWidth * kHeight"
    have "j mod kWidth < kWidth" by (simp add: kWidth_def)
    moreover have "j div kWidth < kHeight" using j by (simp add: less_mult_imp_div_less mult.commute)
    ultimately show "P (j mod kWidth) (j div kWidth) j" using r by (metis div_mult_mod_eq)
  qed
qed

lemma compare_result:
  "case compare_against_tiler lib cfg off of
     None \<Rightarrow> \<not> (al_create lib cfg \<and> (\<forall>y<kHeight. \<forall>x<kWidth. al_addr lib cfg x y \<noteq> None))
   | Some r \<Rightarrow> al_create lib cfg \<and> (\<forall>y<kHeight. \<forall>x<kWidth. al_addr lib cfg x y \<noteq> None) \<and>
       (dg_count r = 0 \<longleftrightarrow> (\<forall>y<kHeight. \<forall>x<kWidth. al_addr lib cfg x y = Some (off (y * kWidth + x))))"
proof (cases "compare_against_tiler lib cfg off")
  case None
  have "\<not> (al_create lib cfg \<and> (\<forall>j<kWidth * kHeight. al_addr lib cfg (j mod kWidth) (j div kWidth) \<noteq> None))"
  proof
    assume a: "al_create lib cfg \<and> (\<forall>j<kWidth * kHeight. al_addr lib cfg (j mod kWidth) (j div kWidth) \<noteq> None)"
    then have "\<exists>res. compare_from (al_addr lib cfg) off 0 (kWidth * kHeight) no_disagreement = Some res"
      by (intro compare_from_total) simp
    then show False using None a by (auto simp: compare_against_tiler_def)
  qed
  then show ?thesis
    using None unfolding pixels_iff [of "\<lambda>x y j. al_addr lib cfg x y \<noteq> None"] by (simp only: option.case simp_thms)
next
  case (Some r)
  then have c: "al_create lib cfg" "compare_from (al_addr lib cfg) off 0 (kWidth * kHeight) no_disagreement = Some r"
    by (auto simp: compare_against_tiler_def split: if_splits)
  note n = compare_from_count [OF c(2)]
  have "\<forall>j<kWidth * kHeight. al_addr lib cfg (j mod kWidth) (j div kWidth) \<noteq> None" using n by simp
  moreover have "dg_count r = 0 \<longleftrightarrow> (\<forall>j<kWidth * kHeight. al_addr lib cfg (j mod kWidth) (j div kWidth) = Some (off j))"
    using n by (auto simp: no_disagreement_def)
  ultimately show ?thesis
    using c(1) Some pixels_iff [of "\<lambda>x y j. al_addr lib cfg x y \<noteq> None"]
      pixels_iff [of "\<lambda>x y j. al_addr lib cfg x y = Some (off j)"] by simp
qed

definition tiler_input :: "u32 list" where
  "tiler_input = map (\<lambda>i. of_nat (i + 1)) [0..<kWidth * kHeight]"

text \<open>
  C37. The tool says "the layouts agree" exactly when they do: for a tiler that puts pixel \<open>i\<close> at
  dword \<open>place i\<close> and nowhere else, the verdict is given when and only when the address library
  answers for every pixel under both configurations, with the tiler's byte address everywhere
  under the derived one and not everywhere under the wrong one.
\<close>

theorem tiling_agreement:
  assumes tiler: "\<And>i. i < kWidth * kHeight \<Longrightarrow> place i < length (tiler tiler_input) \<and>
      (\<forall>dw<length (tiler tiler_input). tiler tiler_input ! dw = of_nat (i + 1) \<longleftrightarrow> dw = place i)"
  shows "tiling_main tiler lib = Some Agree \<longleftrightarrow>
    al_create lib kGbAddrConfig \<and> al_create lib kGbAddrConfigWrong \<and>
    (\<forall>y<kHeight. \<forall>x<kWidth. al_addr lib kGbAddrConfig x y = Some (of_nat (place (y * kWidth + x)) * 4)) \<and>
    (\<forall>y<kHeight. \<forall>x<kWidth. al_addr lib kGbAddrConfigWrong x y \<noteq> None) \<and>
    (\<exists>y<kHeight. \<exists>x<kWidth. al_addr lib kGbAddrConfigWrong x y \<noteq> Some (of_nat (place (y * kWidth + x)) * 4))"
proof -
  let ?t = "tiler tiler_input"
  define off where "off = sdk_offsets (kWidth * kHeight) ?t"
  have off: "off i = Some (of_nat (place i) * 4)" if "i < kWidth * kHeight" for i
  proof -
    have "off i = (if place i < length ?t then Some (of_nat (place i) * 4) else None)"
      unfolding off_def sdk_offsets_def using tiler [OF that] that
      by (intro note_dwords) (auto simp: kWidth_def kHeight_def)
    then show ?thesis using tiler [OF that] by simp
  qed
  then have cells: "the (off (y * kWidth + x)) = of_nat (place (y * kWidth + x)) * 4" if "y < kHeight" "x < kWidth" for x y
    using cell_less [OF that] by simp
  have main: "tiling_main tiler lib = (case compare_against_tiler lib kGbAddrConfig (\<lambda>i. the (off i)) of
      None \<Rightarrow> None
    | Some derived \<Rightarrow>
       (case compare_against_tiler lib kGbAddrConfigWrong (\<lambda>i. the (off i)) of
          None \<Rightarrow> None
        | Some control \<Rightarrow>
            Some (if dg_count control = 0 then Inconclusive else if dg_count derived = 0 then Agree else Differ)))"
    using off unfolding tiling_main_def Let_def tiler_input_def [symmetric] off_def [symmetric]
    by (simp add: list_all_iff)
  show ?thesis
    using compare_result [of lib kGbAddrConfig "\<lambda>i. the (off i)"]
      compare_result [of lib kGbAddrConfigWrong "\<lambda>i. the (off i)"] cells
    unfolding main by (auto split: option.splits)
qed

text \<open>A tiler that keeps the linear order, and a library that answers with it under the right configuration only.\<close>

definition linear_lib :: addrlib where
  "linear_lib = \<lparr>al_create = (\<lambda>_. True),
     al_addr = (\<lambda>cfg x y. Some (if cfg = kGbAddrConfig then of_nat (y * kWidth + x) * 4 else 1))\<rparr>"

theorem tiling_agreement_witness:
  "tiling_main (\<lambda>xs. xs) linear_lib = Some Agree"
proof -
  have "i < length tiler_input \<and> (\<forall>dw<length tiler_input. tiler_input ! dw = of_nat (i + 1) \<longleftrightarrow> dw = i)"
    if "i < kWidth * kHeight" for i
  proof -
    have "(of_nat (dw + 1) :: u32) = of_nat (i + 1) \<longleftrightarrow> dw = i" if "dw < kWidth * kHeight" for dw
    proof -
      have "unat (of_nat (k + 1) :: u32) = k + 1" if "k < kWidth * kHeight" for k
        using that by (intro unat_of_nat_small) (simp add: kWidth_def kHeight_def)
      then show ?thesis using that \<open>i < kWidth * kHeight\<close> by (metis add_right_cancel)
    qed
    then show ?thesis using that by (simp add: tiler_input_def)
  qed
  then show ?thesis
    by (subst tiling_agreement [of "\<lambda>i. i"])
      (auto simp: linear_lib_def kGbAddrConfig_def kGbAddrConfigWrong_def kWidth_def kHeight_def
        intro!: exI [of _ 0])
qed

end
