(* ===== verification/System.thy ===== *)
theory System
  imports Prelude
begin

unbundle bit_operations_syntax

text \<open>
  The remaining computations of \<open>src/src/runtime/libc_absent.c\<close> (sleeping, the answers of
  \<open>sysconf\<close>, signal sets, number conversion and classification) and the constructors run by
  \<open>src/src/runtime/abi.c\<close>. The kernel calls are parameters.
\<close>

section \<open>Sleeping\<close>

text \<open>A time is seconds and nanoseconds. \<open>ns k t\<close> is the \<open>k\<close>-th call: its result and the rest.\<close>

partial_function (option) usleep_loop :: "(nat \<Rightarrow> nat \<times> nat \<Rightarrow> int \<times> (nat \<times> nat)) \<Rightarrow> nat \<Rightarrow> nat \<times> nat \<Rightarrow> (int \<times> nat) option" where
  "usleep_loop ns k want =
     (let (rc, left) = ns k want in
      if rc \<noteq> 0
      then (if fst left = 0 \<and> snd left = 0 then Some (- 1, k + 1) else usleep_loop ns (k + 1) left)
      else Some (0, k + 1))"

definition usleep :: "(nat \<Rightarrow> nat \<times> nat \<Rightarrow> int \<times> (nat \<times> nat)) \<Rightarrow> u32 \<Rightarrow> (int \<times> nat) option" where
  "usleep ns usec = usleep_loop ns 0 (unat (usec div 1000000), unat (usec mod 1000000) * 1000)"

definition nanoseconds :: "nat \<times> nat \<Rightarrow> nat" where
  "nanoseconds t = fst t * 1000000000 + snd t"

lemma usleep_request:
  "nanoseconds (unat (usec div 1000000), unat ((usec :: u32) mod 1000000) * 1000) = unat usec * 1000"
proof -
  have "unat (usec div 1000000) * 1000000 + unat (usec mod 1000000) = unat usec"
    by (simp add: unat_div_distrib unat_mod_distrib)
  then show ?thesis by (simp add: nanoseconds_def)
qed

text \<open>
  A sleep returns: if an interrupted \<open>nanosleep\<close> reports less time than it was asked for, the
  resumed calls come to an end, and the sleep succeeds exactly when its last call was not
  interrupted; a microsecond count is turned into the same time without overflow.
\<close>

theorem usleep_returns:
  assumes "\<And>k want. fst (ns k want) \<noteq> 0 \<Longrightarrow> nanoseconds (snd (ns k want)) < nanoseconds want"
  shows "\<exists>r k want. usleep ns usec = Some (r, k + 1) \<and> (r = 0 \<or> r = - 1) \<and>
    (r = 0 \<longleftrightarrow> fst (ns k want) = 0) \<and> nanoseconds want \<le> unat usec * 1000 \<and> (k = 0 \<longrightarrow> nanoseconds want = unat usec * 1000)"
proof -
  have "\<exists>r k' want'. usleep_loop ns k want = Some (r, k' + 1) \<and> (r = 0 \<or> r = - 1) \<and>
      (r = 0 \<longleftrightarrow> fst (ns k' want') = 0) \<and> nanoseconds want' \<le> nanoseconds want \<and> k \<le> k' \<and>
      (k' = k \<longrightarrow> want' = want)" for k want
  proof (induction "nanoseconds want" arbitrary: k want rule: less_induct)
    case less
    obtain rc left where c: "ns k want = (rc, left)" by (cases "ns k want")
    consider "rc = 0" | "rc \<noteq> 0" "left = (0, 0)" | "rc \<noteq> 0" "left \<noteq> (0, 0)" by blast
    then show ?case
    proof cases
      case 1
      then have "usleep_loop ns k want = Some (0, k + 1)" using c by (subst usleep_loop.simps) simp
      then show ?thesis using c 1 by (intro exI [of _ 0] exI [of _ k] exI [of _ want]) simp
    next
      case 2
      then have "usleep_loop ns k want = Some (- 1, k + 1)" using c by (subst usleep_loop.simps) simp
      then show ?thesis using c 2 by (intro exI [of _ "- 1"] exI [of _ k] exI [of _ want]) simp
    next
      case 3
      have lt: "nanoseconds left < nanoseconds want" using assms [of k want] c 3(1) by simp
      have "usleep_loop ns k want = usleep_loop ns (k + 1) left"
        using c 3 by (subst usleep_loop.simps) (cases left, auto)
      then show ?thesis using less.hyps [OF lt, of "k + 1"] lt by (fastforce intro: less_imp_le order_trans)
    qed
  qed
  from this [of 0 "(unat (usec div 1000000), unat (usec mod 1000000) * 1000)"] show ?thesis
    unfolding usleep_def using usleep_request [of usec] by metis
qed

definition interrupted_once :: "nat \<Rightarrow> nat \<times> nat \<Rightarrow> int \<times> (nat \<times> nat)" where
  "interrupted_once k t = (if k = 0 \<and> t \<noteq> (0, 0) then (- 1, (fst t div 2, snd t div 2)) else (0, t))"

theorem usleep_returns_witness:
  "\<exists>r k. usleep interrupted_once 1000 = Some (r, k + 1) \<and> (r = 0 \<or> r = - 1)"
proof -
  have "nanoseconds (snd (interrupted_once k t)) < nanoseconds t" if "fst (interrupted_once k t) \<noteq> 0" for k t
    using that by (cases t) (auto simp: interrupted_once_def nanoseconds_def split: if_splits)
  from usleep_returns [of interrupted_once 1000, OF this] show ?thesis by blast
qed

section \<open>System answers\<close>

definition OOPS_PAGE_BYTES :: nat where
  "OOPS_PAGE_BYTES = 16384"

datatype sc_name = SC_PAGESIZE | SC_PHYS_PAGES | SC_NPROCESSORS_CONF | SC_NPROCESSORS_ONLN | SC_OTHER int

text \<open>
  \<open>memory\<close> is the kernel's memory-size call, \<open>None\<close> when it is not bound; \<open>affinity\<close> the number of
  processors in the mask, \<open>None\<close> when it cannot be read. The result is the value and whether a line
  was logged.
\<close>

definition sysconf :: "nat option \<Rightarrow> nat option \<Rightarrow> sc_name \<Rightarrow> int \<times> bool" where
  "sysconf memory affinity name =
     (case name of
        SC_PAGESIZE \<Rightarrow> (int OOPS_PAGE_BYTES, False)
      | SC_PHYS_PAGES \<Rightarrow>
          (case memory of None \<Rightarrow> (- 1, True) | Some bytes \<Rightarrow> (int (bytes div OOPS_PAGE_BYTES), False))
      | SC_NPROCESSORS_CONF \<Rightarrow> (16, False)
      | SC_NPROCESSORS_ONLN \<Rightarrow>
          (case affinity of
             Some count \<Rightarrow> if 0 < count then (int count, False) else (14, True)
           | None \<Rightarrow> (14, True))
      | SC_OTHER n \<Rightarrow> (- 1, True))"

lemma sysconf_threads_positive: "0 < fst (sysconf memory affinity SC_NPROCESSORS_ONLN)"
  by (simp add: sysconf_def split: option.split)

text \<open>\<open>clock\<close> is the second count, \<open>None\<close> when \<open>clock_gettime\<close> fails.\<close>

definition time_now :: "int option \<Rightarrow> int" where
  "time_now clock = (case clock of None \<Rightarrow> 0 | Some s \<Rightarrow> s)"

section \<open>Signal sets\<close>

text \<open>A set is its words, \<open>_SIG_WORDS\<close> of them; \<open>None\<close> is a null pointer.\<close>

definition sig_words :: nat where
  "sig_words = 4"

definition sigfillset :: "u32 list option \<Rightarrow> int \<times> u32 list option" where
  "sigfillset sset = (case sset of None \<Rightarrow> (- 1, None) | Some ws \<Rightarrow> (0, Some (map (\<lambda>_. 0xffffffff) [0..<sig_words])))"

definition sigdelset :: "u32 list option \<Rightarrow> int \<Rightarrow> int \<times> u32 list option" where
  "sigdelset sset signo =
     (case sset of
        None \<Rightarrow> (- 1, None)
      | Some ws \<Rightarrow>
          if signo \<le> 0 \<or> signo > int (sig_words * 32) then (- 1, Some ws)
          else let i = nat (signo - 1) div 32 in
               (0, Some (ws[i := ws ! i AND NOT (push_bit (nat (signo - 1) mod 32) 1)])))"

text \<open>Signal \<open>n\<close> is bit \<open>n - 1\<close> of the set.\<close>

definition sig_member :: "u32 list \<Rightarrow> int \<Rightarrow> bool" where
  "sig_member ws n \<longleftrightarrow> bit (ws ! (nat (n - 1) div 32)) (nat (n - 1) mod 32)"

lemma sigdelset_exact:
  assumes "length ws = sig_words" and "1 \<le> n" "n \<le> 128" and "1 \<le> m" "m \<le> 128"
    and "sigdelset (Some ws) n = (0, Some ws')"
  shows "sig_member ws' m \<longleftrightarrow> sig_member ws m \<and> m \<noteq> n"
proof -
  let ?i = "nat (n - 1)" and ?j = "nat (m - 1)"
  have i: "?i div 32 < length ws" using assms(1-3) by (simp add: sig_words_def less_mult_imp_div_less)
  have ws': "ws' = ws[?i div 32 := ws ! (?i div 32) AND NOT (push_bit (?i mod 32) 1)]"
    using assms(2,3,6) by (simp add: sigdelset_def sig_words_def Let_def)
  have eq: "m = n \<longleftrightarrow> ?i div 32 = ?j div 32 \<and> ?i mod 32 = ?j mod 32"
  proof -
    have "?i = ?j \<longleftrightarrow> ?i div 32 = ?j div 32 \<and> ?i mod 32 = ?j mod 32" by (metis div_mult_mod_eq)
    then show ?thesis using assms(2-5) by auto
  qed
  have "bit (NOT (push_bit (?i mod 32) 1) :: u32) (?j mod 32) \<longleftrightarrow> ?i mod 32 \<noteq> ?j mod 32"
  proof -
    have "?j mod 32 < 32" by simp
    then show ?thesis unfolding bit_not_iff bit_push_bit_iff bit_1_iff
      by (simp add: bit_exp_iff possible_bit_def) linarith
  qed
  then show ?thesis unfolding sig_member_def ws' using i eq
    by (cases "?i div 32 = ?j div 32") (simp_all add: bit_and_iff)
qed

section \<open>Numbers\<close>

text \<open>
  \<open>scan\<close> is the platform's \<open>sscanf(nptr, "%lf%n", ...)\<close>: the value and the characters consumed, or
  nothing. The value is what it returns and the end pointer an offset, null for a null string.
\<close>

definition strtod :: "(string \<Rightarrow> ('d \<times> nat) option) \<Rightarrow> 'd \<Rightarrow> string option \<Rightarrow> 'd \<times> nat option" where
  "strtod scanner zero nptr =
     (case nptr of
        None \<Rightarrow> (zero, None)
      | Some s \<Rightarrow> (case scanner s of None \<Rightarrow> (zero, Some 0) | Some (v, consumed) \<Rightarrow> (v, Some consumed)))"

definition atof :: "(string \<Rightarrow> ('d \<times> nat) option) \<Rightarrow> 'd \<Rightarrow> string option \<Rightarrow> 'd" where
  "atof scanner zero nptr = fst (strtod scanner zero nptr)"

text \<open>A float is its 32 bits.\<close>

definition isinff :: "u32 \<Rightarrow> bool" where
  "isinff f \<longleftrightarrow> f AND 0x7fffffff = 0x7f800000"

definition fpclassifyf :: "u32 \<Rightarrow> int" where
  "fpclassifyf f =
     (let exponent = drop_bit 23 f AND 0xff; mantissa = f AND 0x7fffff in
      if exponent = 0xff then (if mantissa \<noteq> 0 then 2 else 1)
      else if exponent = 0 then (if mantissa \<noteq> 0 then 8 else 16)
      else 4)"

section \<open>Constructors\<close>

text \<open>A constructor table is a list of function pointers, some null; the trace is what was called.\<close>

record startup =
  init_done :: bool
  init_trace :: "nat list"

definition call_table :: "nat option list \<Rightarrow> startup \<Rightarrow> startup" where
  "call_table fns s = fold (\<lambda>f s. case f of None \<Rightarrow> s | Some p \<Rightarrow> s\<lparr>init_trace := init_trace s @ [p]\<rparr>) fns s"

definition oops_mesa_run_init_array :: "nat option list \<Rightarrow> nat option list \<Rightarrow> startup \<Rightarrow> startup" where
  "oops_mesa_run_init_array preinit init s =
     (if init_done s then s else call_table init (call_table preinit (s\<lparr>init_done := True\<rparr>)))"

lemma call_table_trace:
  "call_table fns s = s\<lparr>init_trace := init_trace s @ List.map_filter (\<lambda>f. f) fns\<rparr>"
  unfolding call_table_def
  by (induction fns arbitrary: s) (auto simp: List.map_filter_def split: option.split)

text \<open>However often it is called, every constructor runs once, in order, those of \<open>.preinit_array\<close> first.\<close>

lemma init_array_once:
  assumes "\<not> init_done s" and "init_trace s = []" and "0 < n"
  shows "init_trace ((oops_mesa_run_init_array preinit init ^^ n) s) = List.map_filter (\<lambda>f. f) (preinit @ init)"
proof -
  let ?r = "oops_mesa_run_init_array preinit init"
  have first: "init_done (?r s)" "init_trace (?r s) = List.map_filter (\<lambda>f. f) (preinit @ init)"
    using assms(1,2) by (simp_all add: oops_mesa_run_init_array_def call_table_trace List.map_filter_def)
  have "(?r ^^ k) (?r s) = ?r s" for k
    using first(1) by (induction k) (simp_all add: oops_mesa_run_init_array_def [of _ _ "?r s"])
  moreover obtain k where "n = Suc k" using assms(3) by (cases n) auto
  ultimately show ?thesis using first(2) by (simp add: funpow_swap1)
qed

end
