(* ===== verification/Preamble.thy ===== *)
theory Preamble
  imports Stubs
begin

unbundle bit_operations_syntax

text \<open>
  \<open>src/tools/preamble-dump/preamble_dump.c\<close>: the tool that prints the command-stream preamble
  Mesa generates for this hardware, and the two streams it printed, tracked in
  \<open>preamble_gfx1013.h\<close>. The header macros of Mesa (\<open>sid.h\<close>), its register names and its stream
  generator are outside the repository: they are the fields of \<open>sid\<close> and \<open>generator\<close>.
  The stand-ins of \<open>stubs.c\<close>, which stop the tool where Mesa would leave the path it was built
  for, are here too.
\<close>

section \<open>The streams\<close>

record sid =
  PKT_COUNT_G :: "u32 \<Rightarrow> u32"
  PKT3_IT_OPCODE_G :: "u32 \<Rightarrow> u32"
  PKT3_SET_CONTEXT_REG :: u32
  PKT3_SET_SH_REG :: u32
  PKT3_SET_UCONFIG_REG :: u32
  PKT3_CONTEXT_CONTROL :: u32
  PKT3_CLEAR_STATE :: u32
  SI_CONTEXT_REG_OFFSET :: u32
  SI_SH_REG_OFFSET :: u32
  CIK_UCONFIG_REG_OFFSET :: u32

text \<open>The device the generator is told about; the fields it is not told are zero.\<close>

datatype gfx_level = GFX10 | GFX_OTHER nat

datatype chip_family = CHIP_GFX1013 | CHIP_OTHER nat

record radeon_info =
  gfx_level :: gfx_level
  family :: chip_family
  has_graphics :: bool
  has_clear_state :: bool
  address32_hi :: u32
  max_se :: u32
  max_render_backends :: u32
  enabled_rb_mask :: u32
  spi_cu_en :: u32
  pbb_max_alloc_count :: u32

definition describe :: radeon_info where
  "describe = \<lparr>gfx_level = GFX10, family = CHIP_GFX1013, has_graphics = True, has_clear_state = True,
     address32_hi = 2, max_se = 2, max_render_backends = 16, enabled_rb_mask = 0xffff,
     spi_cu_en = 0xffff, pbb_max_alloc_count = 128\<rparr>"

text \<open>
  The calls of Mesa that extend a stream, over streams of type \<open>'p\<close>: \<open>pkt3 op count\<close> is a packet
  header, \<open>prim_filter\<close> the value of the last register, both computed by macros.
\<close>

record 'p generator =
  ac_pm4_create :: "radeon_info \<Rightarrow> 'p"
  ac_pm4_cmd_add :: "u32 \<Rightarrow> 'p \<Rightarrow> 'p"
  ac_init_compute_preamble_state :: "'p \<Rightarrow> 'p"
  ac_init_graphics_preamble_state :: "'p \<Rightarrow> 'p"
  ac_pm4_set_prim_filter :: "'p \<Rightarrow> 'p"
  ac_pm4_finalize :: "'p \<Rightarrow> 'p"
  pkt3 :: "u32 \<Rightarrow> u32 \<Rightarrow> u32"
  load_enables :: u32
  shadow_enables :: u32

definition build :: "'p generator \<Rightarrow> sid \<Rightarrow> radeon_info \<Rightarrow> bool \<Rightarrow> 'p" where
  "build g d info clear_state =
     (let pm4 = ac_pm4_create g info;
          pm4 = ac_pm4_cmd_add g (pkt3 g (PKT3_CONTEXT_CONTROL d) 1) pm4;
          pm4 = ac_pm4_cmd_add g (load_enables g) pm4;
          pm4 = ac_pm4_cmd_add g (shadow_enables g) pm4;
          pm4 = (if clear_state
                 then ac_pm4_cmd_add g 0 (ac_pm4_cmd_add g (pkt3 g (PKT3_CLEAR_STATE d) 0) pm4)
                 else pm4);
          pm4 = ac_init_compute_preamble_state g pm4;
          pm4 = ac_init_graphics_preamble_state g pm4;
          pm4 = ac_pm4_set_prim_filter g pm4
      in ac_pm4_finalize g pm4)"

text \<open>The two streams as they were printed.\<close>

definition oops_mesa_preamble_a :: "u32 list" where
  "oops_mesa_preamble_a = [
     0xc0012800, 0x80000000, 0x80000000, 0xc0001200, 0x0, 0xc0017900, 0x7b, 0x20, 0xc0027900,
     0x380, 0x0, 0x0, 0xc0017600, 0x20d, 0x0, 0xc0027600, 0x216, 0xffffffff,
     0xffffffff, 0xc0027600, 0x219, 0x0, 0x0, 0xc0047600, 0x224, 0x0, 0x0,
     0x0, 0x0, 0xc0017600, 0x27d, 0x0, 0xc0017600, 0x7, 0x3fffff, 0xc0017600,
     0x30, 0x7, 0xc0047600, 0x32, 0x0, 0x0, 0x0, 0x0, 0xc0017600,
     0x41, 0x0, 0xc0017600, 0x70, 0x0, 0xc0047600, 0x72, 0x0, 0x0,
     0x0, 0x0, 0xc0017600, 0x1, 0x0, 0xc0017600, 0x101, 0x0, 0xc0047600,
     0xb2, 0x0, 0x0, 0x0, 0x0, 0xc0017600, 0xc9, 0x0, 0xc0017600,
     0x107, 0xffff003f, 0xc0047600, 0x132, 0x0, 0x0, 0x0, 0x0, 0xc0017600,
     0x149, 0x0, 0xc0016900, 0xe, 0x2, 0xc0036900, 0x1f, 0x150055, 0x0,
     0x0, 0xc0016900, 0x104, 0x550055, 0xc0016900, 0x20c, 0x1, 0xc0016900, 0x286,
     0x42800000, 0xc0016900, 0x2ab, 0x1, 0xc0016900, 0x2d4, 0xd8181e0c, 0xc0016900, 0x312,
     0x3ff007f, 0xc0016900, 0x314, 0x200, 0xc0016900, 0x316, 0xe, 0xc0027900, 0x249,
     0x0, 0x0, 0xc0027900, 0x259, 0xffffffff, 0x0, 0xc0017900, 0x25f, 0x0,
     0xc0017900, 0x262, 0x0, 0xc0027900, 0x280, 0x0, 0x0, 0xc0016900, 0x20b,
     0xc0000000]"

definition oops_mesa_preamble_b :: "u32 list" where
  "oops_mesa_preamble_b = [
     0xc0012800, 0x80000000, 0x80000000, 0xc0017900, 0x7b, 0x20, 0xc0027900, 0x380, 0x0,
     0x0, 0xc0017600, 0x20d, 0x0, 0xc0027600, 0x216, 0xffffffff, 0xffffffff, 0xc0027600,
     0x219, 0x0, 0x0, 0xc0047600, 0x224, 0x0, 0x0, 0x0, 0x0,
     0xc0017600, 0x27d, 0x0, 0xc0017600, 0x7, 0x3fffff, 0xc0017600, 0x30, 0x7,
     0xc0047600, 0x32, 0x0, 0x0, 0x0, 0x0, 0xc0017600, 0x41, 0x0,
     0xc0017600, 0x70, 0x0, 0xc0047600, 0x72, 0x0, 0x0, 0x0, 0x0,
     0xc0017600, 0x1, 0x0, 0xc0017600, 0x101, 0x0, 0xc0047600, 0xb2, 0x0,
     0x0, 0x0, 0x0, 0xc0017600, 0xc9, 0x0, 0xc0017600, 0x107, 0xffff003f,
     0xc0047600, 0x132, 0x0, 0x0, 0x0, 0x0, 0xc0017600, 0x149, 0x0,
     0xc0016900, 0xe, 0x2, 0xc0036900, 0x1f, 0x150055, 0x0, 0x0, 0xc0016900,
     0x104, 0x550055, 0xc0016900, 0x20c, 0x1, 0xc0016900, 0x286, 0x42800000, 0xc0016900,
     0x2ab, 0x1, 0xc0016900, 0x2d4, 0xd8181e0c, 0xc0016900, 0x312, 0x3ff007f, 0xc0016900,
     0x314, 0x200, 0xc0016900, 0x316, 0xe, 0xc0027900, 0x249, 0x0, 0x0,
     0xc0027900, 0x259, 0xffffffff, 0x0, 0xc0017900, 0x25f, 0x0, 0xc0017900, 0x262,
     0x0, 0xc0027900, 0x280, 0x0, 0x0, 0xc0016900, 0x20b, 0xc0000000]"

section \<open>The printed array\<close>

definition newline :: string where
  "newline = [CHR 0x0A]"

definition print_dword :: "u32 list \<Rightarrow> nat \<Rightarrow> string" where
  "print_dword pm4 i =
     (if i mod 6 = 0 then ''   '' else []) @ '' 0x'' @ hex_padded 8 (unat (pm4 ! i)) @ ''u,'' @
     (if i mod 6 = 5 \<or> i + 1 = length pm4 then newline else [])"

definition print_array :: "string \<Rightarrow> u32 list \<Rightarrow> string" where
  "print_array name pm4 =
     ''static const uint32_t '' @ name @ ''['' @ decimal (length pm4) @ ''] = {'' @ newline @
     concat (map (print_dword pm4) [0..<length pm4]) @ ''};'' @ newline @ newline"

text \<open>The two streams the tool builds, and the header file it prints them in; \<open>words\<close> reads a stream.\<close>

definition preamble_a :: "'p generator \<Rightarrow> sid \<Rightarrow> 'p" where
  "preamble_a g d = build g d describe True"

definition preamble_b :: "'p generator \<Rightarrow> sid \<Rightarrow> 'p" where
  "preamble_b g d = build g d (describe\<lparr>has_clear_state := False\<rparr>) False"

definition preamble_header :: string where
  "preamble_header =
     ''/* Generated by oops-mesa tools/preamble-dump from the pinned Mesa (see dependencies.mk).'' @ newline @
     '' * The command-stream preamble radeonsi emits for gfx_level GFX10, family GFX1013, with the'' @ newline @
     '' * device fields stated in preamble_dump.c. Variant A opens with CONTEXT_CONTROL and'' @ newline @
     '' * CLEAR_STATE; variant B is the same preamble for a device reported without CLEAR_STATE.'' @ newline @
     '' * Data, not code: regenerate, do not edit. */'' @ newline @
     ''#ifndef OOPS_MESA_PREAMBLE_GFX1013_H'' @ newline @ ''#define OOPS_MESA_PREAMBLE_GFX1013_H'' @ newline @
     ''#include <stdint.h>'' @ newline @ newline"

definition preamble_output :: "'p generator \<Rightarrow> sid \<Rightarrow> ('p \<Rightarrow> u32 list) \<Rightarrow> string" where
  "preamble_output g d words =
     preamble_header @ print_array ''oops_mesa_preamble_a'' (words (preamble_a g d)) @
     print_array ''oops_mesa_preamble_b'' (words (preamble_b g d)) @ ''#endif'' @ newline"

section \<open>Stand-ins\<close>

text \<open>The tool's standard error; the stand-ins never return.\<close>

definition unreachable_here :: "string \<Rightarrow> string \<Rightarrow> unit ending \<times> string" where
  "unreachable_here fn err =
     (Aborts, err @ ''preamble-dump: '' @ fn @ '' was called; this path is outside the GFX10 preamble'' @ newline)"

definition ac_get_harvested_configs :: "string \<Rightarrow> unit ending \<times> string" where
  "ac_get_harvested_configs err = unreachable_here ''ac_get_harvested_configs'' err"

definition ac_gfx103_get_cu_mask_ps :: "string \<Rightarrow> unit ending \<times> string" where
  "ac_gfx103_get_cu_mask_ps err = unreachable_here ''ac_gfx103_get_cu_mask_ps'' err"

definition ac_dump_reg :: "string \<Rightarrow> unit ending \<times> string" where
  "ac_dump_reg err = unreachable_here ''ac_dump_reg'' err"

section \<open>The decoded stream\<close>

datatype reg_kind = ContextReg | ShReg | UconfigReg

text \<open>A line of the decoded stream, with the position of its packet; a name belongs to its offset.\<close>

datatype decoded =
    RegisterWrite nat reg_kind u32 string u32
  | ContextControl nat u32 u32
  | ClearState nat
  | OtherOpcode nat u32 nat
  | NotType3 nat u32

definition reg_space :: "sid \<Rightarrow> u32 \<Rightarrow> (reg_kind \<times> u32) option" where
  "reg_space d op =
     (if op = PKT3_SET_CONTEXT_REG d then Some (ContextReg, SI_CONTEXT_REG_OFFSET d)
      else if op = PKT3_SET_SH_REG d then Some (ShReg, SI_SH_REG_OFFSET d)
      else if op = PKT3_SET_UCONFIG_REG d then Some (UconfigReg, CIK_UCONFIG_REG_OFFSET d)
      else None)"

text \<open>
  One packet at \<open>i\<close> with \<open>count\<close> dwords after its header. The stream is read as the code reads it,
  without a check against its length, so it is a function of the index.
\<close>

definition decode_packet :: "sid \<Rightarrow> (u32 \<Rightarrow> string) \<Rightarrow> (nat \<Rightarrow> u32) \<Rightarrow> nat \<Rightarrow> nat \<Rightarrow> decoded list" where
  "decode_packet d name pm4 i count =
     (let op = PKT3_IT_OPCODE_G d (pm4 i) in
      case reg_space d op of
        Some (kind, base) \<Rightarrow>
          map (\<lambda>r. let offset = base + (pm4 (i + 1) + of_nat r) * 4 in
                   RegisterWrite i kind offset (name offset) (pm4 (i + 2 + r))) [0..<count - 1]
      | None \<Rightarrow>
          if op = PKT3_CONTEXT_CONTROL d then [ContextControl i (pm4 (i + 1)) (pm4 (i + 2))]
          else if op = PKT3_CLEAR_STATE d then [ClearState i]
          else [OtherOpcode i op count])"

text \<open>The walk: the lines, and how many packets there were.\<close>

function decode_from :: "sid \<Rightarrow> (u32 \<Rightarrow> string) \<Rightarrow> (nat \<Rightarrow> u32) \<Rightarrow> nat \<Rightarrow> nat \<Rightarrow> decoded list \<times> nat" where
  "decode_from d name pm4 ndw i =
     (if ndw \<le> i then ([], 0)
      else if drop_bit 30 (pm4 i) \<noteq> 3 then ([NotType3 i (pm4 i)], 0)
      else let count = unat (PKT_COUNT_G d (pm4 i)) + 1;
               (rest, packets) = decode_from d name pm4 ndw (i + (1 + count)) in
           (decode_packet d name pm4 i count @ rest, packets + 1))"
  by pat_completeness auto
termination by (relation "measure (\<lambda>(d, name, pm4, ndw, i). ndw - i)") auto

declare decode_from.simps [simp del]

fun is_write :: "decoded \<Rightarrow> bool" where
  "is_write (RegisterWrite _ _ _ _ _) = True"
| "is_write _ = False"

text \<open>The lines, and the two numbers of the last one: packets and register writes.\<close>

definition print_decoded :: "sid \<Rightarrow> (u32 \<Rightarrow> string) \<Rightarrow> (nat \<Rightarrow> u32) \<Rightarrow> nat \<Rightarrow> decoded list \<times> nat \<times> nat" where
  "print_decoded d name pm4 ndw =
     (let (lines, packets) = decode_from d name pm4 ndw 0 in
      (lines, packets, length (filter is_write lines)))"

section \<open>What the decoder reports\<close>

text \<open>
  The packets of a preamble and the stream they are written as: \<open>p3 op c\<close> is a header with \<open>c + 1\<close>
  dwords after it.
\<close>

datatype packet =
    SetRegs reg_kind u32 "u32 list"
  | Control u32 u32
  | Clear u32

fun set_op :: "sid \<Rightarrow> reg_kind \<Rightarrow> u32" where
  "set_op d ContextReg = PKT3_SET_CONTEXT_REG d"
| "set_op d ShReg = PKT3_SET_SH_REG d"
| "set_op d UconfigReg = PKT3_SET_UCONFIG_REG d"

fun reg_base :: "sid \<Rightarrow> reg_kind \<Rightarrow> u32" where
  "reg_base d ContextReg = SI_CONTEXT_REG_OFFSET d"
| "reg_base d ShReg = SI_SH_REG_OFFSET d"
| "reg_base d UconfigReg = CIK_UCONFIG_REG_OFFSET d"

fun encode :: "sid \<Rightarrow> (u32 \<Rightarrow> u32 \<Rightarrow> u32) \<Rightarrow> packet \<Rightarrow> u32 list" where
  "encode d p3 (SetRegs k first vs) = p3 (set_op d k) (of_nat (length vs)) # first # vs"
| "encode d p3 (Control x y) = [p3 (PKT3_CONTEXT_CONTROL d) 1, x, y]"
| "encode d p3 (Clear x) = [p3 (PKT3_CLEAR_STATE d) 0, x]"

fun packet_ok :: "packet \<Rightarrow> bool" where
  "packet_ok (SetRegs _ _ vs) \<longleftrightarrow> length vs < 2 ^ 14"
| "packet_ok _ \<longleftrightarrow> True"

fun writes :: "packet \<Rightarrow> nat" where
  "writes (SetRegs _ _ vs) = length vs"
| "writes _ = 0"

fun report :: "sid \<Rightarrow> (u32 \<Rightarrow> string) \<Rightarrow> nat \<Rightarrow> packet \<Rightarrow> decoded list" where
  "report d name i (SetRegs k first vs) =
     map (\<lambda>r. let a = reg_base d k + (first + of_nat r) * 4 in RegisterWrite i k a (name a) (vs ! r)) [0..<length vs]"
| "report d name i (Control x y) = [ContextControl i x y]"
| "report d name i (Clear x) = [ClearState i]"

fun report_all :: "sid \<Rightarrow> (u32 \<Rightarrow> string) \<Rightarrow> nat \<Rightarrow> (packet \<times> nat) list \<Rightarrow> decoded list" where
  "report_all d name i [] = []"
| "report_all d name i ((p, n) # ps) = report d name i p @ report_all d name (i + n) ps"

definition stream :: "sid \<Rightarrow> (u32 \<Rightarrow> u32 \<Rightarrow> u32) \<Rightarrow> packet list \<Rightarrow> u32 list" where
  "stream d p3 ps = concat (map (encode d p3) ps)"

definition sized :: "sid \<Rightarrow> (u32 \<Rightarrow> u32 \<Rightarrow> u32) \<Rightarrow> packet list \<Rightarrow> (packet \<times> nat) list" where
  "sized d p3 ps = map (\<lambda>p. (p, length (encode d p3 p))) ps"

definition packet_ops :: "sid \<Rightarrow> u32 list" where
  "packet_ops d = [PKT3_SET_CONTEXT_REG d, PKT3_SET_SH_REG d, PKT3_SET_UCONFIG_REG d, PKT3_CONTEXT_CONTROL d, PKT3_CLEAR_STATE d]"

text \<open>The header macros: a type-3 header gives back the opcode and the count it was made of.\<close>

definition sid_ok :: "sid \<Rightarrow> (u32 \<Rightarrow> u32 \<Rightarrow> u32) \<Rightarrow> bool" where
  "sid_ok d p3 \<longleftrightarrow> distinct (packet_ops d) \<and>
     (\<forall>op\<in>set (packet_ops d). \<forall>c. unat c < 2 ^ 14 \<longrightarrow>
        drop_bit 30 (p3 op c) = 3 \<and> PKT3_IT_OPCODE_G d (p3 op c) = op \<and> PKT_COUNT_G d (p3 op c) = c)"

lemma header_fields:
  assumes "sid_ok d p3" and "op \<in> set (packet_ops d)" and "unat c < 2 ^ 14"
  shows "drop_bit 30 (p3 op c) = 3" "PKT3_IT_OPCODE_G d (p3 op c) = op" "PKT_COUNT_G d (p3 op c) = c"
  using assms by (simp_all add: sid_ok_def)

lemma reg_space_ops:
  assumes "sid_ok d p3"
  shows "reg_space d (set_op d k) = Some (k, reg_base d k)"
    "reg_space d (PKT3_CONTEXT_CONTROL d) = None" "reg_space d (PKT3_CLEAR_STATE d) = None"
    "PKT3_CLEAR_STATE d \<noteq> PKT3_CONTEXT_CONTROL d" "set_op d k \<in> set (packet_ops d)"
  using assms by (cases k; auto simp: sid_ok_def reg_space_def packet_ops_def)+

lemma decode_packet_encode:
  assumes ok: "sid_ok d p3" and p: "packet_ok p"
    and m: "\<And>j. j < length (encode d p3 p) \<Longrightarrow> pm4 (i + j) = encode d p3 p ! j"
  shows "drop_bit 30 (pm4 i) = 3" "unat (PKT_COUNT_G d (pm4 i)) + 2 = length (encode d p3 p)"
    "decode_packet d name pm4 i (unat (PKT_COUNT_G d (pm4 i)) + 1) = report d name i p"
proof -
  note ops = reg_space_ops [OF ok]
  have mem: "PKT3_CONTEXT_CONTROL d \<in> set (packet_ops d)" "PKT3_CLEAR_STATE d \<in> set (packet_ops d)"
    by (simp_all add: packet_ops_def)
  have "drop_bit 30 (pm4 i) = 3 \<and> unat (PKT_COUNT_G d (pm4 i)) + 2 = length (encode d p3 p) \<and>
      decode_packet d name pm4 i (unat (PKT_COUNT_G d (pm4 i)) + 1) = report d name i p"
  proof (cases p)
    case (SetRegs k first vs)
    have len: "unat (of_nat (length vs) :: u32) = length vs" using p SetRegs by (intro unat_of_nat_small) simp
    then have "unat (of_nat (length vs) :: u32) < 2 ^ 14" using p SetRegs by simp
    note h = header_fields [OF ok ops(5) this]
    have "pm4 i = p3 (set_op d k) (of_nat (length vs))" "pm4 (i + 1) = first"
      "\<And>r. r < length vs \<Longrightarrow> pm4 (i + 2 + r) = vs ! r"
      using m [of 0] m [of 1] m [of "2 + r" for r] SetRegs by (simp_all add: add.assoc)
    then show ?thesis using h len ops(1) [of k] SetRegs by (simp add: decode_packet_def)
  next
    case (Control x y)
    note h = header_fields [OF ok mem(1), of 1]
    have "pm4 i = p3 (PKT3_CONTEXT_CONTROL d) 1" "pm4 (i + 1) = x" "pm4 (i + 2) = y"
      using m [of 0] m [of 1] m [of 2] Control by simp_all
    then show ?thesis using h ops(2) Control by (simp add: decode_packet_def)
  next
    case (Clear x)
    note h = header_fields [OF ok mem(2), of 0]
    have "pm4 i = p3 (PKT3_CLEAR_STATE d) 0" using m [of 0] Clear by simp
    then show ?thesis using h ops(3,4) Clear by (simp add: decode_packet_def)
  qed
  then show "drop_bit 30 (pm4 i) = 3" "unat (PKT_COUNT_G d (pm4 i)) + 2 = length (encode d p3 p)"
    "decode_packet d name pm4 i (unat (PKT_COUNT_G d (pm4 i)) + 1) = report d name i p" by simp_all
qed

lemma decode_stream:
  assumes ok: "sid_ok d p3" and "\<forall>p\<in>set ps. packet_ok p"
    and "\<And>j. j < length (stream d p3 ps) \<Longrightarrow> pm4 (i + j) = stream d p3 ps ! j"
  shows "decode_from d name pm4 (i + length (stream d p3 ps)) i = (report_all d name i (sized d p3 ps), length ps)"
  using assms(2-)
proof (induction ps arbitrary: i)
  case Nil
  then show ?case by (simp add: stream_def sized_def decode_from.simps)
next
  case (Cons p ps)
  let ?e = "encode d p3 p" and ?s = "stream d p3 ps"
  have s: "stream d p3 (p # ps) = ?e @ ?s" by (simp add: stream_def)
  have "pm4 (i + j) = ?e ! j" if "j < length ?e" for j using Cons.prems(2) [of j] that s by (simp add: nth_append)
  note p = decode_packet_encode [OF ok _ this]
  have "pm4 (i + length ?e + j) = ?s ! j" if "j < length ?s" for j
    using Cons.prems(2) [of "length ?e + j"] that s by (simp add: nth_append add.assoc)
  then have r: "decode_from d name pm4 (i + length ?e + length ?s) (i + length ?e) =
      (report_all d name (i + length ?e) (sized d p3 ps), length ps)"
    using Cons.prems(1) by (intro Cons.IH) simp_all
  have pos: "0 < length ?e" by (cases p) simp_all
  have skip: "Suc (Suc (i + unat (PKT_COUNT_G d (pm4 i)))) = i + length ?e" using p(2) Cons.prems(1) by simp
  then show ?case
    using p Cons.prems(1) r pos unfolding s length_append
    by (subst decode_from.simps) (simp add: sized_def Let_def add.assoc skip)
qed

lemma report_writes: "length (filter is_write (report d name i p)) = writes p"
proof (cases p)
  case (SetRegs k first vs)
  have "filter is_write (report d name i p) = report d name i p"
    unfolding SetRegs by (simp add: filter_id_conv Let_def)
  then show ?thesis using SetRegs by simp
qed simp_all

lemma report_all_writes: "length (filter is_write (report_all d name i (sized d p3 ps))) = sum_list (map writes ps)"
  by (induction ps arbitrary: i) (simp_all add: sized_def report_writes)

text \<open>
  C38. The decoder inverts the stream it prints: for packets of the three kinds written one after
  the other, whatever follows them, it names each register at its address with the value written
  to it, in order, never stops early, and counts the packets and the register writes.
\<close>

theorem preamble_decoded:
  assumes "sid_ok d p3" and "\<forall>p\<in>set ps. packet_ok p"
    and "\<And>j. j < length (stream d p3 ps) \<Longrightarrow> pm4 j = stream d p3 ps ! j"
  shows "print_decoded d name pm4 (length (stream d p3 ps)) =
    (report_all d name 0 (sized d p3 ps), length ps, sum_list (map writes ps))"
  using decode_stream [OF assms(1,2), of pm4 0] assms(3) report_all_writes [of d name 0 p3 ps]
  by (simp add: print_decoded_def)

text \<open>The macros of \<open>sid.h\<close>, and the packets of the printed streams.\<close>

definition mesa_sid :: sid where
  "mesa_sid = \<lparr>PKT_COUNT_G = (\<lambda>h. drop_bit 16 h AND 0x3fff), PKT3_IT_OPCODE_G = (\<lambda>h. drop_bit 8 h AND 0xff),
     PKT3_SET_CONTEXT_REG = 0x69, PKT3_SET_SH_REG = 0x76, PKT3_SET_UCONFIG_REG = 0x79,
     PKT3_CONTEXT_CONTROL = 0x28, PKT3_CLEAR_STATE = 0x12,
     SI_CONTEXT_REG_OFFSET = 0x28000, SI_SH_REG_OFFSET = 0xB000, CIK_UCONFIG_REG_OFFSET = 0x30000\<rparr>"

definition mesa_pkt3 :: "u32 \<Rightarrow> u32 \<Rightarrow> u32" where
  "mesa_pkt3 op c = 0xC0000000 + push_bit 16 c + push_bit 8 op"

definition preamble_registers :: "packet list" where
  "preamble_registers =
    [SetRegs UconfigReg 0x7b [0x20], SetRegs UconfigReg 0x380 [0x0, 0x0],
     SetRegs ShReg 0x20d [0x0], SetRegs ShReg 0x216 [0xffffffff, 0xffffffff],
     SetRegs ShReg 0x219 [0x0, 0x0], SetRegs ShReg 0x224 [0x0, 0x0, 0x0, 0x0],
     SetRegs ShReg 0x27d [0x0], SetRegs ShReg 0x7 [0x3fffff], SetRegs ShReg 0x30 [0x7],
     SetRegs ShReg 0x32 [0x0, 0x0, 0x0, 0x0], SetRegs ShReg 0x41 [0x0],
     SetRegs ShReg 0x70 [0x0], SetRegs ShReg 0x72 [0x0, 0x0, 0x0, 0x0], SetRegs ShReg 0x1 [0x0],
     SetRegs ShReg 0x101 [0x0], SetRegs ShReg 0xb2 [0x0, 0x0, 0x0, 0x0],
     SetRegs ShReg 0xc9 [0x0], SetRegs ShReg 0x107 [0xffff003f],
     SetRegs ShReg 0x132 [0x0, 0x0, 0x0, 0x0], SetRegs ShReg 0x149 [0x0],
     SetRegs ContextReg 0xe [0x2], SetRegs ContextReg 0x1f [0x150055, 0x0, 0x0],
     SetRegs ContextReg 0x104 [0x550055], SetRegs ContextReg 0x20c [0x1],
     SetRegs ContextReg 0x286 [0x42800000], SetRegs ContextReg 0x2ab [0x1],
     SetRegs ContextReg 0x2d4 [0xd8181e0c], SetRegs ContextReg 0x312 [0x3ff007f],
     SetRegs ContextReg 0x314 [0x200], SetRegs ContextReg 0x316 [0xe],
     SetRegs UconfigReg 0x249 [0x0, 0x0], SetRegs UconfigReg 0x259 [0xffffffff, 0x0],
     SetRegs UconfigReg 0x25f [0x0], SetRegs UconfigReg 0x262 [0x0],
     SetRegs UconfigReg 0x280 [0x0, 0x0], SetRegs ContextReg 0x20b [0xc0000000]]"

definition preamble_packets :: "bool \<Rightarrow> packet list" where
  "preamble_packets clear_state =
     Control 0x80000000 0x80000000 # (if clear_state then [Clear 0] else []) @ preamble_registers"

text \<open>
  The second stream is the first without the \<open>CLEAR_STATE\<close> packet: both set the same registers to
  the same values in the same order.
\<close>

lemma preamble_streams:
  "oops_mesa_preamble_a = stream mesa_sid mesa_pkt3 (preamble_packets True)"
  "oops_mesa_preamble_b = stream mesa_sid mesa_pkt3 (preamble_packets False)"
  unfolding stream_def preamble_packets_def preamble_registers_def oops_mesa_preamble_a_def oops_mesa_preamble_b_def
    mesa_sid_def mesa_pkt3_def
  by simp_all

text \<open>
  And this is no accident of the data: for any generator whose calls append dwords that do not
  depend on the clear-state field, the streams differ by that packet alone.
\<close>

definition appends :: "('p \<Rightarrow> u32 list) \<Rightarrow> ('p \<Rightarrow> 'p) \<Rightarrow> u32 list \<Rightarrow> bool" where
  "appends words f ws \<longleftrightarrow> (\<forall>p. words (f p) = words p @ ws)"

lemma preamble_variants:
  assumes "\<And>info. words (ac_pm4_create g info) = []" and "\<And>d. appends words (ac_pm4_cmd_add g d) [d]"
    and "appends words (ac_init_compute_preamble_state g) cs" and "appends words (ac_init_graphics_preamble_state g) gs"
    and "appends words (ac_pm4_set_prim_filter g) fs" and "appends words (ac_pm4_finalize g) []"
  shows "words (preamble_a g d) =
    take 3 (words (preamble_b g d)) @ [pkt3 g (PKT3_CLEAR_STATE d) 0, 0] @ drop 3 (words (preamble_b g d))"
  using assms unfolding appends_def by (simp add: preamble_a_def preamble_b_def build_def Let_def)

lemma mesa_header:
  assumes "unat c < 2 ^ 14" and "unat op < 2 ^ 8"
  shows "drop_bit 30 (mesa_pkt3 op c) = 3" "drop_bit 8 (mesa_pkt3 op c) AND 0xff = op"
    "drop_bit 16 (mesa_pkt3 op c) AND 0x3fff = c"
proof -
  have u: "unat (mesa_pkt3 op c) = 0xC0000000 + unat c * 2 ^ 16 + unat op * 2 ^ 8"
    using assms unfolding mesa_pkt3_def
    by (simp add: unat_word_ariths push_bit_eq_mult)
  have a1: "(12582912 + 256 * a + b) mod 256 = b" if "b < 256" for a b :: nat
    using that mod_mult_self3 [of "49152 + a" 256 b] by (simp add: mult.commute)
  have a2: "(3221225472 + a * 65536 + b * 256) div 65536 mod 16384 = a" if "a < 16384" "b < 256" for a b :: nat
  proof -
    have "(3221225472 + a * 65536 + b * 256) div 65536 = 49152 + a"
      by (rule div_nat_eqI) (use that(2) in simp_all)
    moreover have "(49152 + a) mod 16384 = a"
      using that(1) mod_mult_self3 [of 3 16384 a] by simp
    ultimately show ?thesis by simp
  qed
  have m: "(0xff :: u32) = mask 8" "(0x3fff :: u32) = mask 14" by (simp_all add: mask_eq_exp_minus_1)
  show "drop_bit 30 (mesa_pkt3 op c) = 3" "drop_bit 8 (mesa_pkt3 op c) AND 0xff = op"
    "drop_bit 16 (mesa_pkt3 op c) AND 0x3fff = c"
    unfolding m take_bit_eq_mask [symmetric] word_unat_eq_iff
    using assms by (simp_all add: drop_bit_eq_div take_bit_eq_mod unat_div_distrib unat_mod_distrib u a1 a2)
qed

lemma mesa_sid_ok: "sid_ok mesa_sid mesa_pkt3"
  by (auto simp: sid_ok_def packet_ops_def mesa_sid_def mesa_header)

theorem preamble_decoded_witness:
  "snd (print_decoded mesa_sid (\<lambda>_. []) (\<lambda>i. oops_mesa_preamble_a ! i) 136) = (38, 59)"
proof -
  have "length (stream mesa_sid mesa_pkt3 (preamble_packets True)) = 136"
    unfolding preamble_streams(1) [symmetric] by (simp add: oops_mesa_preamble_a_def)
  moreover have "\<forall>p\<in>set (preamble_packets True). packet_ok p"
    by (simp add: preamble_packets_def preamble_registers_def)
  moreover have "length (preamble_packets True) = 38" "sum_list (map writes (preamble_packets True)) = 59"
    by (simp_all add: preamble_packets_def preamble_registers_def)
  ultimately show ?thesis
    using preamble_decoded [OF mesa_sid_ok, of "preamble_packets True" "\<lambda>i. oops_mesa_preamble_a ! i"]
    by (simp add: preamble_streams(1))
qed

end
