(* ===== verification/Diagnostics.thy ===== *)
theory Diagnostics
  imports Stubs Submit
begin

unbundle bit_operations_syntax

text \<open>
  The log lines that keep state of their own: those of the device queries and of the ioctls in
  \<open>src/src/winsys/drm_device.c\<close>, with what they filter out, those of a
  submission that is slow or never retires, in \<open>submit.c\<close> and \<open>log.c\<close>, and the lines of \<open>src/src/platform/dri_loader.c\<close>, of which the
  timing of a present is printed for the first presents and then for one in sixty. The two entry
  points of \<open>src/src/platform/gfx.c\<close> that only answer are here as well.
\<close>

section \<open>Queries asked\<close>

definition query_line :: "u32 \<Rightarrow> string" where
  "query_line q = ''AMDGPU_INFO query '' @ decimal (unat q) @ '' (0x'' @ hex (unat q) @ '') asked''"

text \<open>\<open>asked\<close> is the static \<open>seen\<close>, with a bit for each of the queries below 64.\<close>

definition trace_query :: "u32 \<Rightarrow> u64 \<times> outputs \<Rightarrow> u64 \<times> outputs" where
  "trace_query q = (\<lambda>(asked, s).
     if q < 64 \<and> asked AND push_bit (unat q) 1 \<noteq> 0 then (asked, s)
     else (if q < 64 then asked OR push_bit (unat q) 1 else asked, oops_winsys_log (query_line q) s))"

text \<open>
  A query: \<open>info_query\<close> is its answer with the lines it logs itself. A failure is logged every time.
\<close>

definition info_failed_line :: "u32 \<Rightarrow> int \<Rightarrow> string" where
  "info_failed_line q r =
     ''AMDGPU_INFO query '' @ decimal (unat q) @ '' (0x'' @ hex (unat q) @ '') answered '' @ signed_decimal r"

definition info_lines ::
    "(outputs \<Rightarrow> int \<times> outputs) \<Rightarrow> u32 \<Rightarrow> u64 \<times> outputs \<Rightarrow> int \<times> (u64 \<times> outputs)" where
  "info_lines info_query q = (\<lambda>(asked, s).
     let (asked, s) = trace_query q (asked, s); (r, s) = info_query s in
     (r, (asked, if r \<noteq> 0 then oops_winsys_log (info_failed_line q r) s else s)))"

section \<open>Ioctls\<close>

text \<open>The statics of \<open>oops_winsys_ioctl\<close>, and its lines; \<open>EBADF\<close> is 9.\<close>

record ioctl_notes =
  s_seq :: u32
  s_complained :: int
  s_noted :: int

definition ioctl_notes_init :: ioctl_notes where
  "ioctl_notes_init = \<lparr>s_seq = 0, s_complained = - 1, s_noted = - 1\<rparr>"

definition not_open_line :: "int \<Rightarrow> int \<Rightarrow> string" where
  "not_open_line fd winsys_fd =
     ''ioctl on fd '' @ signed_decimal fd @ '', which is not open and is not the winsys device '' @
     ''fd '' @ signed_decimal winsys_fd @ ''; refusing''"

definition duplicate_line :: "int \<Rightarrow> int \<Rightarrow> string" where
  "duplicate_line fd winsys_fd =
     ''ioctl on fd '' @ signed_decimal fd @ '', an open duplicate of the winsys device fd '' @
     signed_decimal winsys_fd @ ''; serving it (the frontend is entitled to dup the device)''"

definition answered_line :: "u32 \<Rightarrow> u64 \<Rightarrow> int \<Rightarrow> string" where
  "answered_line n request r =
     ''ioctl #'' @ decimal (unat n) @ '' 0x'' @ hex (unat request) @ '' answered '' @ signed_decimal r"

text \<open>
  The lines around a dispatch: \<open>ioctl_dispatch\<close> is the answer of the request with the lines logged
  on the way, \<open>is_open\<close> what \<open>fcntl\<close> says of a descriptor.
\<close>

definition ioctl_lines ::
    "log_level \<Rightarrow> (int \<Rightarrow> bool) \<Rightarrow> int \<Rightarrow> (outputs \<Rightarrow> int \<times> outputs) \<Rightarrow> int \<Rightarrow> u64 \<Rightarrow>
     ioctl_notes \<times> outputs \<Rightarrow> int \<times> (ioctl_notes \<times> outputs)" where
  "ioctl_lines level is_open winsys_fd ioctl_dispatch fd request = (\<lambda>(k, s).
     let n = s_seq k + 1; k = k\<lparr>s_seq := n\<rparr> in
     if fd \<noteq> winsys_fd \<and> \<not> is_open fd then
       (- 9, if fd \<noteq> s_complained k
             then (k\<lparr>s_complained := fd\<rparr>, oops_winsys_log (not_open_line fd winsys_fd) s)
             else (k, s))
     else
       let (k, s) = (if fd \<noteq> winsys_fd \<and> fd \<noteq> s_noted k
                     then (k\<lparr>s_noted := fd\<rparr>, oops_winsys_log (duplicate_line fd winsys_fd) s)
                     else (k, s));
           (r, s) = ioctl_dispatch s
       in (r, (k, oops_winsys_log_debug level (answered_line n request r) s)))"

section \<open>A submission that does not retire\<close>

definition slow_line :: "u64 \<Rightarrow> u64 \<Rightarrow> string" where
  "slow_line sequence waited_us =
     ''submission '' @ decimal (unat sequence) @ '' took '' @ decimal (unat waited_us) @
     '' us to retire, the slowest yet''"

definition not_retired_line :: "u64 \<Rightarrow> u64 \<Rightarrow> u32 \<Rightarrow> string" where
  "not_retired_line sequence waited_us word =
     ''submission '' @ decimal (unat sequence) @ '' did not retire in '' @ decimal (unat waited_us) @
     '' us; fence still 0x'' @ hex_padded 8 (unat word)"

text \<open>A mark, with the value found at its address now where that is mapped.\<close>

definition mark_line :: "oops_mark \<Rightarrow> u32 option \<Rightarrow> string" where
  "mark_line m now =
     ''mark '' @ [mk_kind m] @ '' ib'' @ decimal (unat (mk_ib m)) @ ''+'' @ hex_padded 4 (unat (mk_at m)) @
     '' va 0x'' @ hex (unat (mk_va m)) @ '': '' @
     (case now of
        None \<Rightarrow> ''not CPU-mapped''
      | Some v \<Rightarrow> ''0x'' @ hex_padded 8 (unat (mk_before m)) @ '' -> 0x'' @ hex_padded 8 (unat v) @
          '' (ref 0x'' @ hex_padded 8 (unat (mk_ref m)) @ '' mask 0x'' @ hex_padded 8 (unat (mk_mask m)) @ '')'')"

definition report_lines :: "platform \<Rightarrow> winsys \<Rightarrow> outputs \<Rightarrow> outputs" where
  "report_lines env w s =
     fold (\<lambda>(m, now). oops_winsys_log (mark_line m now)) (oops_winsys_report_marks env w) s"

text \<open>What the wait of a submission says: \<open>w\<close> is the state it left, \<open>slowest_us\<close> the longest one so far.\<close>

definition retire_lines :: "platform \<Rightarrow> bool \<Rightarrow> u64 \<Rightarrow> u64 \<Rightarrow> winsys \<Rightarrow> outputs \<Rightarrow> outputs" where
  "retire_lines env fired waited_us slowest_us w s =
     (let s = (if fired \<and> OOPS_WINSYS_SLOW_US < waited_us \<and> slowest_us < waited_us
               then oops_winsys_log (slow_line (w_sequence w + 1) waited_us) s else s)
      in if \<not> fired
         then report_lines env w (oops_winsys_log
                (not_retired_line (w_sequence w + 1) waited_us (pf_load env (w_trace w) (w_fence w))) s)
         else s)"

section \<open>Lines of the loader\<close>

text \<open>The tag a line is logged under is left out.\<close>

definition say :: "string \<Rightarrow> outputs \<Rightarrow> outputs" where
  "say msg s = oops_klog msg s"

definition oops_flush_front_buffer :: "outputs \<Rightarrow> outputs" where
  "oops_flush_front_buffer s = say ''the frontend tried to flush a front buffer, which this loader does not provide'' s"

definition config_count_line :: "u32 \<Rightarrow> bool \<Rightarrow> u32 \<Rightarrow> string" where
  "config_count_line offered found depth =
     decimal (unat offered) @ '' configs offered; '' @
     (if found then ''one is 8888 double-buffered'' else ''none are 8888 double-buffered'') @
     '', depth '' @ decimal (unat depth)"

definition say_config_count :: "u32 \<Rightarrow> bool \<Rightarrow> u32 \<Rightarrow> outputs \<Rightarrow> outputs" where
  "say_config_count offered found depth s = say (take 95 (config_count_line offered found depth)) s"

definition present_line :: "u64 \<Rightarrow> u64 \<Rightarrow> u64 \<Rightarrow> u64 \<Rightarrow> u64 \<Rightarrow> string" where
  "present_line t_start t_flush t_read t_mirror t_done =
     (let us = (\<lambda>t. decimal (unat (ucast t :: u32))) in
      ''present us: flush='' @ us (t_flush - t_start) @ '' read='' @ us (t_read - t_flush) @
      '' mirror='' @ us (t_mirror - t_read) @ '' disp='' @ us (t_done - t_mirror) @
      '' total='' @ us (t_done - t_start))"

text \<open>\<open>s_presents\<close> counts the presents; the time stamps are \<open>stamps\<close>.\<close>

definition say_present_cost ::
    "u64 \<times> u64 \<times> u64 \<times> u64 \<times> u64 \<Rightarrow> u32 \<times> outputs \<Rightarrow> u32 \<times> outputs" where
  "say_present_cost stamps = (\<lambda>(s_presents, s).
     let (t_start, t_flush, t_read, t_mirror, t_done) = stamps; presents = s_presents + 1 in
     if 10 < presents \<and> presents mod 60 \<noteq> 0 then (presents, s)
     else (presents, say (take 111 (present_line t_start t_flush t_read t_mirror t_done)) s))"

section \<open>Entry points that only answer\<close>

text \<open>\<open>lookup\<close> is Mesa's table of entry points, by name; 0 is null.\<close>

definition oops_gl_get_proc_address :: "(string \<Rightarrow> nat) \<Rightarrow> string option \<Rightarrow> nat" where
  "oops_gl_get_proc_address lookup name = (case name of None \<Rightarrow> 0 | Some n \<Rightarrow> lookup n)"

definition oops_gfx_backend_name :: string where
  "oops_gfx_backend_name = ''oops-mesa''"

section \<open>How often, and how long\<close>

lemma decimal_length: "n < 10 ^ k \<Longrightarrow> 0 < k \<Longrightarrow> length (decimal n) \<le> k"
proof (induction k arbitrary: n)
  case (Suc k)
  show ?case
  proof (cases "n < 10")
    case False
    then have "0 < k" using Suc.prems by (cases k) auto
    moreover have "n div 10 < 10 ^ k" using Suc.prems by (simp add: less_mult_imp_div_less mult.commute)
    ultimately show ?thesis using Suc.IH [of "n div 10"] False by (subst decimal.simps) simp
  qed (simp add: decimal.simps)
qed simp

lemma decimal_u32: "length (decimal (unat (x :: u32))) \<le> 10"
  using unsigned_less [of x, where ?'a = nat] by (intro decimal_length) simp_all

lemma decimal_u64: "length (decimal (unat (x :: u64))) \<le> 20"
  using unsigned_less [of x, where ?'a = nat] by (intro decimal_length) simp_all

lemma hex_u32: "length (hex_padded 8 (unat (x :: u32))) \<le> 8"
  using unsigned_less [of x, where ?'a = nat] by (intro hex_padded_length) simp_all

lemmas number_widths = decimal_u32 decimal_u64 hex_u32

text \<open>The lines of a submission are short enough for the log, which drops one past 128 bytes.\<close>

lemma submission_lines_short:
  "length (slow_line q us) < 128" "length (not_retired_line q us v) < 128" "length (mark_line m now) < 128"
proof -
  show "length (slow_line q us) < 128"
    using number_widths(2) [of q] number_widths(2) [of us] by (simp add: slow_line_def)
  show "length (not_retired_line q us v) < 128"
    using number_widths(2) [of q] number_widths(2) [of us] number_widths(3) [of v] by (simp add: not_retired_line_def)
  have "length (decimal (unat (mk_ib m))) \<le> 3" "length (hex_padded 4 (unat (mk_at m))) \<le> 4"
    "length (hex (unat (mk_va m))) \<le> 16"
    using unsigned_less [of "mk_ib m", where ?'a = nat] unsigned_less [of "mk_at m", where ?'a = nat]
      unsigned_less [of "mk_va m", where ?'a = nat]
    by (auto intro!: decimal_length hex_padded_length hex_length)
  then show "length (mark_line m now) < 128"
    using number_widths(3) [of "mk_before m"] number_widths(3) [of "the now"]
      number_widths(3) [of "mk_ref m"] number_widths(3) [of "mk_mask m"]
    by (cases now) (simp_all add: mark_line_def)
qed

text \<open>
  With nothing waiting in the line buffer, a submission that does not retire is one line and one
  for each of its marks, whole and in the order the marks were left; one that retires says nothing
  unless it is the slowest so far.
\<close>

lemma log_short: "s_line s = [] \<Longrightarrow> length fmt < 128 \<Longrightarrow> oops_winsys_log fmt s = s\<lparr>klog := klog s @ [fmt]\<rparr>"
  by (simp add: oops_winsys_log_def winsys_vlog_def oops_klog_def oops_stderr_flush_partial_def line_flush_def)

lemma report_lines_klog:
  assumes "s_line s = []"
  shows "report_lines env w s = s\<lparr>klog := klog s @ map (\<lambda>(m, now). mark_line m now) (oops_winsys_report_marks env w)\<rparr>"
proof -
  have "fold (\<lambda>(m, now). oops_winsys_log (mark_line m now)) xs s = s\<lparr>klog := klog s @ map (\<lambda>(m, now). mark_line m now) xs\<rparr>"
    if "s_line s = []" for xs and s :: outputs
    using that
  proof (induction xs arbitrary: s)
    case (Cons x xs)
    then show ?case by (cases x) (simp add: log_short submission_lines_short)
  qed simp
  then show ?thesis using assms by (simp add: report_lines_def)
qed

lemma retire_lines_klog:
  assumes "s_line s = []"
  shows "\<not> fired \<Longrightarrow> klog (retire_lines env fired waited slowest w s) = klog s @
      not_retired_line (w_sequence w + 1) waited (pf_load env (w_trace w) (w_fence w)) #
      map (\<lambda>(m, now). mark_line m now) (oops_winsys_report_marks env w)"
    and "fired \<Longrightarrow> waited \<le> slowest \<or> waited \<le> OOPS_WINSYS_SLOW_US \<Longrightarrow>
      retire_lines env fired waited slowest w s = s"
  using assms by (auto simp: retire_lines_def log_short submission_lines_short report_lines_klog)

text \<open>Both lines fit the buffers they are formatted in, for every value: nothing is cut.\<close>

lemma loader_lines_fit:
  "length (config_count_line offered found depth) \<le> 95"
  "length (present_line t_start t_flush t_read t_mirror t_done) \<le> 111"
proof -
  have "length (config_count_line offered found depth) \<le> 56 + 2 * 10"
    using decimal_u32 [of offered] decimal_u32 [of depth] by (simp add: config_count_line_def)
  then show "length (config_count_line offered found depth) \<le> 95" by simp
  have "length (present_line t_start t_flush t_read t_mirror t_done) \<le> 45 + 5 * 10"
    using decimal_u32 [of "ucast (t_flush - t_start)"] decimal_u32 [of "ucast (t_read - t_flush)"]
      decimal_u32 [of "ucast (t_mirror - t_read)"] decimal_u32 [of "ucast (t_done - t_mirror)"]
      decimal_u32 [of "ucast (t_done - t_start)"]
    by (simp add: present_line_def Let_def)
  then show "length (present_line t_start t_flush t_read t_mirror t_done) \<le> 111" by simp
qed

text \<open>The lines after \<open>n\<close> presents: one each for the first ten, then one in sixty.\<close>

lemma present_lines:
  assumes "length ts < 2 ^ 32"
  shows "fst (fold say_present_cost ts (0, s)) = of_nat (length ts) \<and>
    length (klog (snd (fold say_present_cost ts (0, s)))) = length (klog s) + min (length ts) 10 + length ts div 60"
  using assms
proof (induction ts rule: rev_induct)
  case (snoc t ts)
  let ?r = "fold say_present_cost ts (0, s)"
  obtain p o' where r: "?r = (p, o')" by fastforce
  have IH: "p = of_nat (length ts)" "length (klog o') = length (klog s) + min (length ts) 10 + length ts div 60"
    using snoc r by simp_all
  have "unat (of_nat (length ts + 1) :: u32) = length ts + 1" using snoc.prems by (intro unat_of_nat_small) simp
  then have u: "unat (p + 1) = length ts + 1" unfolding IH(1) of_nat_add of_nat_1 .
  have "10 < p + 1 \<longleftrightarrow> 10 < length ts + 1" "(p + 1) mod 60 \<noteq> 0 \<longleftrightarrow> (length ts + 1) mod 60 \<noteq> 0"
    unfolding word_less_nat_alt word_unat_eq_iff unat_mod_distrib u by simp_all
  then have "fold say_present_cost (ts @ [t]) (0, s) =
      (p + 1, if 10 < length ts + 1 \<and> (length ts + 1) mod 60 \<noteq> 0 then o'
        else say (take 111 (case t of (a, b, c, d, e) \<Rightarrow> present_line a b c d e)) o')"
    using r by (simp add: say_present_cost_def Let_def split: prod.split)
  moreover have "(length ts + 1) div 60 = length ts div 60 + (if (length ts + 1) mod 60 = 0 then 1 else 0)"
    by (simp add: div_Suc)
  ultimately show ?case using IH by (auto simp: say_def oops_klog_def)
qed simp

text \<open>A query below 64 is logged the first time only, and the log of one does not hide another.\<close>

lemma trace_query_once:
  assumes "q < 64"
  shows "trace_query q (trace_query q (asked, s)) = trace_query q (asked, s)"
    and "q' < 64 \<Longrightarrow> q' \<noteq> q \<Longrightarrow>
      bit (fst (trace_query q (asked, s))) (unat q') = bit asked (unat q')"
proof -
  have b: "x AND push_bit (unat k) 1 \<noteq> 0 \<longleftrightarrow> bit x (unat k)" if "k < 64" for x :: u64 and k :: u32
  proof -
    have k: "unat k < 64" using that by (simp add: word_less_nat_alt)
    show ?thesis
    proof
      assume "bit x (unat k)"
      then have "bit (x AND push_bit (unat k) 1) (unat k)" using k by (simp add: bit_and_iff bit_exp_iff)
      then show "x AND push_bit (unat k) 1 \<noteq> 0" by auto
    next
      assume "x AND push_bit (unat k) 1 \<noteq> 0"
      then obtain j where "bit (x AND push_bit (unat k) 1) j" using bit_eqI [of "x AND push_bit (unat k) 1" 0] by auto
      then show "bit x (unat k)" by (auto simp: bit_and_iff bit_exp_iff)
    qed
  qed
  have k: "unat q < 64" using assms by (simp add: word_less_nat_alt)
  show "trace_query q (trace_query q (asked, s)) = trace_query q (asked, s)"
    using assms k b [OF assms] by (simp add: trace_query_def bit_or_iff bit_exp_iff)
  show "bit (fst (trace_query q (asked, s))) (unat q') = bit asked (unat q')" if "q' < 64" "q' \<noteq> q"
    using that by (auto simp: trace_query_def bit_or_iff bit_exp_iff word_unat_eq_iff)
qed

text \<open>
  The lines of a refused ioctl: the first one on a descriptor is logged, a repetition is not,
  whatever other calls were served between them; it still takes a number of the sequence. The
  descriptor -1 is refused without a line from the start.
\<close>

lemma refusal_logged_once:
  assumes "fd \<noteq> winsys_fd" and "\<not> is_open fd"
  shows "s_complained k = fd \<Longrightarrow> ioctl_lines level is_open winsys_fd dispatch fd request (k, s) =
      (- 9, (k\<lparr>s_seq := s_seq k + 1\<rparr>, s))"
    and "s_complained k \<noteq> fd \<Longrightarrow> ioctl_lines level is_open winsys_fd dispatch fd request (k, s) =
      (- 9, (k\<lparr>s_seq := s_seq k + 1, s_complained := fd\<rparr>, oops_winsys_log (not_open_line fd winsys_fd) s))"
    and "is_open fd' \<or> fd' = winsys_fd \<Longrightarrow>
      s_complained (fst (snd (ioctl_lines level is_open winsys_fd dispatch fd' request (k, s)))) = s_complained k"
  using assms by (auto simp: ioctl_lines_def Let_def split: prod.split)

lemma minus_one_refused_silently:
  assumes "winsys_fd \<noteq> - 1" and "\<not> is_open (- 1)"
  shows "snd (snd (ioctl_lines level is_open winsys_fd dispatch (- 1) request (ioctl_notes_init, s))) = s"
  using assms by (simp add: ioctl_lines_def ioctl_notes_init_def Let_def)

text \<open>At the default level a served ioctl adds no line of its own on the device's descriptor.\<close>

lemma ioctl_quiet_at_info:
  "ioctl_lines OOPS_LOG_INFO is_open fd dispatch fd request (k, s) =
     (fst (dispatch s), (k\<lparr>s_seq := s_seq k + 1\<rparr>, snd (dispatch s)))"
  by (simp add: ioctl_lines_def oops_winsys_log_debug_def less_log_level_def Let_def split: prod.split)

text \<open>A query that fails is logged every time, also when its first line has been said.\<close>

lemma failed_query_logged:
  assumes "q < 64" and "asked AND push_bit (unat q) 1 \<noteq> 0" and "r \<noteq> 0"
  shows "info_lines (\<lambda>s. (r, s)) q (asked, s) = (r, (asked, oops_winsys_log (info_failed_line q r) s))"
  using assms by (simp add: info_lines_def trace_query_def Let_def)

end
