(* ===== verification/Spec2Isabelle.thy ===== *)
theory Spec2Isabelle
  imports Device_Props Device_Answers Buffers_Ops Environ Calendar CStrings Files Emutls_Props Threads_Props
    Loader_Life Cxx Cxx_Runtime Tiling System Preamble Diagnostics
begin

text \<open>
  oops-mesa runs Mesa's radeonsi driver in a title on a console: no kernel, no device node, no C
  library beyond the vendor's. This library models the code under \<open>src/src\<close> that stands in for
  them, and the tools that check Mesa against the hardware description.

  How the program is put together. A title calls the platform shim (\<open>platform/gfx.c\<close> over
  \<open>platform/dri_loader.c\<close>), which drives Mesa's DRI frontend and hands Mesa's buffers to the
  display. Mesa, through libdrm, calls the winsys (\<open>winsys/\<close>): \<open>oops_winsys_ioctl\<close> dispatches onto
  the tables of buffer objects, contexts, buffer lists and synchronisation objects, and onto
  command submission, which reads the buffers, hands the stream to the vendor's driver and waits
  for a fence in memory. The runtime (\<open>runtime/\<close>) answers what Mesa asks of a C and C++ library.
  Mesa, libdrm, oops-sdk and the vendor libraries are outside the repository: what the code uses of
  them is a parameter, usually a function of the calls made so far.

  The theories, by the part they model.

  \<^item> \<open>Prelude\<close>: machine integers, error codes, the scan loop of the fixed tables, and two interfaces
    as locales, \<open>handle_table\<close> (buffers, contexts, buffer lists, synchronisation objects),
    \<open>transition_system\<close> (the interleaved callers of one-time initialisers) and
    \<open>invariant_machine\<close> (buffer calls, submissions, ioctls), whose allowed runs are a sublocale of
    it.
  \<^item> \<open>Memory\<close>, \<open>Buffers\<close>: the platform's direct-memory calls as a history, and \<open>winsys/buffers.c\<close>
    with its buffer table and retained ranges. \<open>Buffers_Inv\<close>, \<open>Buffers_Machine\<close>, \<open>Buffers_Ops\<close>,
    \<open>Buffers_Samples\<close> and \<open>Buffers_Props\<close> hold the ownership invariant, its preservation by each
    operation, the behaviour of single operations, and concrete platforms.
  \<^item> \<open>Contexts\<close>, \<open>Syncobjs\<close>: \<open>winsys/context.c\<close> and \<open>winsys/syncobj.c\<close>.
  \<^item> \<open>World\<close>, \<open>Marks\<close>, \<open>Submit\<close>: the trace of a submission, the progress marks of \<open>winsys/log.c\<close>, and
    \<open>winsys/submit.c\<close>. \<open>Submit_Chain\<close> proves the chain walk against the packets of a stream,
    \<open>Submit_Props\<close> what a submission publishes, and \<open>Submit_Samples\<close> holds concrete drivers.
  \<^item> \<open>Device\<close>, \<open>Ioctl\<close>: \<open>winsys/device_info.c\<close> and \<open>winsys/drm_device.c\<close>; \<open>Device_Answers\<close> and
    \<open>Device_Props\<close> their properties and the whole device as a machine over ioctls.
  \<^item> \<open>Loader\<close>: \<open>platform/dri_loader.c\<close> and \<open>platform/gfx.c\<close>. \<open>Loader_Props\<close> is about the config and
    the copied frame, \<open>Loader_Life\<close> about the resources and the double buffering of a handle.
  \<^item> \<open>Environ\<close>, \<open>Calendar\<close>, \<open>CStrings\<close>, \<open>Files\<close>, \<open>System\<close>, \<open>Stubs\<close>: \<open>runtime/libc_absent.c\<close>, by what
    it replaces; \<open>System\<close> also has the constructor walk of \<open>runtime/abi.c\<close>. \<open>Environ\<close> states the
    environment as an interface, the locale \<open>env_store\<close>, and interprets it on the table.
  \<^item> \<open>Klog\<close>, \<open>Logging\<close>: \<open>runtime/stderr_to_klog.c\<close>, and the log lines of \<open>winsys/log.c\<close> over it.
  \<^item> \<open>Emutls\<close>, \<open>Emutls_Props\<close>: \<open>runtime/emutls.c\<close>. \<open>Threads\<close>, \<open>Threads_Props\<close>: \<open>runtime/threads.c\<close>.
    \<open>Cxx\<close>, \<open>Cxx_Runtime\<close>: \<open>runtime/cxx_support.cpp\<close>.
  \<^item> \<open>Tiling\<close>, \<open>Preamble\<close>: the tools \<open>tools/tiling-compare\<close> and \<open>tools/preamble-dump\<close>, the latter with
    the two streams it printed and its link-time stand-ins.
  \<^item> \<open>Diagnostics\<close>: the log lines that keep state of their own, of \<open>winsys/drm_device.c\<close> and
    \<open>platform/dri_loader.c\<close>, and those of a submission that never retires: which of them are said,
    how often, and that they are short enough to be kept.
  \<^item> This theory: the properties that cross the winsys components.

  How code is rendered. A static table is a function of its index, read below its bound only; a
  static variable is a field of the component's state record. Widths are kept where they matter
  (\<open>u32\<close>, \<open>u64\<close>); pointers into memory the code does arithmetic on are 64-bit addresses, other
  pointers are numbers with 0 for null. Kernel structures keep the fields the code reads; operation
  codes whose numbers live in outside headers are datatypes with a constructor for the rest. A call
  that may not return, loops for ever or dereferences null, has the result \<open>None\<close>, and that the calls
  do return is proved. Threads are modelled where the code synchronises them itself: \<open>once_step\<close> and
  \<open>guard_step\<close> are step relations over interleaved callers.

  What the properties show. Buffers: every sequence of calls returns and keeps the ownership
  invariant, so no address, mapped or retained, reaches freed memory, under the contract that a
  map names a range of its buffer; what happens outside that contract is stated too. Submission: the
  sequence number is published only after the fence fired, failures publish nothing, chains are
  followed to a bound of 16 streams, handles stay signalled. Device: both, for sequences of ioctls.
  Runtime: the environment refines a partial map, local time is the Gregorian calendar's, strings are
  copied and compared as C requires, no printed text is lost or cut beyond the log's line length,
  thread-local objects form a partial map and are all given back, one-time initialisers run once.
  Platform: every resource of a handle is given back on every path, the buffer on screen is not the
  one drawn into, a copied frame is the rendered one upside down. Tools: what a verdict and a
  decoded stream mean.

  Bounds and fuel. Loops of the code that are bounded are structural or have a measure; the
  fuel-like bounds are the code's own (16 chained streams, 500000 polls, the table sizes). Unbounded
  ones are \<open>partial_function (option)\<close>; the search for a prime size of a hash table runs on 64-bit
  words and is proved to return while a prime below 2^62 lies ahead. Thread-local indices are
  natural numbers, for values no program reaches.

  Not modelled. Formatting by the C library (a formatted text is a parameter where it is not spelled
  out) and log lines that have no other effect, except in \<open>Klog\<close>, \<open>Logging\<close>, \<open>Stubs\<close> and
  \<open>Diagnostics\<close>, which are about the log itself; the clock the timings of \<open>dri_loader.c\<close> are read
  from; the byte layout of the kernel's structures and everything else outside the
  repository; concurrent calls into the winsys, whose tables take no lock; the shell, make and meson
  files, the patches against Mesa and the host tests.
\<close>

section \<open>Properties that span components\<close>

text \<open>A platform with the bump allocator behind the buffers and a driver that accepts everything.\<close>

definition sample_env :: platform where
  "sample_env = sample_platform\<lparr>pf_mem := bump_platform\<rparr>"

definition sample_kernel :: kernel where
  "sample_kernel = \<lparr>kn_uapi = \<lparr>enc_device = (\<lambda>_. []), enc_memory = (\<lambda>_. []), enc_firmware = [],
     enc_hw_ip = (\<lambda>_. [])\<rparr>, kn_direct_size = Some 0x300000000, kn_is_open = (\<lambda>_. False)\<rparr>"

lemma sample_env_ok: "platform_ok (pf_mem sample_env)" "fence_memory sample_env"
  using bump_platform_ok by (simp_all add: sample_env_def sample_platform_def fence_memory_def)

definition sample_requests :: "(int \<times> request) list" where
  "sample_requests = [(0x57, IOCTL_AMDGPU_GEM_CREATE sample_create), (0x57, IOCTL_AMDGPU_GEM_VA sample_map),
     (0x57, IOCTL_AMDGPU_CS sample_arg), (0x57, IOCTL_GEM_CLOSE 1), (3, IOCTL_OTHER 0)]"

lemma sample_requests_allowed:
  "ops_allowed (device_step sample_env sample_kernel) device_pre device_init sample_requests"
proof -
  have d: "dv_buf device_init = buffers_init" "dv_fd device_init = 0x57"
    by (simp_all add: dv_buf_def device_init_def winsys_init_def OOPS_WINSYS_FD_def)
  have c: "oops_winsys_gem_create bump_platform sample_create buffers_init = ((Ok, 1), sample_created)"
    by (simp add: sample_defs oops_winsys_gem_create_def round_up_page_def OOPS_WINSYS_PAGE_def
        OOPS_WINSYS_MAX_BO_def first_index_def bump_platform_def Let_def)
  have s1: "device_step sample_env sample_kernel device_init (0x57, IOCTL_AMDGPU_GEM_CREATE sample_create) =
      Some (set_buf sample_created device_init)"
    using c by (simp add: device_step_def oops_winsys_ioctl_def ioctl_dispatch_def d sample_env_def)
  have b: "dv_buf (set_buf sample_created device_init) = sample_created"
    by (simp add: dv_buf_def set_buf_def)
  show ?thesis
    using sample_pre2 by (auto simp: sample_requests_def s1 b simp del: buf_pre.simps split: option.split)
qed





text \<open>
  A closed buffer cannot come back through a buffer list: after a close ioctl
  succeeded, a list creation any of whose entries names that handle is refused and creates
  nothing.
\<close>

theorem closed_handle_not_listed:
  assumes "oops_winsys_ioctl env kn (dv_fd d) (IOCTL_GEM_CLOSE h) d = Some ((Ok, rep), d')"
    and "bi_operation a = AMDGPU_BO_LIST_OP_CREATE" and "k < unat (bi_bo_number a)"
    and "entry_handle (pf_load env (w_trace (dv_winsys d'))) (bi_bo_info_ptr a) (bi_bo_info_size a) k = h"
  shows "oops_winsys_ioctl env kn (dv_fd d') (IOCTL_AMDGPU_BO_LIST a) d' = Some ((Err EINVAL, NoReply), d')"
proof -
  from assms(1) obtain b where b: "oops_winsys_gem_close h (dv_buf d) = Some (Ok, b)" "d' = set_buf b d"
    by (auto simp: oops_winsys_ioctl_def ioctl_dispatch_def)
  then obtain i s3 where "bo_index (dv_buf d) h = Some i" "b = set_bo i bo_zero s3"
    by (auto simp: oops_winsys_gem_close_def Let_def split: option.splits)
  then have "\<not> oops_winsys_bo_is_live (dv_buf d') h"
    using b(2) by (auto simp: oops_winsys_bo_is_live_def bo_of_def bo_index_def set_buf_def dv_buf_def
        set_bo_def bo_zero_def split: if_splits)
  then have "list_ex (\<lambda>i. \<not> oops_winsys_bo_is_live (dv_buf d') (entry_handle (pf_load env (w_trace (dv_winsys d')))
      (bi_bo_info_ptr a) (bi_bo_info_size a) i)) [0..<unat (bi_bo_number a)]"
    using assms(3,4) by (auto simp: list_ex_iff intro!: bexI [of _ k])
  then show ?thesis
    using assms(2) by (simp add: oops_winsys_ioctl_def ioctl_dispatch_def oops_winsys_bo_list_def Let_def reply_of_def)
qed

theorem closed_handle_not_listed_witness:
  "\<exists>d'. oops_winsys_ioctl (sample_env\<lparr>pf_load := (\<lambda>_ _. 1)\<rparr>) sample_kernel 0x57 (IOCTL_GEM_CLOSE 1)
        (set_buf sample_created device_init) = Some ((Ok, NoReply), d') \<and>
      oops_winsys_ioctl (sample_env\<lparr>pf_load := (\<lambda>_ _. 1)\<rparr>) sample_kernel 0x57
        (IOCTL_AMDGPU_BO_LIST \<lparr>bi_operation = AMDGPU_BO_LIST_OP_CREATE, bi_list_handle = 0, bi_bo_number = 2,
           bi_bo_info_size = 8, bi_bo_info_ptr = 0x1000\<rparr>) d' = Some ((Err EINVAL, NoReply), d')"
proof -
  let ?d = "set_buf sample_created device_init" and ?env = "sample_env\<lparr>pf_load := (\<lambda>_ _. 1)\<rparr>"
  let ?b = "set_bo 0 bo_zero (mem_note (FreeDirect 0x4000 0x8000) sample_created)"
  note F = sample_created_fields
  have "retained_adopt_pages p sample_created = (False, sample_created)" for p
    using F(4) by (simp add: retained_adopt_pages_def first_index_None split: option.split)
  then have c: "oops_winsys_gem_close 1 sample_created = Some (Ok, ?b)"
    using F(1,2) by (simp add: oops_winsys_gem_close_def Let_def sample_bo_def)
  have d: "dv_fd ?d = 0x57" "dv_buf ?d = sample_created"
    by (simp_all add: set_buf_def device_init_def OOPS_WINSYS_FD_def dv_buf_def)
  have io: "oops_winsys_ioctl ?env sample_kernel (dv_fd ?d) (IOCTL_GEM_CLOSE 1) ?d = Some ((Ok, NoReply), set_buf ?b ?d)"
    using c d(2) by (simp add: oops_winsys_ioctl_def ioctl_dispatch_def)
  have "dv_fd (set_buf ?b ?d) = 0x57" using d(1) by (simp add: set_buf_def)
  then show ?thesis
    using io d(1) closed_handle_not_listed [OF io, of "\<lparr>bi_operation = AMDGPU_BO_LIST_OP_CREATE, bi_list_handle = 0,
        bi_bo_number = 2, bi_bo_info_size = 8, bi_bo_info_ptr = 0x1000\<rparr>" 0]
    by (auto simp: entry_handle_def)
qed

text \<open>
  C14. The sequence number of a submission that names a user fence is stored inside the
  buffer the fence names: if anything is stored, it is one 64-bit value at an address whose
  eight bytes are the buffer's own memory at the fence's offset, and they end within the
  buffer.
\<close>

theorem user_fence_inside_buffer:
  assumes "platform_ok (pf_mem env)" and "winv (w_buf s)" and "cs_publish env (Some (h, off)) s = (r, s')"
    and "w_trace s' \<noteq> w_trace s"
  shows "\<exists>slot b. w_trace s' = Store64 slot (w_sequence s + 1) # w_trace s \<and> bo_of (w_buf s) h = Some b \<and>
    unat off + 8 \<le> unat (bo_size b) \<and>
    (\<forall>k<8. xlate (mem_calls (w_buf s')) (unat slot + k) = Some (bo_phys b + int (unat off) + int k))"
proof -
  obtain slot b' where c: "oops_winsys_bo_cpu_range (pf_mem env) h off 8 (w_buf s) = (slot, b')" by fastforce
  then have "slot \<noteq> 0" "w_trace s' = Store64 slot (w_sequence s + 1) # w_trace s" "w_buf s' = b'"
    using assms(3,4) by (auto simp: cs_publish_def Let_def split: if_splits)
  with cpu_range_pages [OF assms(1,2) c] show ?thesis by auto
qed

theorem user_fence_inside_buffer_witness:
  "\<exists>s'. snd (cs_publish sample_env (Some (1, 8)) (winsys_init\<lparr>w_buf := sample_created\<rparr>)) = s' \<and>
    w_trace s' = [Store64 0x4008 1] \<and> xlate (mem_calls (w_buf s')) (0x4008 + 7) = Some (0x4000 + 8 + 7)"
proof -
  let ?s = "winsys_init\<lparr>w_buf := sample_created\<rparr>"
  have r: "oops_winsys_bo_cpu_range (pf_mem sample_env) 1 8 8 (w_buf ?s) = (0x4008, sample_cpu)"
    using sample_created_fields(1,2) sample_cpu_map
    by (simp add: oops_winsys_bo_cpu_range_def sample_bo_def sample_env_def) (simp add: sample_cpu_def)
  obtain x s' where p: "cs_publish sample_env (Some (1, 8)) ?s = (x, s')" by fastforce
  then have t: "w_trace s' = [Store64 0x4008 1]" using r
    by (auto simp: cs_publish_def Let_def winsys_init_def)
  obtain slot b where f: "w_trace s' = Store64 slot (w_sequence ?s + 1) # w_trace ?s" "bo_of (w_buf ?s) 1 = Some b"
    "\<forall>k<8. xlate (mem_calls (w_buf s')) (unat slot + k) = Some (bo_phys b + int (unat (8 :: u64)) + int k)"
    using user_fence_inside_buffer [OF sample_env_ok(1) _ p] sample_winv(1) t by (auto simp: winsys_init_def)
  then have "slot = 0x4008" "bo_phys b = 0x4000"
    using t sample_created_fields(1,2) by (auto simp: bo_of_def sample_bo_def winsys_init_def)
  then show ?thesis using p t spec [OF f(3), of 7] by simp
qed

end
